(* ===== verification/Prelude.thy ===== *)
theory Prelude
  imports Main "HOL-Library.Word"
begin

text \<open>
  Shared vocabulary of the development: the machine types of the Rust sources, results with an
  explicit panic branch, little-endian byte encodings, checked slices, and the lemmas on them
  that every component uses.

  \<^item> \<open>u8\<close>, \<open>u32\<close>, \<open>u64\<close> are words of the width the source has; \<open>usize\<close> is \<open>nat\<close>, with the
    64-bit bound written out where the code checks it (\<open>checked_add\<close>, \<open>try_into\<close>).
  \<^item> \<open>bytes\<close> is a \<open>Vec<u8>\<close>, a \<open>&[u8]\<close> or a \<open>bytes::Bytes\<close>: only the contents matter.
  \<^item> \<open>('e, 'a) result\<close> is Rust's \<open>Result<'a, 'e>\<close> with a third branch for a panic, so that an
    out-of-range slice or a failed \<open>expect\<close> is a value of the model.
\<close>

unbundle bit_operations_syntax

type_synonym u8 = "8 word"
type_synonym u32 = "32 word"
type_synonym u64 = "64 word"
type_synonym bytes = "u8 list"

named_theorems layout_simps "layout and length facts of encoded frames"
named_theorems const_defs "the constants of the sources"


section \<open>Results with an explicit panic\<close>

datatype ('e, 'a) result = Ok 'a | Err 'e | Panic

fun bindR :: "('e, 'a) result \<Rightarrow> ('a \<Rightarrow> ('e, 'b) result) \<Rightarrow> ('e, 'b) result" where
  "bindR (Ok x) f = f x"
| "bindR (Err e) f = Err e"
| "bindR Panic f = Panic"

text \<open>\<open>Result::map\<close>.\<close>

fun mapR :: "('a \<Rightarrow> 'b) \<Rightarrow> ('e, 'a) result \<Rightarrow> ('e, 'b) result" where
  "mapR f (Ok x) = Ok (f x)"
| "mapR f (Err e) = Err e"
| "mapR f Panic = Panic"

text \<open>\<open>Option::ok_or\<close>.\<close>

fun ok_or :: "'e \<Rightarrow> 'a option \<Rightarrow> ('e, 'a) result" where
  "ok_or e (Some x) = Ok x"
| "ok_or e None = Err e"

text \<open>Indexing and slicing with brackets, \<open>unwrap\<close> and \<open>expect\<close>: a missing value panics.\<close>

fun or_panic :: "'a option \<Rightarrow> ('e, 'a) result" where
  "or_panic (Some x) = Ok x"
| "or_panic None = Panic"

lemma bindR_eq_Ok: "bindR m f = Ok y \<longleftrightarrow> (\<exists>x. m = Ok x \<and> f x = Ok y)"
  by (cases m) auto

lemma bindR_eq_Err: "bindR m f = Err e \<longleftrightarrow> m = Err e \<or> (\<exists>x. m = Ok x \<and> f x = Err e)"
  by (cases m) auto

lemma bindR_eq_Panic: "bindR m f = Panic \<longleftrightarrow> m = Panic \<or> (\<exists>x. m = Ok x \<and> f x = Panic)"
  by (cases m) auto

lemma mapR_eq_Ok: "mapR f m = Ok y \<longleftrightarrow> (\<exists>x. m = Ok x \<and> y = f x)"
  by (cases m) auto

lemma mapR_eq_Panic [simp]: "mapR f m = Panic \<longleftrightarrow> m = Panic"
  by (cases m) auto

lemma ok_or_eq_Ok [simp]: "ok_or e v = Ok x \<longleftrightarrow> v = Some x"
  by (cases v) auto

lemma ok_or_no_panic [simp]: "ok_or e v \<noteq> Panic"
  by (cases v) auto

lemma or_panic_eq_Ok [simp]: "or_panic v = Ok x \<longleftrightarrow> v = Some x"
  by (cases v) auto

lemmas bindR_iffs = bindR_eq_Ok bindR_eq_Err bindR_eq_Panic


section \<open>Machine integers\<close>

text \<open>\<open>usize::checked_add\<close> and \<open>u32::try_from(usize)\<close> on a 64-bit target.\<close>

definition checked_add_usize :: "nat \<Rightarrow> nat \<Rightarrow> nat option" where
  "checked_add_usize a b = (if a + b < 2 ^ 64 then Some (a + b) else None)"

definition u32_try_from :: "nat \<Rightarrow> u32 option" where
  "u32_try_from n = (if n < 2 ^ 32 then Some (of_nat n) else None)"

lemma unat_u8_less [simp]: "unat (b :: u8) < 256"
  using unsigned_less [of b] by simp

lemma unat_u32_less [simp]: "unat (w :: u32) < 4294967296"
  using unsigned_less [of w] by simp

lemma unat_u64_less [simp]: "unat (w :: u64) < 18446744073709551616"
  using unsigned_less [of w] by simp

text \<open>\<open>u64::saturating_sub\<close> and \<open>u64::saturating_add\<close>.\<close>

definition sat_sub :: "u64 \<Rightarrow> u64 \<Rightarrow> u64" where
  "sat_sub a b = (if b \<le> a then a - b else 0)"

definition sat_add :: "u64 \<Rightarrow> u64 \<Rightarrow> u64" where
  "sat_add a b = (if unat a + unat b < 2 ^ 64 then a + b else - 1)"

lemma unat_sat_sub: "unat (sat_sub a b) = unat a - unat b"
  by (simp add: sat_sub_def unat_sub word_le_nat_alt)

lemma unat_sat_add: "unat (sat_add a b) = min (unat a + unat b) (2 ^ 64 - 1)"
  by (auto simp: sat_add_def unat_word_ariths unsigned_minus_1_eq_mask mask_eq_exp_minus_1)

lemma u32_try_from_small: "n < 2 ^ 32 \<Longrightarrow> u32_try_from n = Some (of_nat n)"
  by (simp add: u32_try_from_def)

lemma unat_of_nat_u32 [simp]: "n < 2 ^ 32 \<Longrightarrow> unat (of_nat n :: u32) = n"
  by (simp add: unat_of_nat take_bit_nat_eq_self)


section \<open>Little-endian byte encodings\<close>

primrec le_bytes :: "nat \<Rightarrow> nat \<Rightarrow> bytes" where
  "le_bytes 0 n = []"
| "le_bytes (Suc k) n = of_nat n # le_bytes k (n div 256)"

primrec le_nat :: "bytes \<Rightarrow> nat" where
  "le_nat [] = 0"
| "le_nat (b # bs) = unat b + 256 * le_nat bs"

text \<open>\<open>u32::to_le_bytes\<close>, \<open>u32::from_le_bytes\<close> and their 64-bit versions.\<close>

definition u32_to_le :: "u32 \<Rightarrow> bytes" where
  "u32_to_le w = le_bytes 4 (unat w)"

definition u32_from_le :: "bytes \<Rightarrow> u32" where
  "u32_from_le bs = of_nat (le_nat bs)"

definition u64_to_le :: "u64 \<Rightarrow> bytes" where
  "u64_to_le w = le_bytes 8 (unat w)"

definition u64_from_le :: "bytes \<Rightarrow> u64" where
  "u64_from_le bs = of_nat (le_nat bs)"

lemma length_le_bytes [simp]: "length (le_bytes k n) = k"
  by (induction k arbitrary: n) auto

lemma le_nat_le_bytes: "le_nat (le_bytes k n) = n mod 256 ^ k"
proof (induction k arbitrary: n)
  case (Suc k)
  have "unat (of_nat n :: u8) = n mod 256"
    by (simp add: unat_of_nat)
  then show ?case
    by (simp add: Suc mod_mult2_eq)
qed simp

lemma le_nat_bound: "le_nat bs < 256 ^ length bs"
proof (induction bs)
  case (Cons b bs)
  have "unat b + 256 * le_nat bs < 256 + 256 * le_nat bs"
    by simp
  also have "\<dots> \<le> 256 * 256 ^ length bs"
    using Cons by simp
  finally show ?case by simp
qed simp

lemma le_bytes_le_nat: "le_bytes (length bs) (le_nat bs) = bs"
proof (induction bs)
  case (Cons b bs)
  have b: "unat b < 256"
    by simp
  have "(256 :: u8) = 0"
    by simp
  then have "of_nat (unat b + 256 * le_nat bs) = b"
    by (simp only: of_nat_add of_nat_mult of_nat_numeral) simp
  with b Cons show ?case by simp
qed simp

lemma length_u32_to_le [simp]: "length (u32_to_le w) = 4"
  by (simp add: u32_to_le_def)

lemma length_u64_to_le [simp]: "length (u64_to_le w) = 8"
  by (simp add: u64_to_le_def)

lemma u32_from_to_le [simp]: "u32_from_le (u32_to_le w) = w"
  by (simp add: u32_from_le_def u32_to_le_def le_nat_le_bytes)

lemma u64_from_to_le [simp]: "u64_from_le (u64_to_le w) = w"
  by (simp add: u64_from_le_def u64_to_le_def le_nat_le_bytes)

lemma u32_to_from_le: "length bs = 4 \<Longrightarrow> u32_to_le (u32_from_le bs) = bs"
  using le_nat_bound [of bs] le_bytes_le_nat [of bs]
  by (simp add: u32_from_le_def u32_to_le_def unat_of_nat take_bit_nat_eq_self)

lemma u64_to_from_le: "length bs = 8 \<Longrightarrow> u64_to_le (u64_from_le bs) = bs"
  using le_nat_bound [of bs] le_bytes_le_nat [of bs]
  by (simp add: u64_from_le_def u64_to_le_def unat_of_nat take_bit_nat_eq_self)

text \<open>\<open>u8::from(bool)\<close>.\<close>

definition u8_of_bool :: "bool \<Rightarrow> u8" where
  "u8_of_bool b = (if b then 1 else 0)"


section \<open>Slices\<close>

text \<open>\<open>bytes.get(lo..hi)\<close>; the bracket form panics where this is \<open>None\<close>.\<close>

definition slice_get :: "'a list \<Rightarrow> nat \<Rightarrow> nat \<Rightarrow> 'a list option" where
  "slice_get xs lo hi =
     (if lo \<le> hi \<and> hi \<le> length xs then Some (take (hi - lo) (drop lo xs)) else None)"

definition index_get :: "'a list \<Rightarrow> nat \<Rightarrow> 'a option" where
  "index_get xs i = (if i < length xs then Some (xs ! i) else None)"

lemma slice_get_append [simp]:
  "slice_get (pre @ xs @ post) (length pre) (length pre + length xs) = Some xs"
  by (simp add: slice_get_def)

lemma slice_get_SomeD:
  "slice_get xs lo hi = Some ys \<Longrightarrow> lo \<le> hi \<and> hi \<le> length xs \<and> length ys = hi - lo"
  by (auto simp: slice_get_def split: if_splits)

lemma index_get_Cons_0 [simp]: "index_get (x # xs) 0 = Some x"
  by (simp add: index_get_def)

lemma index_get_Cons_1 [simp]: "index_get (x # y # xs) (Suc 0) = Some y"
  by (simp add: index_get_def)

end
