(* ===== verification/Errors.thy ===== *)
theory Errors
  imports Prelude
begin

text \<open>
  The error enum of \<open>src/error.rs\<close>, variant by variant, and the result type the fallible
  functions of the crate return. \<open>io_error\<close> stands for \<open>std::io::Error\<close>: the kinds the sources
  construct or test, and a raw error code for the rest.
\<close>

datatype io_error =
    UnexpectedEof
  | WouldBlock
  | Interrupted
  | WriteZero
  | Unsupported
  | RawOs nat

datatype qlaster_error =
    ConnectionFailed
  | Io io_error
  | FrameTooLarge nat
  | PayloadTooLarge nat nat
  | InvalidWireVersion u8 u8
  | InvalidMessageTag u8 u8
  | DecodeError string
  | Timeout string
  | ConfigError string
  | MalformedPayload string
  | IncomingClosed
  | ShmError string
  | ShmFull
  | UdsError string

type_synonym 'a qresult = "(qlaster_error, 'a) result"

text \<open>Decimal rendering, for the numbers the sources put into messages.\<close>

fun show_nat :: "nat \<Rightarrow> string" where
  "show_nat n =
     (if n < 10 then [char_of (48 + n)] else show_nat (n div 10) @ [char_of (48 + n mod 10)])"

declare show_nat.simps [simp del]

end
