(* ===== verification/Cursor.thy ===== *)
theory Cursor
  imports Errors
begin

text \<open>
  The byte cursor of \<open>src/types.rs\<close> (\<open>take_exact\<close> and the \<open>take_*\<close> readers on top of it). The
  source passes \<open>cursor: &mut usize\<close>; the model takes the cursor and returns the new one beside
  the value. A reader that fails leaves the cursor alone and the caller returns at once, so the
  error branch carries no cursor.

  The locale \<open>field_reader\<close> is the interface the frame parsers rely on: a reader is the inverse
  of a fixed-width encoder at any offset, it never panics and it rejects a slice that is too short.
  It is interpreted for all five readers.
\<close>

definition take_exact :: "bytes \<Rightarrow> nat \<Rightarrow> nat \<Rightarrow> string \<Rightarrow> (bytes \<times> nat) qresult" where
  "take_exact bs cursor len ctxt =
     bindR (ok_or (MalformedPayload ctxt) (checked_add_usize cursor len))
       (\<lambda>stop. bindR (ok_or (MalformedPayload ctxt) (slice_get bs cursor stop))
          (\<lambda>slice. Ok (slice, stop)))"

definition take_u8 :: "bytes \<Rightarrow> nat \<Rightarrow> (u8 \<times> nat) qresult" where
  "take_u8 bs cursor =
     bindR (take_exact bs cursor 1 ''account update u8 out of bounds'')
       (\<lambda>(raw, cursor). bindR (or_panic (index_get raw 0)) (\<lambda>b. Ok (b, cursor)))"

definition take_u32_le :: "bytes \<Rightarrow> nat \<Rightarrow> (u32 \<times> nat) qresult" where
  "take_u32_le bs cursor =
     bindR (take_exact bs cursor 4 ''account update u32 out of bounds'')
       (\<lambda>(raw, cursor). if length raw = 4 then Ok (u32_from_le raw, cursor)
          else Err (MalformedPayload ''account update bad u32''))"

definition take_u64_le :: "bytes \<Rightarrow> nat \<Rightarrow> (u64 \<times> nat) qresult" where
  "take_u64_le bs cursor =
     bindR (take_exact bs cursor 8 ''account update u64 out of bounds'')
       (\<lambda>(raw, cursor). if length raw = 8 then Ok (u64_from_le raw, cursor)
          else Err (MalformedPayload ''account update bad u64''))"

definition take_array_32 :: "bytes \<Rightarrow> nat \<Rightarrow> (bytes \<times> nat) qresult" where
  "take_array_32 bs cursor =
     bindR (take_exact bs cursor 32 ''account update [u8;32] out of bounds'')
       (\<lambda>(raw, cursor). if length raw = 32 then Ok (raw, cursor)
          else Err (MalformedPayload ''account update bad [u8;32]''))"

definition take_array_64 :: "bytes \<Rightarrow> nat \<Rightarrow> (bytes \<times> nat) qresult" where
  "take_array_64 bs cursor =
     bindR (take_exact bs cursor 64 ''transaction update [u8;64] out of bounds'')
       (\<lambda>(raw, cursor). if length raw = 64 then Ok (raw, cursor)
          else Err (MalformedPayload ''transaction update bad [u8;64]''))"


section \<open>The readers' contract\<close>

text \<open>
  \<open>valid\<close> is the type invariant of the value (the length of a fixed-size array). The bound on the
  slice is the address space: no Rust slice is longer.
\<close>

locale field_reader =
  fixes rd :: "bytes \<Rightarrow> nat \<Rightarrow> ('a \<times> nat) qresult"
    and enc :: "'a \<Rightarrow> bytes"
    and valid :: "'a \<Rightarrow> bool"
    and width :: nat
  assumes width_pos: "0 < width"
    and enc_width: "valid x \<Longrightarrow> length (enc x) = width"
    and read_written:
      "valid x \<Longrightarrow> drop c bs = enc x @ post \<Longrightarrow> length bs < 2 ^ 64 \<Longrightarrow> rd bs c = Ok (x, c + width)"
    and read_sound:
      "rd bs c = Ok (x, c') \<Longrightarrow> valid x \<and> c' = c + width \<and> (\<exists>post. drop c bs = enc x @ post)"
    and read_short: "length bs < c + width \<Longrightarrow> \<exists>m. rd bs c = Err (MalformedPayload m)"
    and read_no_panic: "rd bs c \<noteq> Panic"
begin

text \<open>One step of a parse: the field is read and the cursor stands before the rest.\<close>

lemma read_step:
  assumes "valid x" and "drop c bs = enc x @ post" and "length bs < 2 ^ 64"
  shows "rd bs c = Ok (x, c + width) \<and> drop (c + width) bs = post"
proof -
  have "drop (c + width) bs = drop width (enc x @ post)"
    by (simp add: assms(2) [symmetric] add.commute)
  then show ?thesis
    using assms by (simp add: read_written enc_width)
qed

lemma read_Ok_iff:
  "length bs < 2 ^ 64 \<Longrightarrow>
     rd bs c = Ok (x, c') \<longleftrightarrow> valid x \<and> c' = c + width \<and> (\<exists>post. drop c bs = enc x @ post)"
  using read_sound read_written by blast

text \<open>The inverse direction: what was read, followed by what is left, is the slice.\<close>

lemma read_splits:
  assumes "rd bs c = Ok (x, c')"
  shows "drop c bs = enc x @ drop c' bs" and "c' = c + width" and "valid x"
proof -
  obtain post where *: "drop c bs = enc x @ post" and c': "c' = c + width" and v: "valid x"
    using read_sound [OF assms] by blast
  have "drop c' bs = drop width (drop c bs)"
    by (simp add: c' add.commute)
  also have "\<dots> = post"
    using * v by (simp add: enc_width)
  finally show "drop c bs = enc x @ drop c' bs" and "c' = c + width" and "valid x"
    using * c' v by auto
qed

lemma read_cursor: "rd bs c = Ok (x, c') \<Longrightarrow> valid x \<and> c' = c + width"
  using read_sound by blast

lemma read_enough: "rd bs c = Ok (x, c') \<Longrightarrow> c + width \<le> length bs"
  using read_short [of bs c] by (metis not_le result.distinct(1))

lemma read_long:
  assumes "c + width \<le> length bs" and "\<And>s. length s = width \<Longrightarrow> \<exists>x. valid x \<and> enc x = s"
    and "length bs < 2 ^ 64"
  shows "\<exists>x. rd bs c = Ok (x, c + width)"
proof -
  obtain x where "valid x" and "enc x = take width (drop c bs)"
    using assms(1) assms(2) [of "take width (drop c bs)"] by auto
  then have "drop c bs = enc x @ drop width (drop c bs)"
    by (simp del: drop_drop)
  with \<open>valid x\<close> show ?thesis
    using read_written assms(3) by blast
qed

end


section \<open>The readers meet it\<close>

lemma take_exact_Ok:
  "take_exact bs c n m = Ok (s, e) \<Longrightarrow> e = c + n \<and> c + n \<le> length bs \<and> s = take n (drop c bs)"
  by (auto simp: take_exact_def bindR_eq_Ok checked_add_usize_def slice_get_def split: if_splits)

lemma take_exact_short: "length bs < c + n \<Longrightarrow> take_exact bs c n m = Err (MalformedPayload m)"
  by (simp add: take_exact_def checked_add_usize_def slice_get_def)

lemma take_exact_written:
  assumes "drop c bs = s @ post" and "length s = n" and "0 < n" and "length bs < 2 ^ 64"
  shows "take_exact bs c n m = Ok (s, c + n)"
proof -
  have "length (drop c bs) = n + length post"
    using assms(1,2) by simp
  then have "c + n \<le> length bs"
    using assms(3) by auto
  then show ?thesis
    using assms by (simp add: take_exact_def checked_add_usize_def slice_get_def)
qed

lemma take_exact_no_panic: "take_exact bs c n m \<noteq> Panic"
  by (simp add: take_exact_def bindR_eq_Panic)

lemmas take_defs =
  take_u8_def take_u32_le_def take_u64_le_def take_array_32_def take_array_64_def

interpretation rd_u8: field_reader take_u8 "\<lambda>b. [b]" "\<lambda>_. True" 1
proof
  fix x :: u8 and c bs post
  assume "drop c bs = [x] @ post" and "length bs < 2 ^ 64"
  then show "take_u8 bs c = Ok (x, c + 1)"
    by (simp add: take_u8_def take_exact_written [of c bs "[x]"])
next
  fix bs c x c'
  assume "take_u8 bs c = Ok (x, c')"
  then have *: "c' = c + 1" "c + 1 \<le> length bs" "x = take 1 (drop c bs) ! 0"
    by (auto simp: take_u8_def bindR_eq_Ok index_get_def dest!: take_exact_Ok split: if_splits)
  then have "drop c bs = [x] @ drop (c + 1) bs"
    by (simp add: Cons_nth_drop_Suc)
  with * show "True \<and> c' = c + 1 \<and> (\<exists>post. drop c bs = [x] @ post)"
    by blast
next
  fix bs c
  show "take_u8 bs c \<noteq> Panic"
    by (auto simp: take_u8_def bindR_eq_Panic index_get_def take_exact_no_panic
        dest!: take_exact_Ok)
qed (simp_all add: take_u8_def take_exact_short)

interpretation rd_u32: field_reader take_u32_le u32_to_le "\<lambda>_. True" 4
proof
  fix x c bs post
  assume "drop c bs = u32_to_le x @ post" and "length bs < 2 ^ 64"
  then show "take_u32_le bs c = Ok (x, c + 4)"
    by (simp add: take_u32_le_def take_exact_written [of c bs "u32_to_le x"])
next
  fix bs c x c'
  assume "take_u32_le bs c = Ok (x, c')"
  then have *: "c' = c + 4" "c + 4 \<le> length bs" "x = u32_from_le (take 4 (drop c bs))"
    by (auto simp: take_u32_le_def bindR_eq_Ok dest!: take_exact_Ok split: if_splits)
  then have "drop c bs = u32_to_le x @ drop 4 (drop c bs)"
    by (simp add: u32_to_from_le del: drop_drop)
  with * show "True \<and> c' = c + 4 \<and> (\<exists>post. drop c bs = u32_to_le x @ post)"
    by blast
next
  fix bs c
  show "take_u32_le bs c \<noteq> Panic"
    by (auto simp: take_u32_le_def bindR_eq_Panic take_exact_no_panic split: if_splits)
qed (simp_all add: take_u32_le_def take_exact_short)

interpretation rd_u64: field_reader take_u64_le u64_to_le "\<lambda>_. True" 8
proof
  fix x c bs post
  assume "drop c bs = u64_to_le x @ post" and "length bs < 2 ^ 64"
  then show "take_u64_le bs c = Ok (x, c + 8)"
    by (simp add: take_u64_le_def take_exact_written [of c bs "u64_to_le x"])
next
  fix bs c x c'
  assume "take_u64_le bs c = Ok (x, c')"
  then have *: "c' = c + 8" "c + 8 \<le> length bs" "x = u64_from_le (take 8 (drop c bs))"
    by (auto simp: take_u64_le_def bindR_eq_Ok dest!: take_exact_Ok split: if_splits)
  then have "drop c bs = u64_to_le x @ drop 8 (drop c bs)"
    by (simp add: u64_to_from_le del: drop_drop)
  with * show "True \<and> c' = c + 8 \<and> (\<exists>post. drop c bs = u64_to_le x @ post)"
    by blast
next
  fix bs c
  show "take_u64_le bs c \<noteq> Panic"
    by (auto simp: take_u64_le_def bindR_eq_Panic take_exact_no_panic split: if_splits)
qed (simp_all add: take_u64_le_def take_exact_short)

interpretation rd_a32: field_reader take_array_32 "\<lambda>a. a" "\<lambda>a. length a = 32" 32
proof
  fix x c post
  fix bs :: bytes
  assume "length x = 32" and "drop c bs = x @ post" and "length bs < 2 ^ 64"
  then show "take_array_32 bs c = Ok (x, c + 32)"
    by (simp add: take_array_32_def take_exact_written [of c bs x])
next
  fix bs c x c'
  assume "take_array_32 bs c = Ok (x, c')"
  then show "length x = 32 \<and> c' = c + 32 \<and> (\<exists>post. drop c bs = x @ post)"
    by (auto simp: take_array_32_def bindR_eq_Ok dest!: take_exact_Ok split: if_splits
        intro: append_take_drop_id [symmetric])
next
  fix bs c
  show "take_array_32 bs c \<noteq> Panic"
    by (auto simp: take_array_32_def bindR_eq_Panic take_exact_no_panic split: if_splits)
qed (simp_all add: take_array_32_def take_exact_short)

interpretation rd_a64: field_reader take_array_64 "\<lambda>a. a" "\<lambda>a. length a = 64" 64
proof
  fix x c post
  fix bs :: bytes
  assume "length x = 64" and "drop c bs = x @ post" and "length bs < 2 ^ 64"
  then show "take_array_64 bs c = Ok (x, c + 64)"
    by (simp add: take_array_64_def take_exact_written [of c bs x])
next
  fix bs c x c'
  assume "take_array_64 bs c = Ok (x, c')"
  then show "length x = 64 \<and> c' = c + 64 \<and> (\<exists>post. drop c bs = x @ post)"
    by (auto simp: take_array_64_def bindR_eq_Ok dest!: take_exact_Ok split: if_splits
        intro: append_take_drop_id [symmetric])
next
  fix bs c
  show "take_array_64 bs c \<noteq> Panic"
    by (auto simp: take_array_64_def bindR_eq_Panic take_exact_no_panic split: if_splits)
qed (simp_all add: take_array_64_def take_exact_short)

lemmas readers_cursor =
  rd_u8.read_cursor rd_u32.read_cursor rd_u64.read_cursor rd_a32.read_cursor rd_a64.read_cursor

lemmas readers_no_panic [simp] =
  rd_u8.read_no_panic rd_u32.read_no_panic rd_u64.read_no_panic
  rd_a32.read_no_panic rd_a64.read_no_panic

end
