(* ===== verification/Wire_Common.thy ===== *)
theory Wire_Common
  imports Cursor
begin

text \<open>
  What all frames of \<open>src/types.rs\<close> share: tags, the wire version, size limits, the version and
  tag check (\<open>ensure_wire\<close>), the tag lookup of the routers (\<open>wire_tag\<close>) and the contract of an
  update codec, which the three update kinds meet and which the routers, the sender and the
  consumer rely on.
\<close>

definition REQUEST_SUBSCRIBE_TAG :: u8 where [const_defs]: "REQUEST_SUBSCRIBE_TAG = 1"
definition UPDATE_TAG :: u8 where [const_defs]: "UPDATE_TAG = 2"
definition READY_TAG :: u8 where [const_defs]: "READY_TAG = 3"
definition REQUEST_PING_TAG :: u8 where [const_defs]: "REQUEST_PING_TAG = 4"
definition READY_SHM_TAG :: u8 where [const_defs]: "READY_SHM_TAG = 5"
definition TRANSACTION_UPDATE_TAG :: u8 where [const_defs]: "TRANSACTION_UPDATE_TAG = 6"
definition SLOT_UPDATE_TAG :: u8 where [const_defs]: "SLOT_UPDATE_TAG = 7"
definition WIRE_VERSION :: u8 where [const_defs]: "WIRE_VERSION = 9"
definition UNSET_SLOT_INDEX :: u8 where [const_defs]: "UNSET_SLOT_INDEX = 255"

definition MAX_ACCOUNT_PAYLOAD_BYTES :: nat where
  [const_defs]: "MAX_ACCOUNT_PAYLOAD_BYTES = 10 * 1024 * 1024"
definition MAX_TRANSACTION_PAYLOAD_BYTES :: nat where
  [const_defs]: "MAX_TRANSACTION_PAYLOAD_BYTES = 10 * 1024 * 1024"
definition ACCOUNT_UPDATE_FLAG_LZ4 :: u8 where [const_defs]: "ACCOUNT_UPDATE_FLAG_LZ4 = 1"
definition ACCOUNT_UPDATE_COMPRESSION_THRESHOLD_BYTES :: nat where
  [const_defs]: "ACCOUNT_UPDATE_COMPRESSION_THRESHOLD_BYTES = 500 * 1024"
definition ACCOUNT_UPDATE_COMPRESSION_SAMPLE_BYTES :: nat where
  [const_defs]: "ACCOUNT_UPDATE_COMPRESSION_SAMPLE_BYTES = 8 * 1024"
definition ACCOUNT_UPDATE_COMPRESSION_MIN_GAIN_BPS :: nat where
  [const_defs]: "ACCOUNT_UPDATE_COMPRESSION_MIN_GAIN_BPS = 75"
definition ACCOUNT_UPDATE_FIXED_BYTES :: nat where
  [const_defs]: "ACCOUNT_UPDATE_FIXED_BYTES = 2 + 8 + (32 * 2) + (8 * 4) + 1 + 1 + 4 + 4"
definition TRANSACTION_UPDATE_FIXED_BYTES :: nat where
  [const_defs]: "TRANSACTION_UPDATE_FIXED_BYTES = 2 + 8 + 8 + 4 + 1 + 64 + 4"
definition SLOT_UPDATE_FIXED_BYTES :: nat where
  [const_defs]: "SLOT_UPDATE_FIXED_BYTES = 2 + 8 + 8"

type_synonym pubkey = bytes

definition wf_pubkey :: "pubkey \<Rightarrow> bool" where
  "wf_pubkey k \<longleftrightarrow> length k = 32"

definition ensure_wire :: "u8 \<Rightarrow> u8 \<Rightarrow> u8 \<Rightarrow> unit qresult" where
  "ensure_wire wire_version message_tag expected_tag =
     (if wire_version \<noteq> WIRE_VERSION then Err (InvalidWireVersion wire_version WIRE_VERSION)
      else if message_tag \<noteq> expected_tag then Err (InvalidMessageTag message_tag expected_tag)
      else Ok ())"

definition wire_tag :: "bytes \<Rightarrow> u8 qresult" where
  "wire_tag bs = ok_or (MalformedPayload ''frame too short for wire tag'') (index_get bs 1)"

lemma ensure_wire_Ok [simp]:
  "ensure_wire v t e = Ok () \<longleftrightarrow> v = WIRE_VERSION \<and> t = e"
  by (auto simp: ensure_wire_def)

lemma ensure_wire_refl [simp]: "ensure_wire WIRE_VERSION t t = Ok ()"
  by simp

lemma ensure_wire_no_panic [simp]: "ensure_wire v t e \<noteq> Panic"
  by (simp add: ensure_wire_def)

lemma wire_tag_Cons [simp]: "wire_tag (v # t # rest) = Ok t"
  by (simp add: wire_tag_def)

lemma wire_tag_no_panic [simp]: "wire_tag bs \<noteq> Panic"
  by (simp add: wire_tag_def)

lemma wire_tag_short: "length bs < 2 \<Longrightarrow> \<exists>m. wire_tag bs = Err (MalformedPayload m)"
  by (simp add: wire_tag_def index_get_def)

text \<open>The three tags of the update frames and the two of the control replies are distinct.\<close>

lemmas tag_defs =
  REQUEST_SUBSCRIBE_TAG_def UPDATE_TAG_def READY_TAG_def REQUEST_PING_TAG_def READY_SHM_TAG_def
  TRANSACTION_UPDATE_TAG_def SLOT_UPDATE_TAG_def

lemma tags_distinct:
  "distinct [REQUEST_SUBSCRIBE_TAG, UPDATE_TAG, READY_TAG, REQUEST_PING_TAG, READY_SHM_TAG,
     TRANSACTION_UPDATE_TAG, SLOT_UPDATE_TAG]"
  by (simp add: tag_defs)

text \<open>The match on a \<open>0\<close>/\<open>1\<close> byte in the update parsers.\<close>

definition flag_byte :: "string \<Rightarrow> u8 \<Rightarrow> bool qresult" where
  "flag_byte msg b = (if b = 0 then Ok False else if b = 1 then Ok True else Err (MalformedPayload msg))"

lemma flag_byte_u8_of_bool [simp]: "flag_byte msg (u8_of_bool b) = Ok b"
  by (simp add: flag_byte_def u8_of_bool_def)

lemma flag_byte_Ok: "flag_byte msg b = Ok x \<longleftrightarrow> b = u8_of_bool x"
  by (auto simp: flag_byte_def u8_of_bool_def)

lemma flag_byte_no_panic [simp]: "flag_byte msg b \<noteq> Panic"
  by (simp add: flag_byte_def)


section \<open>The contract of an update codec\<close>

text \<open>
  \<open>AccountUpdateWireMeta\<close>: the sender's timestamp every update frame carries.
\<close>

record wire_meta =
  sender_created_at_unix_nanos :: u64

text \<open>
  \<open>ext_ok\<close> is what the codec needs of code outside the repository (\<open>True\<close> where it calls none),
  \<open>wf\<close> the type invariant of the update, \<open>frame_max\<close> the largest frame it emits. The encoder
  yields header and payload separately, as \<open>encode_parts_at\<close> does; \<open>dec_owned\<close> is the zero-copy
  decoder that takes the buffer by value.
\<close>

locale update_codec =
  fixes encode_parts :: "'u \<Rightarrow> u64 \<Rightarrow> (bytes \<times> bytes) qresult"
    and dec :: "bytes \<Rightarrow> ('u \<times> wire_meta) qresult"
    and dec_owned :: "bytes \<Rightarrow> ('u \<times> wire_meta) qresult"
    and wf :: "'u \<Rightarrow> bool"
    and ext_ok :: bool
    and tag :: u8
    and frame_max :: nat
  assumes encode_total: "wf u \<Longrightarrow> \<exists>h p. encode_parts u t = Ok (h, p)"
    and encode_layout: "encode_parts u t = Ok (h, p) \<Longrightarrow> \<exists>rest. h = WIRE_VERSION # tag # rest"
    and encode_bound: "wf u \<Longrightarrow> encode_parts u t = Ok (h, p) \<Longrightarrow> length h + length p \<le> frame_max"
    and roundtrip:
      "ext_ok \<Longrightarrow> wf u \<Longrightarrow> encode_parts u t = Ok (h, p) \<Longrightarrow>
         dec (h @ p) = Ok (u, \<lparr>sender_created_at_unix_nanos = t\<rparr>)"
    and dec_wf: "dec bs = Ok (u, m) \<Longrightarrow> wf u"
    and dec_tag: "dec bs = Ok (u, m) \<Longrightarrow> \<exists>rest. bs = WIRE_VERSION # tag # rest"
    and dec_no_panic: "dec bs \<noteq> Panic"
    and dec_owned_eq: "dec_owned bs = dec bs"
begin

lemma encode_frame:
  assumes "wf u"
  obtains h p rest where "encode_parts u t = Ok (h, p)" and "h @ p = WIRE_VERSION # tag # rest"
  using encode_total [OF assms] encode_layout by (metis append_Cons)

lemma frame_tag: "encode_parts u t = Ok (h, p) \<Longrightarrow> wire_tag (h @ p) = Ok tag"
  using encode_layout by fastforce

text \<open>Distinct updates, or the same update at distinct times, never share a frame.\<close>

lemma encode_injective:
  assumes "ext_ok" and "wf u" and "wf v"
    and "encode_parts u t = Ok (h, p)" and "encode_parts v s = Ok (h', p')" and "h @ p = h' @ p'"
  shows "u = v \<and> t = s"
  using roundtrip [OF assms(1,2,4)] roundtrip [OF assms(1,3,5)] assms(6) by simp

end

end
