(* ===== verification/Lz4_Param.thy ===== *)
theory Lz4_Param
  imports Prelude
begin

text \<open>
  The block API of the third-party crate \<open>lz4_flex\<close> as a parameter of the codecs: \<open>compress\<close> of a
  slice and \<open>decompress\<close> of a slice told the size to allocate, whose error is kept as its text.
  \<open>lz4_lossless\<close> is the documented behaviour the codecs rely on. \<open>run_length_lz4\<close> is a concrete
  instance, used only to show that the assumption can hold of a compressor that does compress.
\<close>

record lz4 =
  lz_compress :: "bytes \<Rightarrow> bytes"
  lz_decompress :: "bytes \<Rightarrow> nat \<Rightarrow> string + bytes"

definition lz4_lossless :: "lz4 \<Rightarrow> bool" where
  "lz4_lossless lz \<longleftrightarrow> (\<forall>x. lz_decompress lz (lz_compress lz x) (length x) = Inr x)"

fun run_compress :: "bytes \<Rightarrow> bytes" where
  "run_compress [] = [0]"
| "run_compress (x # xs) =
     (if list_all (\<lambda>y. y = x) xs \<and> Suc (length xs) < 2 ^ 32
      then 1 # x # u32_to_le (of_nat (Suc (length xs))) else 0 # x # xs)"

fun run_decompress :: "bytes \<Rightarrow> nat \<Rightarrow> string + bytes" where
  "run_decompress [] n = Inl ''empty block''"
| "run_decompress (f # r) n =
     (if f = 0 then Inr r
      else case r of [] \<Rightarrow> Inl ''truncated run'' | x # k \<Rightarrow> Inr (replicate (unat (u32_from_le k)) x))"

definition run_length_lz4 :: lz4 where
  "run_length_lz4 = \<lparr>lz_compress = run_compress, lz_decompress = run_decompress\<rparr>"

lemma run_decompress_compress: "run_decompress (run_compress x) n = Inr x"
proof (cases x)
  case (Cons a xs)
  show ?thesis
  proof (cases "list_all (\<lambda>y. y = a) xs \<and> Suc (length xs) < 2 ^ 32")
    case True
    then have "unat (of_nat (Suc (length xs)) :: u32) = Suc (length xs)"
      by (intro unat_of_nat_u32) simp
    moreover have "replicate (length xs) a = xs"
      using True by (intro replicate_length_same) (auto simp: list_all_iff)
    ultimately show ?thesis
      using True Cons by (simp del: of_nat_Suc)
  next
    case False
    then show ?thesis
      by (auto simp: Cons)
  qed
qed simp

lemma run_length_lossless: "lz4_lossless run_length_lz4"
  by (simp add: lz4_lossless_def run_length_lz4_def run_decompress_compress)

end
