(* ===== verification/Account_Update.thy ===== *)
theory Account_Update
  imports Wire_Common Lz4_Param
begin

text \<open>
  Account updates of \<open>src/types.rs\<close>: the payload newtype, the update struct, the LZ4 probe, the
  encoder, the header parser and both decoders.

  \<open>lz4_flex\<close> is a third-party crate: its block compressor and decompressor are the parameter \<open>lz\<close>
  (\<open>Lz4_Param\<close>), and what the code relies on is \<open>lz4_lossless\<close>.
\<close>

section \<open>Data\<close>

datatype account_payload = AccountPayload (ap_bytes: bytes)

definition account_payload_new :: "bytes \<Rightarrow> account_payload qresult" where
  "account_payload_new payload =
     (let len = length payload in
      if len > MAX_ACCOUNT_PAYLOAD_BYTES then Err (PayloadTooLarge len MAX_ACCOUNT_PAYLOAD_BYTES)
      else Ok (AccountPayload payload))"

definition account_payload_from_bytes :: "bytes \<Rightarrow> account_payload qresult" where
  "account_payload_from_bytes payload = account_payload_new payload"

definition account_payload_from_slice :: "bytes \<Rightarrow> account_payload qresult" where
  "account_payload_from_slice payload = account_payload_new payload"

definition account_payload_try_from :: "bytes \<Rightarrow> account_payload qresult" where
  "account_payload_try_from payload = account_payload_new payload"

definition account_payload_as_slice :: "account_payload \<Rightarrow> bytes" where
  "account_payload_as_slice p = ap_bytes p"

definition account_payload_is_empty :: "account_payload \<Rightarrow> bool" where
  "account_payload_is_empty p \<longleftrightarrow> ap_bytes p = []"

definition account_payload_into_bytes :: "account_payload \<Rightarrow> bytes" where
  "account_payload_into_bytes p = ap_bytes p"

definition account_payload_len :: "account_payload \<Rightarrow> nat" where
  "account_payload_len p = length (ap_bytes p)"

record account_update =
  au_account_pubkey :: pubkey
  au_account_owner :: pubkey
  au_lamports :: u64
  au_executable :: bool
  au_rent_epoch :: u64
  au_slot :: u64
  au_write_version :: u64
  au_payload :: account_payload

definition account_update_new ::
    "pubkey \<Rightarrow> pubkey \<Rightarrow> u64 \<Rightarrow> bool \<Rightarrow> u64 \<Rightarrow> bytes \<Rightarrow> account_update qresult" where
  "account_update_new account_pubkey account_owner lamports executable rent_epoch payload =
     bindR (account_payload_new payload)
       (\<lambda>payload. Ok \<lparr>au_account_pubkey = account_pubkey, au_account_owner = account_owner,
          au_lamports = lamports, au_executable = executable, au_rent_epoch = rent_epoch,
          au_slot = 0, au_write_version = 0, au_payload = payload\<rparr>)"

definition with_slot_write_version :: "account_update \<Rightarrow> u64 \<Rightarrow> u64 \<Rightarrow> account_update" where
  "with_slot_write_version u slot write_version =
     u\<lparr>au_slot := slot, au_write_version := write_version\<rparr>"

text \<open>What the Rust types guarantee: 32-byte keys and a payload that went through the constructor.\<close>

definition wf_account_update :: "account_update \<Rightarrow> bool" where
  "wf_account_update u \<longleftrightarrow> wf_pubkey (au_account_pubkey u) \<and> wf_pubkey (au_account_owner u) \<and>
     length (ap_bytes (au_payload u)) \<le> MAX_ACCOUNT_PAYLOAD_BYTES"


section \<open>Encoding\<close>

definition should_attempt_lz4 :: "lz4 \<Rightarrow> bytes \<Rightarrow> bool" where
  "should_attempt_lz4 lz payload =
     (if length payload < ACCOUNT_UPDATE_COMPRESSION_THRESHOLD_BYTES then False
      else if ACCOUNT_UPDATE_COMPRESSION_MIN_GAIN_BPS = 0 then True
      else
        let sample_len = min (length payload) ACCOUNT_UPDATE_COMPRESSION_SAMPLE_BYTES;
            sample = take sample_len payload;
            compressed_sample = lz_compress lz sample
        in if length compressed_sample \<ge> sample_len then False
           else
             let gain_bps = ((sample_len - length compressed_sample) * 10000) div sample_len
             in gain_bps \<ge> ACCOUNT_UPDATE_COMPRESSION_MIN_GAIN_BPS)"

text \<open>The choice of flags and wire payload in \<open>encode_parts_at\<close>.\<close>

definition wire_payload_of :: "lz4 \<Rightarrow> bytes \<Rightarrow> u8 \<times> bytes" where
  "wire_payload_of lz raw_payload =
     (if should_attempt_lz4 lz raw_payload then
        let compressed = lz_compress lz raw_payload in
        if length compressed < length raw_payload then (0 OR ACCOUNT_UPDATE_FLAG_LZ4, compressed)
        else (0, raw_payload)
      else (0, raw_payload))"

definition account_header :: "account_update \<Rightarrow> u64 \<Rightarrow> u8 \<Rightarrow> u32 \<Rightarrow> u32 \<Rightarrow> bytes" where
  "account_header u created flags raw_len wire_len =
     [WIRE_VERSION] @ [UPDATE_TAG] @ u64_to_le created @ au_account_pubkey u @ au_account_owner u @
     u64_to_le (au_lamports u) @ [u8_of_bool (au_executable u)] @ u64_to_le (au_rent_epoch u) @
     u64_to_le (au_slot u) @ u64_to_le (au_write_version u) @ [flags] @
     u32_to_le raw_len @ u32_to_le wire_len"

definition account_encode_parts_at :: "lz4 \<Rightarrow> account_update \<Rightarrow> u64 \<Rightarrow> (bytes \<times> bytes) qresult" where
  "account_encode_parts_at lz u created =
     (let raw_payload = ap_bytes (au_payload u);
          raw_payload_len = account_payload_len (au_payload u)
      in
      if raw_payload_len > MAX_ACCOUNT_PAYLOAD_BYTES then
        Err (PayloadTooLarge raw_payload_len MAX_ACCOUNT_PAYLOAD_BYTES)
      else
        bindR (ok_or (PayloadTooLarge raw_payload_len MAX_ACCOUNT_PAYLOAD_BYTES)
                 (u32_try_from raw_payload_len))
          (\<lambda>raw_len. case wire_payload_of lz raw_payload of (flags, wire_payload) \<Rightarrow>
             bindR (ok_or (PayloadTooLarge (length wire_payload) MAX_ACCOUNT_PAYLOAD_BYTES)
                      (u32_try_from (length wire_payload)))
               (\<lambda>wire_len. Ok (account_header u created flags raw_len wire_len, wire_payload))))"

definition account_encode :: "lz4 \<Rightarrow> account_update \<Rightarrow> u64 \<Rightarrow> bytes qresult" where
  "account_encode lz u now =
     bindR (account_encode_parts_at lz u now) (\<lambda>(header, payload). Ok (header @ payload))"


section \<open>Decoding\<close>

record decoded_account_update =
  da_sender_created_at_unix_nanos :: u64
  da_account_pubkey :: bytes
  da_account_owner :: bytes
  da_lamports :: u64
  da_executable :: bool
  da_rent_epoch :: u64
  da_slot :: u64
  da_write_version :: u64
  da_compressed :: bool
  da_raw_payload_len :: nat
  da_payload_offset :: nat
  da_wire_payload_len :: nat

definition account_parse :: "bytes \<Rightarrow> decoded_account_update qresult" where
  "account_parse bs =
     (if length bs < ACCOUNT_UPDATE_FIXED_BYTES then
        Err (MalformedPayload ''account update frame shorter than fixed header'')
      else
      bindR (or_panic (index_get bs 0)) (\<lambda>version.
      bindR (or_panic (index_get bs 1)) (\<lambda>tag.
      bindR (ensure_wire version tag UPDATE_TAG) (\<lambda>_.
      bindR (take_u64_le bs 2) (\<lambda>(created, cursor).
      bindR (take_array_32 bs cursor) (\<lambda>(account_pubkey, cursor).
      bindR (take_array_32 bs cursor) (\<lambda>(account_owner, cursor).
      bindR (take_u64_le bs cursor) (\<lambda>(lamports, cursor).
      bindR (take_u8 bs cursor) (\<lambda>(executable_byte, cursor).
      bindR (flag_byte ''account update executable flag must be 0 or 1'' executable_byte)
        (\<lambda>executable.
      bindR (take_u64_le bs cursor) (\<lambda>(rent_epoch, cursor).
      bindR (take_u64_le bs cursor) (\<lambda>(slot, cursor).
      bindR (take_u64_le bs cursor) (\<lambda>(write_version, cursor).
      bindR (take_u8 bs cursor) (\<lambda>(flags, cursor).
      if flags AND NOT ACCOUNT_UPDATE_FLAG_LZ4 \<noteq> 0 then
        Err (MalformedPayload ''account update has unsupported compression flags'')
      else
      bindR (take_u32_le bs cursor) (\<lambda>(raw_len, cursor).
      let raw_payload_len = unat raw_len in
      if raw_payload_len > MAX_ACCOUNT_PAYLOAD_BYTES then
        Err (PayloadTooLarge raw_payload_len MAX_ACCOUNT_PAYLOAD_BYTES)
      else
      bindR (take_u32_le bs cursor) (\<lambda>(wire_len, cursor).
      let wire_payload_len = unat wire_len in
      if length bs \<noteq> cursor + wire_payload_len then
        Err (MalformedPayload ''account update payload size mismatch'')
      else
        Ok \<lparr>da_sender_created_at_unix_nanos = created, da_account_pubkey = account_pubkey,
            da_account_owner = account_owner, da_lamports = lamports, da_executable = executable,
            da_rent_epoch = rent_epoch, da_slot = slot, da_write_version = write_version,
            da_compressed = (flags AND ACCOUNT_UPDATE_FLAG_LZ4 \<noteq> 0),
            da_raw_payload_len = raw_payload_len, da_payload_offset = cursor,
            da_wire_payload_len = wire_payload_len\<rparr>))))))))))))))))"

definition account_from_decoded ::
    "decoded_account_update \<Rightarrow> bytes \<Rightarrow> (account_update \<times> wire_meta) qresult" where
  "account_from_decoded d payload =
     bindR (account_payload_from_bytes payload)
       (\<lambda>payload. Ok
          (\<lparr>au_account_pubkey = da_account_pubkey d, au_account_owner = da_account_owner d,
            au_lamports = da_lamports d, au_executable = da_executable d,
            au_rent_epoch = da_rent_epoch d, au_slot = da_slot d,
            au_write_version = da_write_version d, au_payload = payload\<rparr>,
           \<lparr>sender_created_at_unix_nanos = da_sender_created_at_unix_nanos d\<rparr>))"

text \<open>The block that computes \<open>payload\<close> in both decoders.\<close>

definition account_raw_payload :: "lz4 \<Rightarrow> decoded_account_update \<Rightarrow> bytes \<Rightarrow> bytes qresult" where
  "account_raw_payload lz d wire_payload =
     (if da_compressed d then
        case lz_decompress lz wire_payload (da_raw_payload_len d) of
          Inl e \<Rightarrow> Err (DecodeError (''account update decompress: '' @ e))
        | Inr decompressed \<Rightarrow>
            if length decompressed \<noteq> da_raw_payload_len d then
              Err (MalformedPayload ''account update decompressed payload size mismatch'')
            else Ok decompressed
      else if da_wire_payload_len d \<noteq> da_raw_payload_len d then
        Err (MalformedPayload ''account update uncompressed payload size mismatch'')
      else Ok wire_payload)"

text \<open>
  \<open>decode_with_meta\<close> slices \<open>&bytes[a..b]\<close>, which panics when out of range, and copies;
  \<open>decode_owned_with_meta\<close> slices the owned \<open>Bytes\<close>, which panics in the same case, and shares.
\<close>

definition account_decode_with_meta :: "lz4 \<Rightarrow> bytes \<Rightarrow> (account_update \<times> wire_meta) qresult" where
  "account_decode_with_meta lz bs =
     bindR (account_parse bs) (\<lambda>d.
     bindR (or_panic (slice_get bs (da_payload_offset d)
                        (da_payload_offset d + da_wire_payload_len d))) (\<lambda>wire_payload.
     bindR (account_raw_payload lz d wire_payload) (\<lambda>payload. account_from_decoded d payload)))"

definition account_decode :: "lz4 \<Rightarrow> bytes \<Rightarrow> account_update qresult" where
  "account_decode lz bs = mapR (\<lambda>(update, _). update) (account_decode_with_meta lz bs)"

definition account_decode_owned_with_meta ::
    "lz4 \<Rightarrow> bytes \<Rightarrow> (account_update \<times> wire_meta) qresult" where
  "account_decode_owned_with_meta lz bs =
     bindR (account_parse bs) (\<lambda>d.
     bindR (or_panic (slice_get bs (da_payload_offset d)
                        (da_payload_offset d + da_wire_payload_len d))) (\<lambda>wire_payload.
     bindR (account_raw_payload lz d wire_payload) (\<lambda>payload. account_from_decoded d payload)))"

definition account_decode_owned :: "lz4 \<Rightarrow> bytes \<Rightarrow> account_update qresult" where
  "account_decode_owned lz bs = mapR (\<lambda>(update, _). update) (account_decode_owned_with_meta lz bs)"


section \<open>Parsing inverts encoding\<close>

lemma length_account_header [layout_simps]:
  "wf_pubkey (au_account_pubkey u) \<Longrightarrow> wf_pubkey (au_account_owner u) \<Longrightarrow>
     length (account_header u t flags rl wl) = ACCOUNT_UPDATE_FIXED_BYTES"
  by (simp add: account_header_def wf_pubkey_def ACCOUNT_UPDATE_FIXED_BYTES_def)

lemma account_parse_header:
  assumes keys: "wf_pubkey (au_account_pubkey u)" "wf_pubkey (au_account_owner u)"
    and flags: "flags AND NOT ACCOUNT_UPDATE_FLAG_LZ4 = 0"
    and raw: "unat rl \<le> MAX_ACCOUNT_PAYLOAD_BYTES" and wire: "unat wl = length payload"
  shows "account_parse (account_header u t flags rl wl @ payload) =
    Ok \<lparr>da_sender_created_at_unix_nanos = t, da_account_pubkey = au_account_pubkey u,
        da_account_owner = au_account_owner u, da_lamports = au_lamports u,
        da_executable = au_executable u, da_rent_epoch = au_rent_epoch u, da_slot = au_slot u,
        da_write_version = au_write_version u,
        da_compressed = (flags AND ACCOUNT_UPDATE_FLAG_LZ4 \<noteq> 0),
        da_raw_payload_len = unat rl, da_payload_offset = ACCOUNT_UPDATE_FIXED_BYTES,
        da_wire_payload_len = length payload\<rparr>"
proof -
  define bs where "bs = account_header u t flags rl wl @ payload"
  have len: "length bs = ACCOUNT_UPDATE_FIXED_BYTES + length payload"
    by (simp add: bs_def length_account_header keys)
  have small: "length bs < 2 ^ 64"
    using unat_u32_less [of wl] by (simp add: len wire ACCOUNT_UPDATE_FIXED_BYTES_def)
  have k: "length (au_account_pubkey u) = 32" "length (au_account_owner u) = 32"
    using keys by (simp_all add: wf_pubkey_def)
  have ix: "index_get bs 0 = Some WIRE_VERSION" "index_get bs (Suc 0) = Some UPDATE_TAG"
    by (simp_all add: bs_def account_header_def)
  have "drop 2 bs = u64_to_le t @ au_account_pubkey u @ au_account_owner u @
      u64_to_le (au_lamports u) @ [u8_of_bool (au_executable u)] @ u64_to_le (au_rent_epoch u) @
      u64_to_le (au_slot u) @ u64_to_le (au_write_version u) @ [flags] @
      u32_to_le rl @ u32_to_le wl @ payload"
    by (simp add: bs_def account_header_def)
  note s1 = rd_u64.read_step [OF TrueI this small]
  note s2 = rd_a32.read_step [OF k(1) s1 [THEN conjunct2] small]
  note s3 = rd_a32.read_step [OF k(2) s2 [THEN conjunct2] small]
  note s4 = rd_u64.read_step [OF TrueI s3 [THEN conjunct2] small]
  note s5 = rd_u8.read_step [OF TrueI s4 [THEN conjunct2] small]
  note s6 = rd_u64.read_step [OF TrueI s5 [THEN conjunct2] small]
  note s7 = rd_u64.read_step [OF TrueI s6 [THEN conjunct2] small]
  note s8 = rd_u64.read_step [OF TrueI s7 [THEN conjunct2] small]
  note s9 = rd_u8.read_step [OF TrueI s8 [THEN conjunct2] small]
  note s10 = rd_u32.read_step [OF TrueI s9 [THEN conjunct2] small]
  note s11 = rd_u32.read_step [OF TrueI s10 [THEN conjunct2] small]
  note reads = s1 s2 s3 s4 s5 s6 s7 s8 s9 s10 s11
  have "\<not> length bs < ACCOUNT_UPDATE_FIXED_BYTES"
    by (simp add: len)
  then show ?thesis
    unfolding bs_def [symmetric] account_parse_def
    using reads [THEN conjunct1] flags raw wire
    by (simp add: ix len ACCOUNT_UPDATE_FIXED_BYTES_def)
qed

text \<open>Everything a successful parse tells about the bytes.\<close>

lemma account_parse_Ok:
  assumes "account_parse bs = Ok d"
  shows "length (da_account_pubkey d) = 32" and "length (da_account_owner d) = 32"
    and "da_raw_payload_len d \<le> MAX_ACCOUNT_PAYLOAD_BYTES"
    and "da_payload_offset d = ACCOUNT_UPDATE_FIXED_BYTES"
    and "length bs = ACCOUNT_UPDATE_FIXED_BYTES + da_wire_payload_len d"
    and "\<exists>rest. bs = WIRE_VERSION # UPDATE_TAG # rest"
proof -
  show "length (da_account_pubkey d) = 32" and "length (da_account_owner d) = 32"
    and "da_raw_payload_len d \<le> MAX_ACCOUNT_PAYLOAD_BYTES"
    and "da_payload_offset d = ACCOUNT_UPDATE_FIXED_BYTES"
    and "length bs = ACCOUNT_UPDATE_FIXED_BYTES + da_wire_payload_len d"
    using assms unfolding account_parse_def
    by (auto simp: bindR_eq_Ok ACCOUNT_UPDATE_FIXED_BYTES_def Let_def split: if_splits
        dest!: readers_cursor)
  have "index_get bs 0 = Some WIRE_VERSION" and "index_get bs 1 = Some UPDATE_TAG"
    using assms unfolding account_parse_def by (auto simp: bindR_eq_Ok split: if_splits)
  then show "\<exists>rest. bs = WIRE_VERSION # UPDATE_TAG # rest"
    by (cases bs; cases "tl bs") (auto simp: index_get_def)
qed

lemma account_parse_no_panic: "account_parse bs \<noteq> Panic"
  unfolding account_parse_def
  by (auto simp: bindR_eq_Panic index_get_def ACCOUNT_UPDATE_FIXED_BYTES_def Let_def split: if_splits)


section \<open>The codec contract\<close>

lemma wire_payload_of_cases:
  assumes "wire_payload_of lz raw = (flags, wire)"
  obtains (plain) "flags = 0" "wire = raw"
  | (lz4) "flags = ACCOUNT_UPDATE_FLAG_LZ4" "wire = lz_compress lz raw" "length wire < length raw"
      "should_attempt_lz4 lz raw"
  using assms by (auto simp: wire_payload_of_def Let_def split: if_splits)

lemma account_encode_Ok:
  assumes "account_encode_parts_at lz u t = Ok (h, p)"
  obtains flags where "wire_payload_of lz (ap_bytes (au_payload u)) = (flags, p)"
    and "h = account_header u t flags (of_nat (length (ap_bytes (au_payload u)))) (of_nat (length p))"
    and "length (ap_bytes (au_payload u)) \<le> MAX_ACCOUNT_PAYLOAD_BYTES"
    and "length p \<le> length (ap_bytes (au_payload u))"
proof -
  obtain flags wire where w: "wire_payload_of lz (ap_bytes (au_payload u)) = (flags, wire)"
    by force
  moreover from w have "length wire \<le> length (ap_bytes (au_payload u))"
    by (cases rule: wire_payload_of_cases) auto
  ultimately show thesis
    using assms that [of flags]
    by (auto simp: account_encode_parts_at_def bindR_eq_Ok u32_try_from_def account_payload_len_def
        Let_def split: if_splits)
qed

lemma account_encode_total:
  assumes "length (ap_bytes (au_payload u)) \<le> MAX_ACCOUNT_PAYLOAD_BYTES"
  shows "\<exists>h p. account_encode_parts_at lz u t = Ok (h, p)"
proof -
  obtain flags wire where w: "wire_payload_of lz (ap_bytes (au_payload u)) = (flags, wire)"
    by force
  then have "length wire \<le> length (ap_bytes (au_payload u))"
    by (cases rule: wire_payload_of_cases) auto
  with w assms show ?thesis
    by (simp add: account_encode_parts_at_def account_payload_len_def u32_try_from_def
        MAX_ACCOUNT_PAYLOAD_BYTES_def)
qed

lemma account_roundtrip:
  assumes lz: "lz4_lossless lz" and wf: "wf_account_update u"
    and enc: "account_encode_parts_at lz u t = Ok (h, p)"
  shows "account_decode_with_meta lz (h @ p) = Ok (u, \<lparr>sender_created_at_unix_nanos = t\<rparr>)"
proof -
  let ?raw = "ap_bytes (au_payload u)"
  obtain flags where w: "wire_payload_of lz ?raw = (flags, p)"
    and h: "h = account_header u t flags (of_nat (length ?raw)) (of_nat (length p))"
    and le: "length ?raw \<le> MAX_ACCOUNT_PAYLOAD_BYTES" "length p \<le> length ?raw"
    using enc by (rule account_encode_Ok)
  have un: "unat (of_nat (length ?raw) :: u32) = length ?raw"
    "unat (of_nat (length p) :: u32) = length p"
    using le by (auto simp: MAX_ACCOUNT_PAYLOAD_BYTES_def)
  have fl: "flags AND NOT ACCOUNT_UPDATE_FLAG_LZ4 = 0"
    using w by (cases rule: wire_payload_of_cases) (simp_all add: ACCOUNT_UPDATE_FLAG_LZ4_def)
  have keys: "wf_pubkey (au_account_pubkey u)" "wf_pubkey (au_account_owner u)"
    using wf by (simp_all add: wf_account_update_def)
  note parse = account_parse_header [OF keys fl, of "of_nat (length ?raw)" "of_nat (length p)" p t,
      folded h, unfolded un, OF le(1) refl]
  have slice: "slice_get (h @ p) ACCOUNT_UPDATE_FIXED_BYTES (ACCOUNT_UPDATE_FIXED_BYTES + length p) =
      Some p"
    using slice_get_append [of h p "[]"] by (simp add: h length_account_header keys)
  let ?d = "\<lparr>da_sender_created_at_unix_nanos = t, da_account_pubkey = au_account_pubkey u,
      da_account_owner = au_account_owner u, da_lamports = au_lamports u,
      da_executable = au_executable u, da_rent_epoch = au_rent_epoch u, da_slot = au_slot u,
      da_write_version = au_write_version u,
      da_compressed = (flags AND ACCOUNT_UPDATE_FLAG_LZ4 \<noteq> 0),
      da_raw_payload_len = length ?raw, da_payload_offset = ACCOUNT_UPDATE_FIXED_BYTES,
      da_wire_payload_len = length p\<rparr>"
  from w have raw: "account_raw_payload lz ?d p = Ok ?raw"
  proof (cases rule: wire_payload_of_cases)
    case plain
    then show ?thesis by (simp add: account_raw_payload_def)
  next
    case lz4
    then have "lz_decompress lz p (length ?raw) = Inr ?raw"
      using lz by (simp add: lz4_lossless_def)
    with lz4(1) show ?thesis
      by (simp add: account_raw_payload_def ACCOUNT_UPDATE_FLAG_LZ4_def)
  qed
  have "account_from_decoded ?d ?raw = Ok (u, \<lparr>sender_created_at_unix_nanos = t\<rparr>)"
    using le(1) by (cases u) (simp add: account_from_decoded_def account_payload_from_bytes_def
        account_payload_new_def Let_def)
  with raw show ?thesis
    by (simp add: account_decode_with_meta_def parse slice)
qed

lemma account_raw_payload_length:
  "account_raw_payload lz d w = Ok r \<Longrightarrow> length w = da_wire_payload_len d \<Longrightarrow>
     length r = da_raw_payload_len d"
  by (auto simp: account_raw_payload_def split: if_splits sum.splits)

lemma account_raw_payload_no_panic [simp]: "account_raw_payload lz d w \<noteq> Panic"
  by (auto simp: account_raw_payload_def split: sum.splits)

lemma account_decode_Ok:
  assumes "account_decode_with_meta lz bs = Ok (u, m)"
  obtains d payload where "account_parse bs = Ok d" and "account_from_decoded d payload = Ok (u, m)"
    and "length payload = da_raw_payload_len d"
  using assms
  by (auto simp: account_decode_with_meta_def bindR_eq_Ok dest!: slice_get_SomeD
      dest: account_raw_payload_length)

lemma account_decode_wf: "account_decode_with_meta lz bs = Ok (u, m) \<Longrightarrow> wf_account_update u"
  by (erule account_decode_Ok)
     (auto simp: account_from_decoded_def account_payload_from_bytes_def account_payload_new_def
       wf_account_update_def wf_pubkey_def bindR_eq_Ok account_parse_Ok Let_def split: if_splits)

text \<open>A payload that was accepted, by any of the constructors, gives its bytes back and is accepted again.\<close>

lemma account_payload_contents:
  assumes "account_payload_new payload = Ok p"
  shows "account_payload_as_slice p = payload" and "account_payload_len p = length payload"
    and "account_payload_is_empty p \<longleftrightarrow> account_payload_len p = 0"
    and "account_payload_from_slice (account_payload_as_slice p) = Ok p"
    and "account_payload_try_from (account_payload_into_bytes p) = Ok p"
  using assms
  by (auto simp: account_payload_new_def account_payload_as_slice_def account_payload_len_def account_payload_is_empty_def
      account_payload_from_slice_def account_payload_try_from_def account_payload_into_bytes_def Let_def split: if_splits)

lemma account_payload_new_no_panic [simp]: "account_payload_new p \<noteq> Panic"
  by (simp add: account_payload_new_def Let_def)

lemma account_from_decoded_no_panic [simp]: "account_from_decoded d p \<noteq> Panic"
  by (simp add: account_from_decoded_def account_payload_from_bytes_def bindR_eq_Panic)

lemma account_decode_no_panic: "account_decode_with_meta lz bs \<noteq> Panic"
proof (cases "account_parse bs")
  case (Ok d)
  then have "slice_get bs (da_payload_offset d) (da_payload_offset d + da_wire_payload_len d) \<noteq> None"
    using account_parse_Ok(4,5) [OF Ok] by (simp add: slice_get_def)
  then show ?thesis
    by (auto simp: account_decode_with_meta_def Ok bindR_eq_Panic)
qed (use account_parse_no_panic in \<open>auto simp: account_decode_with_meta_def\<close>)

lemma account_decode_owned_eq:
  "account_decode_owned_with_meta lz bs = account_decode_with_meta lz bs"
  by (simp add: account_decode_owned_with_meta_def account_decode_with_meta_def)

interpretation account_codec: update_codec "account_encode_parts_at lz" "account_decode_with_meta lz"
  "account_decode_owned_with_meta lz" wf_account_update "lz4_lossless lz" UPDATE_TAG
  "ACCOUNT_UPDATE_FIXED_BYTES + MAX_ACCOUNT_PAYLOAD_BYTES" for lz
proof
  fix u t h p
  assume "account_encode_parts_at lz u t = Ok (h, p)"
  then show "\<exists>rest. h = WIRE_VERSION # UPDATE_TAG # rest"
    by (rule account_encode_Ok) (simp add: account_header_def)
next
  fix u t h p
  assume wf: "wf_account_update u" and "account_encode_parts_at lz u t = Ok (h, p)"
  from this(2) show "length h + length p \<le> ACCOUNT_UPDATE_FIXED_BYTES + MAX_ACCOUNT_PAYLOAD_BYTES"
    by (rule account_encode_Ok)
       (use wf in \<open>simp add: length_account_header wf_account_update_def\<close>)
next
  fix bs u m
  assume "account_decode_with_meta lz bs = Ok (u, m)"
  then show "\<exists>rest. bs = WIRE_VERSION # UPDATE_TAG # rest"
    by (rule account_decode_Ok) (rule account_parse_Ok(6))
qed (auto simp: account_roundtrip account_decode_no_panic account_decode_owned_eq
      wf_account_update_def intro: account_encode_total
      dest: account_decode_wf [unfolded wf_account_update_def])

end
