(* ===== verification/Stream_Updates.thy ===== *)
theory Stream_Updates
  imports Wire_Common
begin

text \<open>
  Transaction updates and slot updates of \<open>src/types.rs\<close>: payload newtype, structs, encoders,
  parsers and decoders. Neither compresses, so both codecs are canonical: a frame that decodes is
  the frame the encoder emits for the decoded value.
\<close>

section \<open>Transaction updates\<close>

datatype transaction_payload = TransactionPayload (tp_bytes: bytes)

definition transaction_payload_new :: "bytes \<Rightarrow> transaction_payload qresult" where
  "transaction_payload_new payload =
     (let len = length payload in
      if len > MAX_TRANSACTION_PAYLOAD_BYTES then
        Err (PayloadTooLarge len MAX_TRANSACTION_PAYLOAD_BYTES)
      else Ok (TransactionPayload payload))"

definition transaction_payload_from_bytes :: "bytes \<Rightarrow> transaction_payload qresult" where
  "transaction_payload_from_bytes payload = transaction_payload_new payload"

definition transaction_payload_from_slice :: "bytes \<Rightarrow> transaction_payload qresult" where
  "transaction_payload_from_slice payload = transaction_payload_new payload"

definition transaction_payload_try_from :: "bytes \<Rightarrow> transaction_payload qresult" where
  "transaction_payload_try_from payload = transaction_payload_new payload"

definition transaction_payload_as_slice :: "transaction_payload \<Rightarrow> bytes" where
  "transaction_payload_as_slice p = tp_bytes p"

definition transaction_payload_is_empty :: "transaction_payload \<Rightarrow> bool" where
  "transaction_payload_is_empty p \<longleftrightarrow> tp_bytes p = []"

definition transaction_payload_len :: "transaction_payload \<Rightarrow> nat" where
  "transaction_payload_len p = length (tp_bytes p)"

record transaction_update =
  tu_slot :: u64
  tu_index :: u32
  tu_signature :: bytes
  tu_is_vote :: bool
  tu_payload :: transaction_payload

definition transaction_update_new ::
    "u64 \<Rightarrow> u32 \<Rightarrow> bytes \<Rightarrow> bool \<Rightarrow> bytes \<Rightarrow> transaction_update qresult" where
  "transaction_update_new slot index signature is_vote payload =
     bindR (transaction_payload_new payload)
       (\<lambda>payload. Ok \<lparr>tu_slot = slot, tu_index = index, tu_signature = signature,
          tu_is_vote = is_vote, tu_payload = payload\<rparr>)"

definition wf_transaction_update :: "transaction_update \<Rightarrow> bool" where
  "wf_transaction_update u \<longleftrightarrow> length (tu_signature u) = 64 \<and>
     length (tp_bytes (tu_payload u)) \<le> MAX_TRANSACTION_PAYLOAD_BYTES"

definition transaction_header :: "transaction_update \<Rightarrow> u64 \<Rightarrow> u32 \<Rightarrow> bytes" where
  "transaction_header u created payload_len =
     [WIRE_VERSION] @ [TRANSACTION_UPDATE_TAG] @ u64_to_le created @ u64_to_le (tu_slot u) @
     u32_to_le (tu_index u) @ [u8_of_bool (tu_is_vote u)] @ tu_signature u @ u32_to_le payload_len"

definition transaction_encode_parts_at :: "transaction_update \<Rightarrow> u64 \<Rightarrow> (bytes \<times> bytes) qresult" where
  "transaction_encode_parts_at u created =
     (let payload = tp_bytes (tu_payload u);
          len = transaction_payload_len (tu_payload u)
      in
      if len > MAX_TRANSACTION_PAYLOAD_BYTES then
        Err (PayloadTooLarge len MAX_TRANSACTION_PAYLOAD_BYTES)
      else
        bindR (ok_or (PayloadTooLarge (length payload) MAX_TRANSACTION_PAYLOAD_BYTES)
                 (u32_try_from (length payload)))
          (\<lambda>payload_len. Ok (transaction_header u created payload_len, payload)))"

definition transaction_encode :: "transaction_update \<Rightarrow> u64 \<Rightarrow> bytes qresult" where
  "transaction_encode u now =
     bindR (transaction_encode_parts_at u now) (\<lambda>(header, payload). Ok (header @ payload))"

record decoded_transaction_update =
  dt_sender_created_at_unix_nanos :: u64
  dt_slot :: u64
  dt_index :: u32
  dt_is_vote :: bool
  dt_signature :: bytes
  dt_payload_offset :: nat
  dt_payload_len :: nat

definition transaction_parse :: "bytes \<Rightarrow> decoded_transaction_update qresult" where
  "transaction_parse bs =
     (if length bs < TRANSACTION_UPDATE_FIXED_BYTES then
        Err (MalformedPayload ''transaction update frame shorter than fixed header'')
      else
      bindR (or_panic (index_get bs 0)) (\<lambda>version.
      bindR (or_panic (index_get bs 1)) (\<lambda>tag.
      bindR (ensure_wire version tag TRANSACTION_UPDATE_TAG) (\<lambda>_.
      bindR (take_u64_le bs 2) (\<lambda>(created, cursor).
      bindR (take_u64_le bs cursor) (\<lambda>(slot, cursor).
      bindR (take_u32_le bs cursor) (\<lambda>(index, cursor).
      bindR (take_u8 bs cursor) (\<lambda>(vote_byte, cursor).
      bindR (flag_byte ''transaction update vote flag must be 0 or 1'' vote_byte) (\<lambda>is_vote.
      bindR (take_array_64 bs cursor) (\<lambda>(signature, cursor).
      bindR (take_u32_le bs cursor) (\<lambda>(len, cursor).
      let payload_len = unat len in
      if payload_len > MAX_TRANSACTION_PAYLOAD_BYTES then
        Err (PayloadTooLarge payload_len MAX_TRANSACTION_PAYLOAD_BYTES)
      else if length bs \<noteq> cursor + payload_len then
        Err (MalformedPayload ''transaction update payload size mismatch'')
      else
        Ok \<lparr>dt_sender_created_at_unix_nanos = created, dt_slot = slot, dt_index = index,
            dt_is_vote = is_vote, dt_signature = signature, dt_payload_offset = cursor,
            dt_payload_len = payload_len\<rparr>)))))))))))"

definition transaction_from_decoded ::
    "decoded_transaction_update \<Rightarrow> bytes \<Rightarrow> (transaction_update \<times> wire_meta) qresult" where
  "transaction_from_decoded d payload =
     bindR (transaction_payload_from_bytes payload)
       (\<lambda>payload. Ok
          (\<lparr>tu_slot = dt_slot d, tu_index = dt_index d, tu_signature = dt_signature d,
            tu_is_vote = dt_is_vote d, tu_payload = payload\<rparr>,
           \<lparr>sender_created_at_unix_nanos = dt_sender_created_at_unix_nanos d\<rparr>))"

definition transaction_decode_with_meta :: "bytes \<Rightarrow> (transaction_update \<times> wire_meta) qresult" where
  "transaction_decode_with_meta bs =
     bindR (transaction_parse bs) (\<lambda>d.
     bindR (or_panic (slice_get bs (dt_payload_offset d) (dt_payload_offset d + dt_payload_len d)))
       (\<lambda>payload. transaction_from_decoded d payload))"

definition transaction_decode :: "bytes \<Rightarrow> transaction_update qresult" where
  "transaction_decode bs = mapR (\<lambda>(update, _). update) (transaction_decode_with_meta bs)"

text \<open>The owned decoder: \<open>Bytes::slice\<close> shares the buffer and panics out of range.\<close>

definition transaction_decode_owned_with_meta ::
    "bytes \<Rightarrow> (transaction_update \<times> wire_meta) qresult" where
  "transaction_decode_owned_with_meta bs =
     bindR (transaction_parse bs) (\<lambda>d.
     bindR (or_panic (slice_get bs (dt_payload_offset d) (dt_payload_offset d + dt_payload_len d)))
       (\<lambda>payload. transaction_from_decoded d payload))"

definition transaction_decode_owned :: "bytes \<Rightarrow> transaction_update qresult" where
  "transaction_decode_owned bs = mapR (\<lambda>(update, _). update) (transaction_decode_owned_with_meta bs)"


section \<open>Slot updates\<close>

record slot_update =
  su_slot :: u64

definition slot_update_new :: "u64 \<Rightarrow> slot_update" where
  "slot_update_new slot = \<lparr>su_slot = slot\<rparr>"

definition slot_encode_parts_at :: "slot_update \<Rightarrow> u64 \<Rightarrow> (bytes \<times> bytes) qresult" where
  "slot_encode_parts_at u created =
     Ok ([WIRE_VERSION] @ [SLOT_UPDATE_TAG] @ u64_to_le created @ u64_to_le (su_slot u), [])"

definition slot_encode :: "slot_update \<Rightarrow> u64 \<Rightarrow> bytes qresult" where
  "slot_encode u now =
     bindR (slot_encode_parts_at u now) (\<lambda>(header, payload). Ok (header @ payload))"

record decoded_slot_update =
  ds_sender_created_at_unix_nanos :: u64
  ds_slot :: u64

definition slot_parse :: "bytes \<Rightarrow> decoded_slot_update qresult" where
  "slot_parse bs =
     (if length bs < SLOT_UPDATE_FIXED_BYTES then
        Err (MalformedPayload ''slot update frame shorter than fixed header'')
      else
      bindR (or_panic (index_get bs 0)) (\<lambda>version.
      bindR (or_panic (index_get bs 1)) (\<lambda>tag.
      bindR (ensure_wire version tag SLOT_UPDATE_TAG) (\<lambda>_.
      bindR (take_u64_le bs 2) (\<lambda>(created, cursor).
      bindR (take_u64_le bs cursor) (\<lambda>(slot, cursor).
      if length bs \<noteq> cursor then
        Err (MalformedPayload ''slot update payload size mismatch'')
      else
        Ok \<lparr>ds_sender_created_at_unix_nanos = created, ds_slot = slot\<rparr>))))))"

definition slot_decode_with_meta :: "bytes \<Rightarrow> (slot_update \<times> wire_meta) qresult" where
  "slot_decode_with_meta bs =
     bindR (slot_parse bs) (\<lambda>d. Ok (\<lparr>su_slot = ds_slot d\<rparr>,
       \<lparr>sender_created_at_unix_nanos = ds_sender_created_at_unix_nanos d\<rparr>))"

definition slot_decode :: "bytes \<Rightarrow> slot_update qresult" where
  "slot_decode bs = mapR (\<lambda>(update, _). update) (slot_decode_with_meta bs)"

definition slot_decode_owned_with_meta :: "bytes \<Rightarrow> (slot_update \<times> wire_meta) qresult" where
  "slot_decode_owned_with_meta bs = slot_decode_with_meta bs"

definition slot_decode_owned :: "bytes \<Rightarrow> slot_update qresult" where
  "slot_decode_owned bs = mapR (\<lambda>(update, _). update) (slot_decode_owned_with_meta bs)"


section \<open>The transaction codec\<close>

lemma length_transaction_header [layout_simps]:
  "length (tu_signature u) = 64 \<Longrightarrow>
     length (transaction_header u t len) = TRANSACTION_UPDATE_FIXED_BYTES"
  by (simp add: transaction_header_def TRANSACTION_UPDATE_FIXED_BYTES_def)

lemma transaction_parse_header:
  assumes sig: "length (tu_signature u) = 64"
    and len: "unat pl = length payload" "length payload \<le> MAX_TRANSACTION_PAYLOAD_BYTES"
  shows "transaction_parse (transaction_header u t pl @ payload) =
    Ok \<lparr>dt_sender_created_at_unix_nanos = t, dt_slot = tu_slot u, dt_index = tu_index u,
        dt_is_vote = tu_is_vote u, dt_signature = tu_signature u,
        dt_payload_offset = TRANSACTION_UPDATE_FIXED_BYTES, dt_payload_len = length payload\<rparr>"
proof -
  define bs where "bs = transaction_header u t pl @ payload"
  have l: "length bs = TRANSACTION_UPDATE_FIXED_BYTES + length payload"
    by (simp add: bs_def length_transaction_header sig)
  have small: "length bs < 2 ^ 64"
    using len by (simp add: l TRANSACTION_UPDATE_FIXED_BYTES_def MAX_TRANSACTION_PAYLOAD_BYTES_def)
  have ix: "index_get bs 0 = Some WIRE_VERSION" "index_get bs (Suc 0) = Some TRANSACTION_UPDATE_TAG"
    by (simp_all add: bs_def transaction_header_def)
  have "drop 2 bs = u64_to_le t @ u64_to_le (tu_slot u) @ u32_to_le (tu_index u) @
      [u8_of_bool (tu_is_vote u)] @ tu_signature u @ u32_to_le pl @ payload"
    by (simp add: bs_def transaction_header_def)
  note s1 = rd_u64.read_step [OF TrueI this small]
  note s2 = rd_u64.read_step [OF TrueI s1 [THEN conjunct2] small]
  note s3 = rd_u32.read_step [OF TrueI s2 [THEN conjunct2] small]
  note s4 = rd_u8.read_step [OF TrueI s3 [THEN conjunct2] small]
  note s5 = rd_a64.read_step [OF sig s4 [THEN conjunct2] small]
  note s6 = rd_u32.read_step [OF TrueI s5 [THEN conjunct2] small]
  note reads = s1 s2 s3 s4 s5 s6
  have "\<not> length bs < TRANSACTION_UPDATE_FIXED_BYTES"
    by (simp add: l)
  then show ?thesis
    unfolding bs_def [symmetric] transaction_parse_def
    using reads [THEN conjunct1] len
    by (simp add: ix l TRANSACTION_UPDATE_FIXED_BYTES_def)
qed

lemma transaction_encode_eq:
  assumes "length (tp_bytes (tu_payload u)) \<le> MAX_TRANSACTION_PAYLOAD_BYTES"
  shows "transaction_encode_parts_at u t =
    Ok (transaction_header u t (of_nat (length (tp_bytes (tu_payload u)))), tp_bytes (tu_payload u))"
  using assms by (simp add: transaction_encode_parts_at_def transaction_payload_len_def
      u32_try_from_def MAX_TRANSACTION_PAYLOAD_BYTES_def Let_def)

lemma transaction_encode_Ok:
  "transaction_encode_parts_at u t = Ok (h, p) \<Longrightarrow>
     length p \<le> MAX_TRANSACTION_PAYLOAD_BYTES \<and> p = tp_bytes (tu_payload u) \<and>
     h = transaction_header u t (of_nat (length p))"
  by (auto simp: transaction_encode_parts_at_def transaction_payload_len_def bindR_eq_Ok
      u32_try_from_def Let_def split: if_splits)

lemma transaction_roundtrip:
  assumes wf: "wf_transaction_update u" and enc: "transaction_encode_parts_at u t = Ok (h, p)"
  shows "transaction_decode_with_meta (h @ p) = Ok (u, \<lparr>sender_created_at_unix_nanos = t\<rparr>)"
proof -
  have sig: "length (tu_signature u) = 64"
    using wf by (simp add: wf_transaction_update_def)
  have p: "length p \<le> MAX_TRANSACTION_PAYLOAD_BYTES" "p = tp_bytes (tu_payload u)"
    and h: "h = transaction_header u t (of_nat (length p))"
    using transaction_encode_Ok [OF enc] by auto
  have un: "unat (of_nat (length p) :: u32) = length p"
    using p(1) by (simp add: MAX_TRANSACTION_PAYLOAD_BYTES_def)
  note parse = transaction_parse_header [OF sig un p(1), of t, folded h]
  have slice: "slice_get (h @ p) TRANSACTION_UPDATE_FIXED_BYTES
      (TRANSACTION_UPDATE_FIXED_BYTES + length p) = Some p"
    using slice_get_append [of h p "[]"] by (simp add: h length_transaction_header sig)
  have "transaction_from_decoded
      \<lparr>dt_sender_created_at_unix_nanos = t, dt_slot = tu_slot u, dt_index = tu_index u,
        dt_is_vote = tu_is_vote u, dt_signature = tu_signature u,
        dt_payload_offset = TRANSACTION_UPDATE_FIXED_BYTES, dt_payload_len = length p\<rparr> p =
      Ok (u, \<lparr>sender_created_at_unix_nanos = t\<rparr>)"
    using p by (cases u) (simp add: transaction_from_decoded_def transaction_payload_from_bytes_def
        transaction_payload_new_def Let_def)
  then show ?thesis
    by (simp add: transaction_decode_with_meta_def parse slice)
qed

text \<open>A frame that parses is its header followed by the payload.\<close>

lemma index_get_01:
  assumes "index_get bs 0 = Some v" and "index_get bs 1 = Some t"
  shows "bs = v # t # drop 2 bs"
  using assms by (cases bs; cases "tl bs") (auto simp: index_get_def)

lemma transaction_parse_Ok:
  assumes "transaction_parse bs = Ok d"
  shows "length (dt_signature d) = 64"
    and "dt_payload_len d \<le> MAX_TRANSACTION_PAYLOAD_BYTES"
    and "dt_payload_offset d = TRANSACTION_UPDATE_FIXED_BYTES"
    and "length bs = TRANSACTION_UPDATE_FIXED_BYTES + dt_payload_len d"
    and "bs = [WIRE_VERSION] @ [TRANSACTION_UPDATE_TAG] @
      u64_to_le (dt_sender_created_at_unix_nanos d) @ u64_to_le (dt_slot d) @
      u32_to_le (dt_index d) @ [u8_of_bool (dt_is_vote d)] @ dt_signature d @
      u32_to_le (of_nat (dt_payload_len d)) @ drop TRANSACTION_UPDATE_FIXED_BYTES bs"
proof -
  show "length (dt_signature d) = 64"
    and "dt_payload_len d \<le> MAX_TRANSACTION_PAYLOAD_BYTES"
    and "dt_payload_offset d = TRANSACTION_UPDATE_FIXED_BYTES"
    and "length bs = TRANSACTION_UPDATE_FIXED_BYTES + dt_payload_len d"
    using assms unfolding transaction_parse_def
    by (auto simp: bindR_eq_Ok TRANSACTION_UPDATE_FIXED_BYTES_def Let_def split: if_splits
        dest!: readers_cursor)
  have "index_get bs 0 = Some WIRE_VERSION" and "index_get bs 1 = Some TRANSACTION_UPDATE_TAG"
    using assms unfolding transaction_parse_def by (auto simp: bindR_eq_Ok split: if_splits)
  then have bs: "bs = WIRE_VERSION # TRANSACTION_UPDATE_TAG # drop 2 bs"
    by (rule index_get_01)
  from assms obtain c1 c2 c3 b c4 c5 len c6 where
      r1: "take_u64_le bs 2 = Ok (dt_sender_created_at_unix_nanos d, c1)" and
      r2: "take_u64_le bs c1 = Ok (dt_slot d, c2)" and
      r3: "take_u32_le bs c2 = Ok (dt_index d, c3)" and
      r4: "take_u8 bs c3 = Ok (b, c4)" and b: "b = u8_of_bool (dt_is_vote d)" and
      r5: "take_array_64 bs c4 = Ok (dt_signature d, c5)" and
      r6: "take_u32_le bs c5 = Ok (len, c6)" and len: "unat len = dt_payload_len d"
    unfolding transaction_parse_def
    by (auto simp: bindR_eq_Ok flag_byte_Ok Let_def split: if_splits)
  have "c6 = TRANSACTION_UPDATE_FIXED_BYTES"
    using r1 r2 r3 r4 r5 r6
    by (auto dest!: readers_cursor simp: TRANSACTION_UPDATE_FIXED_BYTES_def)
  moreover have "len = of_nat (dt_payload_len d)"
    by (simp flip: len)
  moreover note rd_u64.read_splits(1) [OF r1] rd_u64.read_splits(1) [OF r2]
    rd_u32.read_splits(1) [OF r3] rd_u8.read_splits(1) [OF r4] rd_a64.read_splits(1) [OF r5]
    rd_u32.read_splits(1) [OF r6]
  ultimately show "bs = [WIRE_VERSION] @ [TRANSACTION_UPDATE_TAG] @
      u64_to_le (dt_sender_created_at_unix_nanos d) @ u64_to_le (dt_slot d) @
      u32_to_le (dt_index d) @ [u8_of_bool (dt_is_vote d)] @ dt_signature d @
      u32_to_le (of_nat (dt_payload_len d)) @ drop TRANSACTION_UPDATE_FIXED_BYTES bs"
    using bs b by simp
qed

lemma transaction_parse_no_panic: "transaction_parse bs \<noteq> Panic"
  unfolding transaction_parse_def
  by (auto simp: bindR_eq_Panic index_get_def TRANSACTION_UPDATE_FIXED_BYTES_def Let_def
      split: if_splits)

lemma transaction_payload_new_no_panic [simp]: "transaction_payload_new p \<noteq> Panic"
  by (simp add: transaction_payload_new_def Let_def)

lemma transaction_from_decoded_no_panic [simp]: "transaction_from_decoded d p \<noteq> Panic"
  by (simp add: transaction_from_decoded_def transaction_payload_from_bytes_def bindR_eq_Panic)

lemma transaction_decode_no_panic: "transaction_decode_with_meta bs \<noteq> Panic"
proof (cases "transaction_parse bs")
  case (Ok d)
  then have "slice_get bs (dt_payload_offset d) (dt_payload_offset d + dt_payload_len d) \<noteq> None"
    using transaction_parse_Ok(3,4) [OF Ok] by (simp add: slice_get_def)
  then show ?thesis
    by (auto simp: transaction_decode_with_meta_def Ok bindR_eq_Panic)
qed (use transaction_parse_no_panic in \<open>auto simp: transaction_decode_with_meta_def\<close>)

lemma transaction_decode_Ok:
  assumes "transaction_decode_with_meta bs = Ok (u, m)"
  obtains d where "transaction_parse bs = Ok d"
    and "u = \<lparr>tu_slot = dt_slot d, tu_index = dt_index d, tu_signature = dt_signature d,
      tu_is_vote = dt_is_vote d,
      tu_payload = TransactionPayload (drop TRANSACTION_UPDATE_FIXED_BYTES bs)\<rparr>"
    and "sender_created_at_unix_nanos m = dt_sender_created_at_unix_nanos d"
proof -
  from assms obtain d payload where d: "transaction_parse bs = Ok d"
    and p: "slice_get bs (dt_payload_offset d) (dt_payload_offset d + dt_payload_len d) = Some payload"
    and r: "transaction_from_decoded d payload = Ok (u, m)"
    by (auto simp: transaction_decode_with_meta_def bindR_eq_Ok)
  have "payload = drop TRANSACTION_UPDATE_FIXED_BYTES bs"
    using p transaction_parse_Ok(3,4) [OF d] by (auto simp: slice_get_def split: if_splits)
  with r d that show thesis
    by (auto simp: transaction_from_decoded_def transaction_payload_from_bytes_def
        transaction_payload_new_def bindR_eq_Ok Let_def split: if_splits)
qed

lemma transaction_decode_wf:
  "transaction_decode_with_meta bs = Ok (u, m) \<Longrightarrow> wf_transaction_update u"
  by (erule transaction_decode_Ok)
     (auto simp: wf_transaction_update_def transaction_parse_Ok)

lemma transaction_canonical:
  assumes "transaction_decode_with_meta bs = Ok (u, m)"
  shows "transaction_encode u (sender_created_at_unix_nanos m) = Ok bs"
proof -
  obtain d where d: "transaction_parse bs = Ok d"
    and u: "u = \<lparr>tu_slot = dt_slot d, tu_index = dt_index d, tu_signature = dt_signature d,
      tu_is_vote = dt_is_vote d,
      tu_payload = TransactionPayload (drop TRANSACTION_UPDATE_FIXED_BYTES bs)\<rparr>"
    and m: "sender_created_at_unix_nanos m = dt_sender_created_at_unix_nanos d"
    using assms by (rule transaction_decode_Ok)
  have len: "length (drop TRANSACTION_UPDATE_FIXED_BYTES bs) = dt_payload_len d"
    using transaction_parse_Ok(4) [OF d] by simp
  then have le: "length (tp_bytes (tu_payload u)) \<le> MAX_TRANSACTION_PAYLOAD_BYTES"
    using transaction_parse_Ok(2) [OF d] by (simp add: u)
  have "transaction_header u (sender_created_at_unix_nanos m) (of_nat (dt_payload_len d)) @
      drop TRANSACTION_UPDATE_FIXED_BYTES bs = bs"
    using transaction_parse_Ok(5) [OF d, symmetric] by (simp add: u m transaction_header_def)
  moreover have "tp_bytes (tu_payload u) = drop TRANSACTION_UPDATE_FIXED_BYTES bs"
    by (simp add: u)
  ultimately show ?thesis
    unfolding transaction_encode_def transaction_encode_eq [OF le] using len by simp
qed

lemma transaction_decode_owned_eq:
  "transaction_decode_owned_with_meta bs = transaction_decode_with_meta bs"
  by (simp add: transaction_decode_owned_with_meta_def transaction_decode_with_meta_def)

interpretation transaction_codec: update_codec transaction_encode_parts_at
  transaction_decode_with_meta transaction_decode_owned_with_meta wf_transaction_update True
  TRANSACTION_UPDATE_TAG "TRANSACTION_UPDATE_FIXED_BYTES + MAX_TRANSACTION_PAYLOAD_BYTES"
proof
  fix u t
  assume "wf_transaction_update u"
  then show "\<exists>h p. transaction_encode_parts_at u t = Ok (h, p)"
    by (auto simp: wf_transaction_update_def transaction_encode_eq)
next
  fix u t h p
  assume "transaction_encode_parts_at u t = Ok (h, p)"
  then show "\<exists>rest. h = WIRE_VERSION # TRANSACTION_UPDATE_TAG # rest"
    by (auto dest!: transaction_encode_Ok simp: transaction_header_def)
next
  fix u t h p
  assume "wf_transaction_update u" and "transaction_encode_parts_at u t = Ok (h, p)"
  then show "length h + length p \<le> TRANSACTION_UPDATE_FIXED_BYTES + MAX_TRANSACTION_PAYLOAD_BYTES"
    by (auto dest!: transaction_encode_Ok simp: wf_transaction_update_def length_transaction_header)
next
  fix bs u m
  assume "transaction_decode_with_meta bs = Ok (u, m)"
  then obtain d where "transaction_parse bs = Ok d"
    by (rule transaction_decode_Ok)
  then show "\<exists>rest. bs = WIRE_VERSION # TRANSACTION_UPDATE_TAG # rest"
    using transaction_parse_Ok(5) by fastforce
qed (simp_all add: transaction_roundtrip transaction_decode_wf transaction_decode_no_panic
      transaction_decode_owned_eq)


section \<open>The slot codec\<close>

lemma slot_parse_frame:
  "slot_parse (WIRE_VERSION # SLOT_UPDATE_TAG # u64_to_le t @ u64_to_le n) =
     Ok \<lparr>ds_sender_created_at_unix_nanos = t, ds_slot = n\<rparr>"
proof -
  define bs where "bs = WIRE_VERSION # SLOT_UPDATE_TAG # u64_to_le t @ u64_to_le n"
  have len: "length bs = SLOT_UPDATE_FIXED_BYTES" and small: "length bs < 2 ^ 64"
    by (simp_all add: bs_def SLOT_UPDATE_FIXED_BYTES_def)
  have ix: "index_get bs 0 = Some WIRE_VERSION" "index_get bs (Suc 0) = Some SLOT_UPDATE_TAG"
    by (simp_all add: bs_def)
  have "drop 2 bs = u64_to_le t @ u64_to_le n @ []"
    by (simp add: bs_def)
  note s1 = rd_u64.read_step [OF TrueI this small]
  note s2 = rd_u64.read_step [OF TrueI s1 [THEN conjunct2] small]
  show ?thesis
    unfolding bs_def [symmetric] slot_parse_def
    using s1 s2 by (simp add: ix len SLOT_UPDATE_FIXED_BYTES_def)
qed

lemma slot_parse_Ok:
  assumes "slot_parse bs = Ok d"
  shows "bs = WIRE_VERSION # SLOT_UPDATE_TAG #
    u64_to_le (ds_sender_created_at_unix_nanos d) @ u64_to_le (ds_slot d)"
proof -
  have "index_get bs 0 = Some WIRE_VERSION" and "index_get bs 1 = Some SLOT_UPDATE_TAG"
    using assms unfolding slot_parse_def by (auto simp: bindR_eq_Ok split: if_splits)
  then have bs: "bs = WIRE_VERSION # SLOT_UPDATE_TAG # drop 2 bs"
    by (rule index_get_01)
  from assms obtain c1 c2 where
      r1: "take_u64_le bs 2 = Ok (ds_sender_created_at_unix_nanos d, c1)" and
      r2: "take_u64_le bs c1 = Ok (ds_slot d, c2)" and c2: "length bs = c2"
    unfolding slot_parse_def by (auto simp: bindR_eq_Ok split: if_splits)
  have "drop 2 bs = u64_to_le (ds_sender_created_at_unix_nanos d) @ u64_to_le (ds_slot d)"
    using rd_u64.read_splits(1) [OF r1] rd_u64.read_splits(1) [OF r2] c2 by simp
  then show ?thesis
    using bs by simp
qed

lemma slot_decode_frame:
  "slot_decode_with_meta (WIRE_VERSION # SLOT_UPDATE_TAG # u64_to_le t @ u64_to_le (su_slot u)) =
     Ok (u, \<lparr>sender_created_at_unix_nanos = t\<rparr>)"
  by (cases u) (simp add: slot_decode_with_meta_def slot_parse_frame)

lemma slot_roundtrip:
  "slot_encode_parts_at u t = Ok (h, p) \<Longrightarrow>
     slot_decode_with_meta (h @ p) = Ok (u, \<lparr>sender_created_at_unix_nanos = t\<rparr>)"
  by (auto simp: slot_encode_parts_at_def slot_decode_frame)

lemma slot_canonical:
  "slot_decode_with_meta bs = Ok (u, m) \<Longrightarrow> slot_encode u (sender_created_at_unix_nanos m) = Ok bs"
  by (auto simp: slot_decode_with_meta_def bindR_eq_Ok slot_encode_def slot_encode_parts_at_def
      dest!: slot_parse_Ok)

lemma slot_decode_no_panic: "slot_decode_with_meta bs \<noteq> Panic"
  unfolding slot_decode_with_meta_def slot_parse_def
  by (auto simp: bindR_eq_Panic index_get_def SLOT_UPDATE_FIXED_BYTES_def split: if_splits)

interpretation slot_codec: update_codec slot_encode_parts_at slot_decode_with_meta
  slot_decode_owned_with_meta "\<lambda>_. True" True SLOT_UPDATE_TAG SLOT_UPDATE_FIXED_BYTES
proof
  fix bs u m
  assume "slot_decode_with_meta bs = Ok (u, m)"
  then show "\<exists>rest. bs = WIRE_VERSION # SLOT_UPDATE_TAG # rest"
    by (auto simp: slot_decode_with_meta_def bindR_eq_Ok dest!: slot_parse_Ok)
qed (auto simp: slot_encode_parts_at_def slot_decode_no_panic slot_decode_owned_with_meta_def
      SLOT_UPDATE_FIXED_BYTES_def slot_decode_frame)

text \<open>A transaction payload that was accepted gives its bytes back and is accepted again.\<close>

lemma transaction_payload_contents:
  assumes "transaction_payload_new payload = Ok p"
  shows "transaction_payload_as_slice p = payload" and "transaction_payload_len p = length payload"
    and "transaction_payload_is_empty p \<longleftrightarrow> transaction_payload_len p = 0"
    and "transaction_payload_from_slice (transaction_payload_as_slice p) = Ok p"
    and "transaction_payload_try_from (transaction_payload_as_slice p) = Ok p"
  using assms
  by (auto simp: transaction_payload_new_def transaction_payload_as_slice_def transaction_payload_len_def
      transaction_payload_is_empty_def transaction_payload_from_slice_def transaction_payload_try_from_def Let_def
      split: if_splits)

end
