(* ===== verification/Wincode_Param.thy ===== *)
theory Wincode_Param
  imports Wire_Common
begin

text \<open>
  The wire structs of the control frames (\<open>src/types.rs\<close>, \<open>Wire*\<close>) and the third-party crate
  \<open>wincode\<close> that serializes them, as a parameter: one serializer and one deserializer per struct,
  the code the derive macros generate. \<open>wincode_ok\<close> is the documented behaviour the sources rely on:
  what was serialized deserializes to the same struct, fields are laid out in declaration order
  (so version and tag are the first two bytes), and serialization fails only when a sequence
  exceeds the crate's preallocation limit. \<open>plain_wincode\<close> is a concrete instance, used to show
  that the assumptions can hold together.
\<close>

record wire_subscription_request =
  ws_wire_version :: u8
  ws_message_tag :: u8
  ws_slot_index :: u8
  ws_slot_generation :: u64
  ws_account_pubkeys :: "bytes list"
  ws_account_owners :: "bytes list"
  ws_include_transactions :: bool

record wire_ping_request =
  wp_wire_version :: u8
  wp_message_tag :: u8
  wp_slot_index :: u8
  wp_slot_generation :: u64

record wire_connection_ready =
  wr_wire_version :: u8
  wr_message_tag :: u8
  wr_slot_index :: u8
  wr_slot_generation :: u64

record wire_connection_ready_shm =
  wh_wire_version :: u8
  wh_message_tag :: u8
  wh_slot_index :: u8
  wh_slot_generation :: u64
  wh_ring_path :: string
  wh_ring_capacity :: u64

record wincode =
  wc_seq_limit :: nat
  wc_ser_subscription :: "wire_subscription_request \<Rightarrow> string + bytes"
  wc_de_subscription :: "bytes \<Rightarrow> string + wire_subscription_request"
  wc_ser_ping :: "wire_ping_request \<Rightarrow> string + bytes"
  wc_de_ping :: "bytes \<Rightarrow> string + wire_ping_request"
  wc_ser_ready :: "wire_connection_ready \<Rightarrow> string + bytes"
  wc_de_ready :: "bytes \<Rightarrow> string + wire_connection_ready"
  wc_ser_ready_shm :: "wire_connection_ready_shm \<Rightarrow> string + bytes"
  wc_de_ready_shm :: "bytes \<Rightarrow> string + wire_connection_ready_shm"

text \<open>The array types of the struct: every key has 32 bytes.\<close>

definition wf_wire_subscription :: "wire_subscription_request \<Rightarrow> bool" where
  "wf_wire_subscription w \<longleftrightarrow>
     list_all wf_pubkey (ws_account_pubkeys w) \<and> list_all wf_pubkey (ws_account_owners w)"

definition wincode_ok :: "wincode \<Rightarrow> bool" where
  "wincode_ok wc \<longleftrightarrow>
     (\<forall>w bs. wf_wire_subscription w \<longrightarrow> wc_ser_subscription wc w = Inr bs \<longrightarrow>
        wc_de_subscription wc bs = Inr w \<and>
        (\<exists>rest. bs = ws_wire_version w # ws_message_tag w # rest)) \<and>
     (\<forall>w. 32 * length (ws_account_pubkeys w) \<le> wc_seq_limit wc \<longrightarrow>
        32 * length (ws_account_owners w) \<le> wc_seq_limit wc \<longrightarrow>
        (\<exists>bs. wc_ser_subscription wc w = Inr bs)) \<and>
     (\<forall>w. \<exists>rest. let bs = wp_wire_version w # wp_message_tag w # rest in
        wc_ser_ping wc w = Inr bs \<and> wc_de_ping wc bs = Inr w) \<and>
     (\<forall>w. \<exists>rest. let bs = wr_wire_version w # wr_message_tag w # rest in
        wc_ser_ready wc w = Inr bs \<and> wc_de_ready wc bs = Inr w) \<and>
     (\<forall>w bs. wc_ser_ready_shm wc w = Inr bs \<longrightarrow>
        wc_de_ready_shm wc bs = Inr w \<and>
        (\<exists>rest. bs = wh_wire_version w # wh_message_tag w # rest)) \<and>
     (\<forall>w. length (wh_ring_path w) \<le> wc_seq_limit wc \<longrightarrow> (\<exists>bs. wc_ser_ready_shm wc w = Inr bs))"


section \<open>A concrete instance\<close>

text \<open>Fields in order, integers little-endian, sequences with a 64-bit count in front.\<close>

fun chunks32 :: "nat \<Rightarrow> bytes \<Rightarrow> bytes list" where
  "chunks32 0 bs = []"
| "chunks32 (Suc n) bs = take 32 bs # chunks32 n (drop 32 bs)"

definition put_keys :: "bytes list \<Rightarrow> bytes" where
  "put_keys ks = u64_to_le (of_nat (length ks)) @ concat ks"

definition get_keys :: "bytes \<Rightarrow> bytes list \<times> bytes" where
  "get_keys bs = (let n = unat (u64_from_le (take 8 bs)) in
     (chunks32 n (drop 8 bs), drop (8 + 32 * n) bs))"

definition plain_ser_subscription :: "wire_subscription_request \<Rightarrow> string + bytes" where
  "plain_ser_subscription w =
     (if 32 * length (ws_account_pubkeys w) > 4194304 \<or> 32 * length (ws_account_owners w) > 4194304
      then Inl ''preallocation limit''
      else Inr (ws_wire_version w # ws_message_tag w # ws_slot_index w #
        u64_to_le (ws_slot_generation w) @ put_keys (ws_account_pubkeys w) @
        put_keys (ws_account_owners w) @ [u8_of_bool (ws_include_transactions w)]))"

definition plain_de_subscription :: "bytes \<Rightarrow> string + wire_subscription_request" where
  "plain_de_subscription bs =
     (case bs of v # t # i # r \<Rightarrow>
        (case get_keys (drop 8 r) of (ks, r1) \<Rightarrow> (case get_keys r1 of (os, r2) \<Rightarrow>
           (case r2 of [] \<Rightarrow> Inl ''short'' | b # _ \<Rightarrow>
             Inr \<lparr>ws_wire_version = v, ws_message_tag = t, ws_slot_index = i,
               ws_slot_generation = u64_from_le (take 8 r), ws_account_pubkeys = ks,
               ws_account_owners = os, ws_include_transactions = (b = 1)\<rparr>)))
      | _ \<Rightarrow> Inl ''short'')"

definition plain_ser_ping :: "wire_ping_request \<Rightarrow> string + bytes" where
  "plain_ser_ping w = Inr (wp_wire_version w # wp_message_tag w # wp_slot_index w #
     u64_to_le (wp_slot_generation w))"

definition plain_de_ping :: "bytes \<Rightarrow> string + wire_ping_request" where
  "plain_de_ping bs =
     (case bs of v # t # i # r \<Rightarrow>
        if length r < 8 then Inl ''short''
        else Inr \<lparr>wp_wire_version = v, wp_message_tag = t, wp_slot_index = i,
          wp_slot_generation = u64_from_le (take 8 r)\<rparr>
      | _ \<Rightarrow> Inl ''short'')"

definition plain_ser_ready :: "wire_connection_ready \<Rightarrow> string + bytes" where
  "plain_ser_ready w = Inr (wr_wire_version w # wr_message_tag w # wr_slot_index w #
     u64_to_le (wr_slot_generation w))"

definition plain_de_ready :: "bytes \<Rightarrow> string + wire_connection_ready" where
  "plain_de_ready bs =
     (case bs of v # t # i # r \<Rightarrow>
        if length r < 8 then Inl ''short''
        else Inr \<lparr>wr_wire_version = v, wr_message_tag = t, wr_slot_index = i,
          wr_slot_generation = u64_from_le (take 8 r)\<rparr>
      | _ \<Rightarrow> Inl ''short'')"

definition char_byte :: "char \<Rightarrow> u8" where
  "char_byte c = of_nat (of_char c)"

definition plain_ser_ready_shm :: "wire_connection_ready_shm \<Rightarrow> string + bytes" where
  "plain_ser_ready_shm w =
     (if length (wh_ring_path w) > 4194304 then Inl ''preallocation limit''
      else Inr (wh_wire_version w # wh_message_tag w # wh_slot_index w #
        u64_to_le (wh_slot_generation w) @ u64_to_le (wh_ring_capacity w) @
        map char_byte (wh_ring_path w)))"

definition plain_de_ready_shm :: "bytes \<Rightarrow> string + wire_connection_ready_shm" where
  "plain_de_ready_shm bs =
     (case bs of v # t # i # r \<Rightarrow>
        if length r < 16 then Inl ''short''
        else Inr \<lparr>wh_wire_version = v, wh_message_tag = t, wh_slot_index = i,
          wh_slot_generation = u64_from_le (take 8 r),
          wh_ring_path = map (\<lambda>b. char_of (unat b)) (drop 16 r),
          wh_ring_capacity = u64_from_le (take 8 (drop 8 r))\<rparr>
      | _ \<Rightarrow> Inl ''short'')"

definition plain_wincode :: wincode where
  "plain_wincode =
     \<lparr>wc_seq_limit = 4194304,
      wc_ser_subscription = plain_ser_subscription, wc_de_subscription = plain_de_subscription,
      wc_ser_ping = plain_ser_ping, wc_de_ping = plain_de_ping,
      wc_ser_ready = plain_ser_ready, wc_de_ready = plain_de_ready,
      wc_ser_ready_shm = plain_ser_ready_shm, wc_de_ready_shm = plain_de_ready_shm\<rparr>"

lemma chunks32_concat: "list_all wf_pubkey ks \<Longrightarrow> chunks32 (length ks) (concat ks @ rest) = ks"
  by (induction ks) (auto simp: wf_pubkey_def)

lemma length_concat_keys: "list_all wf_pubkey ks \<Longrightarrow> length (concat ks) = 32 * length ks"
  by (induction ks) (auto simp: wf_pubkey_def)

lemma get_put_keys:
  assumes "list_all wf_pubkey ks" and "32 * length ks \<le> 4194304"
  shows "get_keys (put_keys ks @ rest) = (ks, rest)"
proof -
  have "unat (of_nat (length ks) :: u64) = length ks"
    using assms(2) by (simp add: unat_of_nat)
  then show ?thesis
    using assms by (simp add: get_keys_def put_keys_def chunks32_concat length_concat_keys)
qed

lemma plain_subscription:
  assumes "wf_wire_subscription w" and "plain_ser_subscription w = Inr bs"
  shows "plain_de_subscription bs = Inr w"
  using assms
  by (cases w) (auto simp: plain_ser_subscription_def plain_de_subscription_def get_put_keys
      wf_wire_subscription_def u8_of_bool_def split: if_splits)

lemma char_of_char_byte: "char_of (unat (char_byte c)) = c"
proof -
  have "(of_char c :: nat) < 256"
    by (rule nat_of_char_less_256)
  then show ?thesis
    by (simp add: char_byte_def unat_of_nat)
qed

lemma plain_ready_shm: "plain_ser_ready_shm w = Inr bs \<Longrightarrow> plain_de_ready_shm bs = Inr w"
  by (cases w) (auto simp: plain_ser_ready_shm_def plain_de_ready_shm_def char_of_char_byte comp_def
      split: if_splits)

lemma plain_wincode_ok: "wincode_ok plain_wincode"
proof -
  have "plain_de_ping (wp_wire_version w # wp_message_tag w # wp_slot_index w #
      u64_to_le (wp_slot_generation w)) = Inr w" for w
    by (cases w) (simp add: plain_de_ping_def)
  moreover have "plain_de_ready (wr_wire_version w # wr_message_tag w # wr_slot_index w #
      u64_to_le (wr_slot_generation w)) = Inr w" for w
    by (cases w) (simp add: plain_de_ready_def)
  ultimately show ?thesis
    unfolding wincode_ok_def plain_wincode_def
    by (auto simp: plain_subscription plain_ready_shm plain_ser_ping_def plain_ser_ready_def Let_def)
       (auto simp: plain_ser_subscription_def plain_ser_ready_shm_def split: if_splits)
qed

end
