(* ===== verification/Control_Messages.thy ===== *)
theory Control_Messages
  imports Wincode_Param
begin

text \<open>
  The control frames of \<open>src/types.rs\<close>: slot tokens, subscription and ping requests from the
  consumer, and the two ready replies of the sender, with their encoders (which panic if
  serialization fails: \<open>serialize_wire!\<close> uses \<open>expect\<close>) and decoders.
\<close>

section \<open>Messages\<close>

record slot_token =
  st_slot_index :: u8
  st_generation :: u64

definition slot_token_new :: "u8 \<Rightarrow> u64 \<Rightarrow> slot_token" where
  "slot_token_new slot_index generation = \<lparr>st_slot_index = slot_index, st_generation = generation\<rparr>"

record subscription_request =
  sr_slot_token :: "slot_token option"
  sr_account_pubkeys :: "pubkey list"
  sr_account_owners :: "pubkey list"
  sr_include_transactions :: bool

definition subscription_new :: "pubkey list \<Rightarrow> pubkey list \<Rightarrow> subscription_request" where
  "subscription_new account_pubkeys account_owners =
     \<lparr>sr_slot_token = None, sr_account_pubkeys = account_pubkeys,
      sr_account_owners = account_owners, sr_include_transactions = False\<rparr>"

definition subscription_transactions :: subscription_request where
  "subscription_transactions =
     \<lparr>sr_slot_token = None, sr_account_pubkeys = [], sr_account_owners = [],
      sr_include_transactions = True\<rparr>"

definition with_slot_token :: "subscription_request \<Rightarrow> slot_token option \<Rightarrow> subscription_request" where
  "with_slot_token r slot_token = r\<lparr>sr_slot_token := slot_token\<rparr>"

definition with_transactions :: "subscription_request \<Rightarrow> subscription_request" where
  "with_transactions r = r\<lparr>sr_include_transactions := True\<rparr>"

record ping_request =
  pr_slot_token :: slot_token

record connection_ready =
  cr_slot_token :: slot_token

record connection_ready_shm =
  ch_slot_token :: slot_token
  ch_ring_path :: string
  ch_ring_capacity :: u64


section \<open>Encoders and decoders\<close>

fun serialize_wire :: "string + bytes \<Rightarrow> bytes qresult" where
  "serialize_wire (Inr bs) = Ok bs"
| "serialize_wire (Inl e) = Panic"

fun deserialize_wire :: "string \<Rightarrow> string + 'w \<Rightarrow> 'w qresult" where
  "deserialize_wire ctxt (Inr w) = Ok w"
| "deserialize_wire ctxt (Inl e) = Err (DecodeError (ctxt @ '': '' @ e))"

definition subscription_encode :: "wincode \<Rightarrow> subscription_request \<Rightarrow> bytes qresult" where
  "subscription_encode wc r =
     (let (slot_index, slot_generation) =
        (case sr_slot_token r of Some token \<Rightarrow> (st_slot_index token, st_generation token)
         | None \<Rightarrow> (UNSET_SLOT_INDEX, 0))
      in serialize_wire (wc_ser_subscription wc
           \<lparr>ws_wire_version = WIRE_VERSION, ws_message_tag = REQUEST_SUBSCRIBE_TAG,
            ws_slot_index = slot_index, ws_slot_generation = slot_generation,
            ws_account_pubkeys = sr_account_pubkeys r, ws_account_owners = sr_account_owners r,
            ws_include_transactions = sr_include_transactions r\<rparr>))"

definition subscription_decode :: "wincode \<Rightarrow> bytes \<Rightarrow> subscription_request qresult" where
  "subscription_decode wc bs =
     bindR (deserialize_wire ''subscription request'' (wc_de_subscription wc bs)) (\<lambda>wire.
     bindR (ensure_wire (ws_wire_version wire) (ws_message_tag wire) REQUEST_SUBSCRIBE_TAG) (\<lambda>_.
     Ok \<lparr>sr_slot_token = (if ws_slot_index wire \<noteq> UNSET_SLOT_INDEX
            then Some (slot_token_new (ws_slot_index wire) (ws_slot_generation wire)) else None),
         sr_account_pubkeys = ws_account_pubkeys wire, sr_account_owners = ws_account_owners wire,
         sr_include_transactions = ws_include_transactions wire\<rparr>))"

definition ping_encode :: "wincode \<Rightarrow> ping_request \<Rightarrow> bytes qresult" where
  "ping_encode wc p =
     serialize_wire (wc_ser_ping wc
       \<lparr>wp_wire_version = WIRE_VERSION, wp_message_tag = REQUEST_PING_TAG,
        wp_slot_index = st_slot_index (pr_slot_token p),
        wp_slot_generation = st_generation (pr_slot_token p)\<rparr>)"

definition ping_decode :: "wincode \<Rightarrow> bytes \<Rightarrow> ping_request qresult" where
  "ping_decode wc bs =
     bindR (deserialize_wire ''ping request'' (wc_de_ping wc bs)) (\<lambda>wire.
     bindR (ensure_wire (wp_wire_version wire) (wp_message_tag wire) REQUEST_PING_TAG) (\<lambda>_.
     if wp_slot_index wire = UNSET_SLOT_INDEX then
       Err (MalformedPayload ''ping request missing slot token'')
     else Ok \<lparr>pr_slot_token = slot_token_new (wp_slot_index wire) (wp_slot_generation wire)\<rparr>))"

definition ready_encode :: "wincode \<Rightarrow> connection_ready \<Rightarrow> bytes qresult" where
  "ready_encode wc r =
     serialize_wire (wc_ser_ready wc
       \<lparr>wr_wire_version = WIRE_VERSION, wr_message_tag = READY_TAG,
        wr_slot_index = st_slot_index (cr_slot_token r),
        wr_slot_generation = st_generation (cr_slot_token r)\<rparr>)"

definition ready_decode :: "wincode \<Rightarrow> bytes \<Rightarrow> connection_ready qresult" where
  "ready_decode wc bs =
     bindR (deserialize_wire ''connection ready'' (wc_de_ready wc bs)) (\<lambda>wire.
     bindR (ensure_wire (wr_wire_version wire) (wr_message_tag wire) READY_TAG) (\<lambda>_.
     if wr_slot_index wire = UNSET_SLOT_INDEX then
       Err (MalformedPayload ''connection ready missing slot token'')
     else Ok \<lparr>cr_slot_token = slot_token_new (wr_slot_index wire) (wr_slot_generation wire)\<rparr>))"

definition ready_shm_encode :: "wincode \<Rightarrow> connection_ready_shm \<Rightarrow> bytes qresult" where
  "ready_shm_encode wc r =
     serialize_wire (wc_ser_ready_shm wc
       \<lparr>wh_wire_version = WIRE_VERSION, wh_message_tag = READY_SHM_TAG,
        wh_slot_index = st_slot_index (ch_slot_token r),
        wh_slot_generation = st_generation (ch_slot_token r),
        wh_ring_path = ch_ring_path r, wh_ring_capacity = ch_ring_capacity r\<rparr>)"

definition ready_shm_decode :: "wincode \<Rightarrow> bytes \<Rightarrow> connection_ready_shm qresult" where
  "ready_shm_decode wc bs =
     bindR (deserialize_wire ''connection ready shm'' (wc_de_ready_shm wc bs)) (\<lambda>wire.
     bindR (ensure_wire (wh_wire_version wire) (wh_message_tag wire) READY_SHM_TAG) (\<lambda>_.
     if wh_slot_index wire = UNSET_SLOT_INDEX then
       Err (MalformedPayload ''connection ready shm missing slot token'')
     else if wh_ring_path wire = [] then
       Err (MalformedPayload ''connection ready shm missing ring path'')
     else if wh_ring_capacity wire = 0 then
       Err (MalformedPayload ''connection ready shm has zero ring capacity'')
     else Ok \<lparr>ch_slot_token = slot_token_new (wh_slot_index wire) (wh_slot_generation wire),
              ch_ring_path = wh_ring_path wire, ch_ring_capacity = wh_ring_capacity wire\<rparr>))"


section \<open>The contract of a control codec\<close>

text \<open>
  \<open>wf\<close> is what a message must satisfy to survive the wire: a token whose index is not the unset
  marker, and sequences below the serializer's limit. \<open>ext_ok\<close> is the assumption on \<open>wincode\<close>.
\<close>

locale control_codec =
  fixes enc :: "'m \<Rightarrow> bytes qresult"
    and dec :: "bytes \<Rightarrow> 'm qresult"
    and wf :: "'m \<Rightarrow> bool"
    and ext_ok :: bool
    and tag :: u8
  assumes enc_layout: "ext_ok \<Longrightarrow> wf m \<Longrightarrow> \<exists>rest. enc m = Ok (WIRE_VERSION # tag # rest)"
    and dec_enc: "ext_ok \<Longrightarrow> wf m \<Longrightarrow> enc m = Ok bs \<Longrightarrow> dec bs = Ok m"
    and dec_no_panic: "dec bs \<noteq> Panic"
begin

lemma control_roundtrip:
  assumes "ext_ok" and "wf m"
  shows "\<exists>rest. enc m = Ok (WIRE_VERSION # tag # rest) \<and> dec (WIRE_VERSION # tag # rest) = Ok m"
  using enc_layout [OF assms] dec_enc [OF assms] by blast

end

definition wf_token :: "slot_token \<Rightarrow> bool" where
  "wf_token t \<longleftrightarrow> st_slot_index t \<noteq> UNSET_SLOT_INDEX"

definition wf_subscription :: "wincode \<Rightarrow> subscription_request \<Rightarrow> bool" where
  "wf_subscription wc r \<longleftrightarrow>
     (case sr_slot_token r of None \<Rightarrow> True | Some t \<Rightarrow> wf_token t) \<and>
     list_all wf_pubkey (sr_account_pubkeys r) \<and> list_all wf_pubkey (sr_account_owners r) \<and>
     32 * length (sr_account_pubkeys r) \<le> wc_seq_limit wc \<and>
     32 * length (sr_account_owners r) \<le> wc_seq_limit wc"

definition wf_ready_shm :: "wincode \<Rightarrow> connection_ready_shm \<Rightarrow> bool" where
  "wf_ready_shm wc r \<longleftrightarrow> wf_token (ch_slot_token r) \<and> ch_ring_path r \<noteq> [] \<and>
     length (ch_ring_path r) \<le> wc_seq_limit wc \<and> ch_ring_capacity r \<noteq> 0"

lemma serialize_wire_Ok [simp]: "serialize_wire r = Ok bs \<longleftrightarrow> r = Inr bs"
  by (cases r) auto

lemma deserialize_wire_no_panic [simp]: "deserialize_wire c r \<noteq> Panic"
  by (cases r) auto

lemma slot_token_eta [simp]: "slot_token_new (st_slot_index t) (st_generation t) = t"
  by (simp add: slot_token_new_def)

interpretation subscription_codec: control_codec "subscription_encode wc" "subscription_decode wc"
  "wf_subscription wc" "wincode_ok wc" REQUEST_SUBSCRIBE_TAG for wc
proof
  fix m
  assume ok: "wincode_ok wc" and wf: "wf_subscription wc m"
  obtain i g where ig: "(case sr_slot_token m of Some token \<Rightarrow> (st_slot_index token, st_generation token)
      | None \<Rightarrow> (UNSET_SLOT_INDEX, 0)) = (i, g)"
    by force
  let ?w = "\<lparr>ws_wire_version = WIRE_VERSION, ws_message_tag = REQUEST_SUBSCRIBE_TAG,
    ws_slot_index = i, ws_slot_generation = g, ws_account_pubkeys = sr_account_pubkeys m,
    ws_account_owners = sr_account_owners m, ws_include_transactions = sr_include_transactions m\<rparr>"
  have w: "wf_wire_subscription ?w"
    using wf by (simp add: wf_subscription_def wf_wire_subscription_def)
  obtain bs where bs: "wc_ser_subscription wc ?w = Inr bs"
    using ok wf by (fastforce simp: wincode_ok_def wf_subscription_def)
  have de: "wc_de_subscription wc bs = Inr ?w" and lay: "\<exists>rest. bs = WIRE_VERSION # REQUEST_SUBSCRIBE_TAG # rest"
    using ok w bs unfolding wincode_ok_def by fastforce+
  show "\<exists>rest. subscription_encode wc m = Ok (WIRE_VERSION # REQUEST_SUBSCRIBE_TAG # rest)"
    using lay by (auto simp: subscription_encode_def ig bs)
  fix bs'
  assume "subscription_encode wc m = Ok bs'"
  then have "bs' = bs"
    by (simp add: subscription_encode_def ig bs)
  then show "subscription_decode wc bs' = Ok m"
    using wf ig by (cases "sr_slot_token m")
      (auto simp: subscription_decode_def de wf_subscription_def wf_token_def)
next
  fix bs
  show "subscription_decode wc bs \<noteq> Panic"
    by (simp add: subscription_decode_def bindR_eq_Panic)
qed

interpretation ping_codec: control_codec "ping_encode wc" "ping_decode wc"
  "\<lambda>p. wf_token (pr_slot_token p)" "wincode_ok wc" REQUEST_PING_TAG for wc
proof
  fix m :: ping_request
  assume ok: "wincode_ok wc" and wf: "wf_token (pr_slot_token m)"
  let ?w = "\<lparr>wp_wire_version = WIRE_VERSION, wp_message_tag = REQUEST_PING_TAG,
    wp_slot_index = st_slot_index (pr_slot_token m), wp_slot_generation = st_generation (pr_slot_token m)\<rparr>"
  obtain rest where r: "wc_ser_ping wc ?w = Inr (WIRE_VERSION # REQUEST_PING_TAG # rest)"
      "wc_de_ping wc (WIRE_VERSION # REQUEST_PING_TAG # rest) = Inr ?w"
    using ok unfolding wincode_ok_def Let_def
    by (metis wire_ping_request.select_convs(1,2))
  show "\<exists>rest. ping_encode wc m = Ok (WIRE_VERSION # REQUEST_PING_TAG # rest)"
    by (simp add: ping_encode_def r)
  fix bs
  assume "ping_encode wc m = Ok bs"
  then show "ping_decode wc bs = Ok m"
    using wf by (auto simp: ping_encode_def r ping_decode_def wf_token_def)
next
  fix bs
  show "ping_decode wc bs \<noteq> Panic"
    by (simp add: ping_decode_def bindR_eq_Panic)
qed

interpretation ready_codec: control_codec "ready_encode wc" "ready_decode wc"
  "\<lambda>r. wf_token (cr_slot_token r)" "wincode_ok wc" READY_TAG for wc
proof
  fix m :: connection_ready
  assume ok: "wincode_ok wc" and wf: "wf_token (cr_slot_token m)"
  let ?w = "\<lparr>wr_wire_version = WIRE_VERSION, wr_message_tag = READY_TAG,
    wr_slot_index = st_slot_index (cr_slot_token m), wr_slot_generation = st_generation (cr_slot_token m)\<rparr>"
  obtain rest where r: "wc_ser_ready wc ?w = Inr (WIRE_VERSION # READY_TAG # rest)"
      "wc_de_ready wc (WIRE_VERSION # READY_TAG # rest) = Inr ?w"
    using ok unfolding wincode_ok_def Let_def
    by (metis wire_connection_ready.select_convs(1,2))
  show "\<exists>rest. ready_encode wc m = Ok (WIRE_VERSION # READY_TAG # rest)"
    by (simp add: ready_encode_def r)
  fix bs
  assume "ready_encode wc m = Ok bs"
  then show "ready_decode wc bs = Ok m"
    using wf by (auto simp: ready_encode_def r ready_decode_def wf_token_def)
next
  fix bs
  show "ready_decode wc bs \<noteq> Panic"
    by (simp add: ready_decode_def bindR_eq_Panic)
qed

interpretation ready_shm_codec: control_codec "ready_shm_encode wc" "ready_shm_decode wc"
  "wf_ready_shm wc" "wincode_ok wc" READY_SHM_TAG for wc
proof
  fix m :: connection_ready_shm
  assume ok: "wincode_ok wc" and wf: "wf_ready_shm wc m"
  let ?w = "\<lparr>wh_wire_version = WIRE_VERSION, wh_message_tag = READY_SHM_TAG,
    wh_slot_index = st_slot_index (ch_slot_token m), wh_slot_generation = st_generation (ch_slot_token m),
    wh_ring_path = ch_ring_path m, wh_ring_capacity = ch_ring_capacity m\<rparr>"
  obtain bs where bs: "wc_ser_ready_shm wc ?w = Inr bs"
    using ok wf by (fastforce simp: wincode_ok_def wf_ready_shm_def)
  have de: "wc_de_ready_shm wc bs = Inr ?w" and lay: "\<exists>rest. bs = WIRE_VERSION # READY_SHM_TAG # rest"
    using ok bs unfolding wincode_ok_def by fastforce+
  show "\<exists>rest. ready_shm_encode wc m = Ok (WIRE_VERSION # READY_SHM_TAG # rest)"
    using lay by (auto simp: ready_shm_encode_def bs)
  fix bs'
  assume "ready_shm_encode wc m = Ok bs'"
  then have "bs' = bs"
    by (simp add: ready_shm_encode_def bs)
  then show "ready_shm_decode wc bs' = Ok m"
    using wf by (simp add: de ready_shm_decode_def wf_ready_shm_def wf_token_def)
next
  fix bs
  show "ready_shm_decode wc bs \<noteq> Panic"
    by (simp add: ready_shm_decode_def bindR_eq_Panic)
qed

end
