(* ===== verification/Frames.thy ===== *)
theory Frames
  imports Account_Update Stream_Updates Control_Messages
begin

text \<open>
  The frame routers of \<open>src/types.rs\<close>: they look at the tag byte and hand the whole slice to the
  decoder of that message. Three server-side routers exist: the borrowing one, the owning one
  (zero-copy), and the owning one that keeps the sender's timestamp.
\<close>

datatype client_frame =
    Subscription subscription_request
  | Ping ping_request

datatype server_frame =
    SF_AccountUpdate account_update
  | SF_TransactionUpdate transaction_update
  | SF_SlotUpdate slot_update
  | SF_ConnectionReady connection_ready
  | SF_ConnectionReadyShm connection_ready_shm

datatype server_frame_with_meta =
    SM_AccountUpdate account_update wire_meta
  | SM_TransactionUpdate transaction_update wire_meta
  | SM_SlotUpdate slot_update wire_meta
  | SM_ConnectionReady connection_ready
  | SM_ConnectionReadyShm connection_ready_shm

definition decode_client_frame :: "wincode \<Rightarrow> bytes \<Rightarrow> client_frame qresult" where
  "decode_client_frame wc bs =
     bindR (wire_tag bs) (\<lambda>tag.
       if tag = REQUEST_SUBSCRIBE_TAG then mapR Subscription (subscription_decode wc bs)
       else if tag = REQUEST_PING_TAG then mapR Ping (ping_decode wc bs)
       else Err (InvalidMessageTag tag REQUEST_SUBSCRIBE_TAG))"

definition decode_server_frame :: "lz4 \<Rightarrow> wincode \<Rightarrow> bytes \<Rightarrow> server_frame qresult" where
  "decode_server_frame lz wc bs =
     bindR (wire_tag bs) (\<lambda>tag.
       if tag = UPDATE_TAG then mapR SF_AccountUpdate (account_decode lz bs)
       else if tag = TRANSACTION_UPDATE_TAG then mapR SF_TransactionUpdate (transaction_decode bs)
       else if tag = SLOT_UPDATE_TAG then mapR SF_SlotUpdate (slot_decode bs)
       else if tag = READY_TAG then mapR SF_ConnectionReady (ready_decode wc bs)
       else if tag = READY_SHM_TAG then mapR SF_ConnectionReadyShm (ready_shm_decode wc bs)
       else Err (InvalidMessageTag tag UPDATE_TAG))"

definition decode_server_frame_owned :: "lz4 \<Rightarrow> wincode \<Rightarrow> bytes \<Rightarrow> server_frame qresult" where
  "decode_server_frame_owned lz wc bs =
     bindR (wire_tag bs) (\<lambda>tag.
       if tag = UPDATE_TAG then mapR SF_AccountUpdate (account_decode_owned lz bs)
       else if tag = TRANSACTION_UPDATE_TAG then
         mapR SF_TransactionUpdate (transaction_decode_owned bs)
       else if tag = SLOT_UPDATE_TAG then mapR SF_SlotUpdate (slot_decode_owned bs)
       else if tag = READY_TAG then mapR SF_ConnectionReady (ready_decode wc bs)
       else if tag = READY_SHM_TAG then mapR SF_ConnectionReadyShm (ready_shm_decode wc bs)
       else Err (InvalidMessageTag tag UPDATE_TAG))"

definition decode_server_frame_owned_with_meta ::
    "lz4 \<Rightarrow> wincode \<Rightarrow> bytes \<Rightarrow> server_frame_with_meta qresult" where
  "decode_server_frame_owned_with_meta lz wc bs =
     bindR (wire_tag bs) (\<lambda>tag.
       if tag = UPDATE_TAG then
         bindR (account_decode_owned_with_meta lz bs) (\<lambda>(update, meta). Ok (SM_AccountUpdate update meta))
       else if tag = TRANSACTION_UPDATE_TAG then
         bindR (transaction_decode_owned_with_meta bs)
           (\<lambda>(update, meta). Ok (SM_TransactionUpdate update meta))
       else if tag = SLOT_UPDATE_TAG then
         bindR (slot_decode_owned_with_meta bs) (\<lambda>(update, meta). Ok (SM_SlotUpdate update meta))
       else if tag = READY_TAG then mapR SM_ConnectionReady (ready_decode wc bs)
       else if tag = READY_SHM_TAG then mapR SM_ConnectionReadyShm (ready_shm_decode wc bs)
       else Err (InvalidMessageTag tag UPDATE_TAG))"

text \<open>Forgetting the timestamp relates the two frame enums.\<close>

fun forget_meta :: "server_frame_with_meta \<Rightarrow> server_frame" where
  "forget_meta (SM_AccountUpdate u m) = SF_AccountUpdate u"
| "forget_meta (SM_TransactionUpdate u m) = SF_TransactionUpdate u"
| "forget_meta (SM_SlotUpdate u m) = SF_SlotUpdate u"
| "forget_meta (SM_ConnectionReady r) = SF_ConnectionReady r"
| "forget_meta (SM_ConnectionReadyShm r) = SF_ConnectionReadyShm r"

lemmas router_defs =
  decode_client_frame_def decode_server_frame_def decode_server_frame_owned_def
  decode_server_frame_owned_with_meta_def

lemmas decoder_defs =
  account_decode_def account_decode_owned_def transaction_decode_def transaction_decode_owned_def
  slot_decode_def slot_decode_owned_def

lemmas owned_eqs =
  account_codec.dec_owned_eq transaction_codec.dec_owned_eq slot_codec.dec_owned_eq

lemmas decoders_no_panic =
  account_codec.dec_no_panic transaction_codec.dec_no_panic slot_codec.dec_no_panic
  subscription_codec.dec_no_panic ping_codec.dec_no_panic ready_codec.dec_no_panic
  ready_shm_codec.dec_no_panic

lemma routers_no_panic:
  "decode_client_frame wc bs \<noteq> Panic"
  "decode_server_frame lz wc bs \<noteq> Panic"
  "decode_server_frame_owned lz wc bs \<noteq> Panic"
  "decode_server_frame_owned_with_meta lz wc bs \<noteq> Panic"
  by (auto simp: router_defs decoder_defs owned_eqs decoders_no_panic bindR_eq_Panic split: if_splits)

text \<open>What the routers do on a frame whose tag is known.\<close>

lemma route_account:
  "decode_server_frame_owned_with_meta lz wc (WIRE_VERSION # UPDATE_TAG # r) =
     bindR (account_decode_with_meta lz (WIRE_VERSION # UPDATE_TAG # r))
       (\<lambda>(u, m). Ok (SM_AccountUpdate u m))"
  by (simp add: router_defs owned_eqs)

lemma route_transaction:
  "decode_server_frame_owned_with_meta lz wc (WIRE_VERSION # TRANSACTION_UPDATE_TAG # r) =
     bindR (transaction_decode_with_meta (WIRE_VERSION # TRANSACTION_UPDATE_TAG # r))
       (\<lambda>(u, m). Ok (SM_TransactionUpdate u m))"
  by (simp add: router_defs owned_eqs tag_defs)

lemma route_slot:
  "decode_server_frame_owned_with_meta lz wc (WIRE_VERSION # SLOT_UPDATE_TAG # r) =
     bindR (slot_decode_with_meta (WIRE_VERSION # SLOT_UPDATE_TAG # r))
       (\<lambda>(u, m). Ok (SM_SlotUpdate u m))"
  by (simp add: router_defs owned_eqs tag_defs)

text \<open>An encoded update comes out of the router as itself, with its timestamp.\<close>

lemma routed_account:
  assumes "lz4_lossless lz" and "wf_account_update u" and "account_encode_parts_at lz u t = Ok (h, p)"
  shows "decode_server_frame_owned_with_meta lz wc (h @ p) =
    Ok (SM_AccountUpdate u \<lparr>sender_created_at_unix_nanos = t\<rparr>)"
proof -
  obtain r where hp: "h @ p = WIRE_VERSION # UPDATE_TAG # r"
    using account_codec.encode_layout [OF assms(3)] by auto
  have "account_decode_with_meta lz (h @ p) = Ok (u, \<lparr>sender_created_at_unix_nanos = t\<rparr>)"
    using assms by (rule account_codec.roundtrip)
  then show ?thesis
    unfolding hp route_account by simp
qed

lemma routed_transaction:
  assumes "wf_transaction_update u" and "transaction_encode_parts_at u t = Ok (h, p)"
  shows "decode_server_frame_owned_with_meta lz wc (h @ p) =
    Ok (SM_TransactionUpdate u \<lparr>sender_created_at_unix_nanos = t\<rparr>)"
proof -
  obtain r where hp: "h @ p = WIRE_VERSION # TRANSACTION_UPDATE_TAG # r"
    using transaction_codec.encode_layout [OF assms(2)] by auto
  have "transaction_decode_with_meta (h @ p) = Ok (u, \<lparr>sender_created_at_unix_nanos = t\<rparr>)"
    using TrueI assms by (rule transaction_codec.roundtrip)
  then show ?thesis
    unfolding hp route_transaction by simp
qed

lemma routed_slot:
  assumes "slot_encode_parts_at u t = Ok (h, p)"
  shows "decode_server_frame_owned_with_meta lz wc (h @ p) =
    Ok (SM_SlotUpdate u \<lparr>sender_created_at_unix_nanos = t\<rparr>)"
proof -
  obtain r where hp: "h @ p = WIRE_VERSION # SLOT_UPDATE_TAG # r"
    using slot_codec.encode_layout [OF assms] by auto
  have "slot_decode_with_meta (h @ p) = Ok (u, \<lparr>sender_created_at_unix_nanos = t\<rparr>)"
    using TrueI TrueI assms by (rule slot_codec.roundtrip)
  then show ?thesis
    unfolding hp route_slot by simp
qed

text \<open>The control messages come out of the routers as they were encoded.\<close>

lemma routed_subscription:
  assumes "wincode_ok wc" and "wf_subscription wc sub"
  obtains bs where "subscription_encode wc sub = Ok bs" and "decode_client_frame wc bs = Ok (Subscription sub)"
  using subscription_codec.control_roundtrip [OF assms] by (auto simp: router_defs tag_defs)

lemma routed_ping:
  assumes "wincode_ok wc" and "wf_token (pr_slot_token png)"
  obtains bs where "ping_encode wc png = Ok bs" and "decode_client_frame wc bs = Ok (Ping png)"
  using ping_codec.control_roundtrip [OF assms] by (auto simp: router_defs tag_defs)

lemma routed_ready:
  assumes "wincode_ok wc" and "wf_token (cr_slot_token rdy)"
  obtains bs where "ready_encode wc rdy = Ok bs" and "decode_server_frame lz wc bs = Ok (SF_ConnectionReady rdy)"
    and "decode_server_frame_owned lz wc bs = Ok (SF_ConnectionReady rdy)"
  using ready_codec.control_roundtrip [OF assms] by (auto simp: router_defs tag_defs)

lemma routed_ready_shm:
  assumes "wincode_ok wc" and "wf_ready_shm wc shm"
  obtains bs where "ready_shm_encode wc shm = Ok bs" and "decode_server_frame lz wc bs = Ok (SF_ConnectionReadyShm shm)"
    and "decode_server_frame_owned lz wc bs = Ok (SF_ConnectionReadyShm shm)"
  using ready_shm_codec.control_roundtrip [OF assms] by (auto simp: router_defs tag_defs)

end
