(* ===== verification/Codec_Properties.thy ===== *)
theory Codec_Properties
  imports Frames
begin

text \<open>
  The properties of the wire formats of \<open>src/types.rs\<close>, over the codecs of \<open>Account_Update\<close>,
  \<open>Stream_Updates\<close> and \<open>Control_Messages\<close> and the routers of \<open>Frames\<close>: round trips, canonical forms,
  self-delimiting frames, the compression policy, and that no input makes a decoder panic.
\<close>

section \<open>Account updates\<close>

lemma run_compress_replicate:
  assumes "0 < n" and "n < 2 ^ 32"
  shows "run_compress (replicate n x) = 1 # x # u32_to_le (of_nat n)"
proof -
  obtain k where "n = Suc k"
    using assms(1) by (cases n) auto
  then show ?thesis
    using assms(2) by (simp add: list_all_iff)
qed

text \<open>An account with 600000 equal bytes, which the sample probe finds compressible.\<close>

definition large_update :: account_update where
  "large_update =
     \<lparr>au_account_pubkey = replicate 32 7, au_account_owner = replicate 32 8, au_lamports = 5,
      au_executable = True, au_rent_epoch = 1, au_slot = 9, au_write_version = 3,
      au_payload = AccountPayload (replicate 600000 171)\<rparr>"

lemma large_update_wf: "wf_account_update large_update"
  by (simp add: wf_account_update_def large_update_def wf_pubkey_def const_defs)

lemma large_update_compressed:
  "wire_payload_of run_length_lz4 (replicate 600000 171) = (1, 1 # 171 # u32_to_le 600000)"
proof -
  have sample: "lz_compress run_length_lz4 (replicate 8192 171) = 1 # 171 # u32_to_le 8192"
    using run_compress_replicate [of 8192 171] by (simp add: run_length_lz4_def)
  have whole: "lz_compress run_length_lz4 (replicate 600000 171) = 1 # 171 # u32_to_le 600000"
    using run_compress_replicate [of 600000 171] by (simp add: run_length_lz4_def)
  have "should_attempt_lz4 run_length_lz4 (replicate 600000 171)"
    by (simp add: should_attempt_lz4_def const_defs sample Let_def)
  then show ?thesis
    by (simp add: wire_payload_of_def whole const_defs)
qed

text \<open>
  C15: an account update survives the wire. Every well-formed update encodes, compressed or not, into
  a frame of bounded size, and the borrowing decoder, the owning decoder and the router all give the
  same update back with the timestamp it was encoded with.
\<close>

theorem account_update_roundtrip:
  assumes "lz4_lossless lz" and "wf_account_update u"
  shows "\<exists>h p. account_encode_parts_at lz u t = Ok (h, p) \<and>
    length h = ACCOUNT_UPDATE_FIXED_BYTES \<and> length p \<le> length (ap_bytes (au_payload u)) \<and>
    account_decode_with_meta lz (h @ p) = Ok (u, \<lparr>sender_created_at_unix_nanos = t\<rparr>) \<and>
    account_decode_owned_with_meta lz (h @ p) = Ok (u, \<lparr>sender_created_at_unix_nanos = t\<rparr>) \<and>
    decode_server_frame_owned_with_meta lz wc (h @ p) =
      Ok (SM_AccountUpdate u \<lparr>sender_created_at_unix_nanos = t\<rparr>)"
proof -
  obtain h p where e: "account_encode_parts_at lz u t = Ok (h, p)"
    using account_codec.encode_total [OF assms(2)] by blast
  have "length h = ACCOUNT_UPDATE_FIXED_BYTES" and "length p \<le> length (ap_bytes (au_payload u))"
    by (rule account_encode_Ok [OF e]; use assms(2) in \<open>simp add: length_account_header wf_account_update_def\<close>)+
  then show ?thesis
    using e account_codec.roundtrip [OF assms e] routed_account [OF assms e]
    by (simp add: account_decode_owned_eq)
qed

theorem account_update_roundtrip_witness:
  "\<exists>h. account_encode_parts_at run_length_lz4 large_update 77 = Ok (h, 1 # 171 # u32_to_le 600000) \<and>
     account_decode_with_meta run_length_lz4 (h @ 1 # 171 # u32_to_le 600000) =
       Ok (large_update, \<lparr>sender_created_at_unix_nanos = 77\<rparr>)"
proof -
  obtain h p where e: "account_encode_parts_at run_length_lz4 large_update 77 = Ok (h, p)"
      and d: "account_decode_with_meta run_length_lz4 (h @ p) = Ok (large_update, \<lparr>sender_created_at_unix_nanos = 77\<rparr>)"
    using account_update_roundtrip [OF run_length_lossless large_update_wf, of 77] by blast
  have "p = 1 # 171 # u32_to_le 600000"
    by (rule account_encode_Ok [OF e]) (simp add: large_update_def large_update_compressed)
  with e d show ?thesis by blast
qed

text \<open>
  What the account decoder accepts is well-formed and can be sent on: it has 32-byte keys and a
  payload within the limit, its encoding decodes to it again, and the frame carried the version and
  the tag of an account update. The decoder never panics.
\<close>

theorem account_decode_sound:
  assumes "lz4_lossless lz" and "account_decode_with_meta lz bs = Ok (u, m)"
  shows "wf_account_update u \<and> (\<exists>rest. bs = WIRE_VERSION # UPDATE_TAG # rest) \<and>
    (\<exists>h p. account_encode_parts_at lz u (sender_created_at_unix_nanos m) = Ok (h, p) \<and>
       account_decode_with_meta lz (h @ p) = Ok (u, m))"
proof -
  have wf: "wf_account_update u"
    by (rule account_codec.dec_wf [OF assms(2)])
  obtain h p where "account_encode_parts_at lz u (sender_created_at_unix_nanos m) = Ok (h, p)"
    using account_codec.encode_total [OF wf] by blast
  with account_codec.roundtrip [OF assms(1) wf this] account_codec.dec_tag [OF assms(2)] wf show ?thesis
    by simp
qed

theorem account_decode_sound_witness:
  "\<exists>bs u m. account_decode_with_meta run_length_lz4 bs = Ok (u, m) \<and> wf_account_update u"
proof -
  obtain h p where "account_encode_parts_at run_length_lz4 large_update 5 = Ok (h, p)"
    using account_codec.encode_total [OF large_update_wf] by blast
  then have d: "account_decode_with_meta run_length_lz4 (h @ p) = Ok (large_update, \<lparr>sender_created_at_unix_nanos = 5\<rparr>)"
    by (rule account_codec.roundtrip [OF run_length_lossless large_update_wf])
  from account_decode_sound [OF run_length_lossless d] d show ?thesis by blast
qed

lemma take_u32_le_value:
  "take_u32_le bs c = Ok (w, c') \<Longrightarrow> c' = c + 4 \<and> w = u32_from_le (take 4 (drop c bs))"
  by (auto simp: take_u32_le_def bindR_eq_Ok dest!: take_exact_Ok split: if_splits)

text \<open>The payload length an account frame announces, at its fixed offset.\<close>

lemma account_parse_wire_len:
  assumes "account_parse bs = Ok d"
  shows "da_wire_payload_len d = unat (u32_from_le (take 4 (drop 112 bs)))"
proof -
  define P where "P c w \<longleftrightarrow> take_u32_le bs c = Ok (w, c + 4)" for c w
  have u32: "c' = c + 4 \<and> P c w" if "take_u32_le bs c = Ok (w, c')" for c c' w
    using that take_u32_le_value [OF that] by (simp add: P_def)
  have "\<exists>w. P 112 w \<and> da_wire_payload_len d = unat w"
    using assms unfolding account_parse_def
    by (auto simp: bindR_eq_Ok Let_def split: if_splits
        dest!: u32 rd_u8.read_cursor rd_u64.read_cursor rd_a32.read_cursor)
  then show ?thesis
    using take_u32_le_value unfolding P_def by blast
qed

text \<open>
  Account frames delimit themselves: of two accepted frames neither is a proper prefix of the
  other, so trailing bytes and truncation are always noticed.
\<close>

theorem account_frames_prefix_free:
  assumes "account_decode_with_meta lz bs = Ok (u, m)" and "account_decode_with_meta lz (bs @ extra) = Ok (u', m')"
  shows "extra = [] \<and> u' = u \<and> m' = m"
proof -
  obtain d where d: "account_parse bs = Ok d"
    by (rule account_decode_Ok [OF assms(1)])
  obtain d' where d': "account_parse (bs @ extra) = Ok d'"
    by (rule account_decode_Ok [OF assms(2)])
  note len = account_parse_Ok(5) [OF d] account_parse_Ok(5) [OF d']
  have "116 \<le> length bs"
    using len(1) by (simp add: const_defs)
  then have same: "take 4 (drop 112 (bs @ extra)) = take 4 (drop 112 bs)"
    by simp
  have "da_wire_payload_len d' = da_wire_payload_len d"
    unfolding account_parse_wire_len [OF d] account_parse_wire_len [OF d'] same ..
  with len have "extra = []"
    by simp
  with assms show ?thesis by simp
qed

theorem account_frames_prefix_free_witness:
  "\<exists>bs u m. account_decode_with_meta run_length_lz4 bs = Ok (u, m) \<and>
     (\<forall>u' m'. account_decode_with_meta run_length_lz4 (bs @ [0]) \<noteq> Ok (u', m'))"
proof -
  obtain h p where "account_encode_parts_at run_length_lz4 large_update 5 = Ok (h, p)"
    using account_codec.encode_total [OF large_update_wf] by blast
  then have d: "account_decode_with_meta run_length_lz4 (h @ p) = Ok (large_update, \<lparr>sender_created_at_unix_nanos = 5\<rparr>)"
    by (rule account_codec.roundtrip [OF run_length_lossless large_update_wf])
  from account_frames_prefix_free [OF d] d show ?thesis
    by (intro exI [of _ "h @ p"]) blast
qed

text \<open>
  The compression policy. The wire payload is the raw payload, or its compression when that is
  strictly smaller; it is never larger than the raw payload, and payloads under 500 KiB are never
  compressed. The flag byte says which of the two it is.
\<close>

theorem compression_policy:
  "case wire_payload_of lz raw of (flags, wire) \<Rightarrow>
     length wire \<le> length raw \<and>
     (flags = 0 \<and> wire = raw \<or>
      flags = ACCOUNT_UPDATE_FLAG_LZ4 \<and> wire = lz_compress lz raw \<and> length wire < length raw \<and>
      500 * 1024 \<le> length raw)"
proof -
  obtain flags wire where w: "wire_payload_of lz raw = (flags, wire)"
    by force
  then show ?thesis
    by (cases rule: wire_payload_of_cases)
      (auto simp: w should_attempt_lz4_def const_defs split: if_splits)
qed



section \<open>Transactions and slots\<close>

text \<open>
  C21: transaction frames are canonical: a byte string decodes to an update and a timestamp exactly
  when the update is well-formed and the string is its encoding at that time. So decoding inverts
  encoding, encodings are unique, and nothing else is accepted.
\<close>

theorem transaction_frames_canonical:
  "transaction_decode_with_meta bs = Ok (u, \<lparr>sender_created_at_unix_nanos = t\<rparr>) \<longleftrightarrow>
     wf_transaction_update u \<and> (\<exists>h p. transaction_encode_parts_at u t = Ok (h, p) \<and> bs = h @ p)"
proof
  assume d: "transaction_decode_with_meta bs = Ok (u, \<lparr>sender_created_at_unix_nanos = t\<rparr>)"
  show "wf_transaction_update u \<and> (\<exists>h p. transaction_encode_parts_at u t = Ok (h, p) \<and> bs = h @ p)"
    using transaction_codec.dec_wf [OF d] transaction_canonical [OF d]
    by (auto simp: transaction_encode_def bindR_eq_Ok)
next
  assume "wf_transaction_update u \<and> (\<exists>h p. transaction_encode_parts_at u t = Ok (h, p) \<and> bs = h @ p)"
  then show "transaction_decode_with_meta bs = Ok (u, \<lparr>sender_created_at_unix_nanos = t\<rparr>)"
    using transaction_codec.roundtrip [OF TrueI] by auto
qed

text \<open>
  Slot frames are canonical in the same sense, and there is exactly one of 18 bytes for every
  slot and timestamp.
\<close>

theorem slot_frames_canonical:
  "slot_decode_with_meta bs = Ok (u, \<lparr>sender_created_at_unix_nanos = t\<rparr>) \<longleftrightarrow>
     (slot_encode u t = Ok bs \<and> length bs = SLOT_UPDATE_FIXED_BYTES)"
proof
  assume d: "slot_decode_with_meta bs = Ok (u, \<lparr>sender_created_at_unix_nanos = t\<rparr>)"
  from slot_canonical [OF d] have "slot_encode u t = Ok bs"
    by simp
  then show "slot_encode u t = Ok bs \<and> length bs = SLOT_UPDATE_FIXED_BYTES"
    by (auto simp: slot_encode_def slot_encode_parts_at_def const_defs)
next
  assume "slot_encode u t = Ok bs \<and> length bs = SLOT_UPDATE_FIXED_BYTES"
  then show "slot_decode_with_meta bs = Ok (u, \<lparr>sender_created_at_unix_nanos = t\<rparr>)"
    by (auto simp: slot_encode_def slot_encode_parts_at_def slot_decode_frame)
qed


section \<open>Routers\<close>

lemma forget_update:
  "mapR forget_meta (bindR r1 (\<lambda>(u, m). Ok (SM_AccountUpdate u m))) = mapR SF_AccountUpdate (mapR (\<lambda>(u, _). u) r1)"
  "mapR forget_meta (bindR r2 (\<lambda>(u, m). Ok (SM_TransactionUpdate u m))) =
     mapR SF_TransactionUpdate (mapR (\<lambda>(u, _). u) r2)"
  "mapR forget_meta (bindR r3 (\<lambda>(u, m). Ok (SM_SlotUpdate u m))) = mapR SF_SlotUpdate (mapR (\<lambda>(u, _). u) r3)"
  by - ((cases r1; force), (cases r2; force), (cases r3; force))

lemma forget_ready:
  "mapR forget_meta (mapR SM_ConnectionReady r) = mapR SF_ConnectionReady r"
  "mapR forget_meta (mapR SM_ConnectionReadyShm s) = mapR SF_ConnectionReadyShm s"
  by - ((cases r; simp), (cases s; simp))

lemma routers_same:
  "decode_server_frame_owned lz wc bs = decode_server_frame lz wc bs"
  "mapR forget_meta (decode_server_frame_owned_with_meta lz wc bs) = decode_server_frame lz wc bs"
  by (cases "wire_tag bs"; simp add: router_defs decoder_defs owned_eqs forget_update forget_ready)+

text \<open>
  C26: the three server-side routers agree. The owning router gives the result of the borrowing one,
  errors included, and the router with metadata gives the same frame and the same errors.
\<close>

theorem routers_agree:
  "decode_server_frame_owned lz wc bs = decode_server_frame lz wc bs \<and>
   mapR forget_meta (decode_server_frame_owned_with_meta lz wc bs) = decode_server_frame lz wc bs"
  using routers_same by blast

text \<open>
  C25: no byte string makes a decoder panic. All four routers return a value or an error on every
  input, whatever the compression and serialization crates answer.
\<close>

theorem routers_never_panic:
  "decode_client_frame wc bs \<noteq> Panic \<and> decode_server_frame lz wc bs \<noteq> Panic \<and>
   decode_server_frame_owned lz wc bs \<noteq> Panic \<and> decode_server_frame_owned_with_meta lz wc bs \<noteq> Panic"
  using routers_no_panic by blast

text \<open>What a frame of each kind promises, and the tag byte it came with.\<close>

fun client_frame_ok :: "bytes \<Rightarrow> client_frame \<Rightarrow> bool" where
  "client_frame_ok bs (Subscription r) \<longleftrightarrow> wire_tag bs = Ok REQUEST_SUBSCRIBE_TAG \<and> (\<forall>t. sr_slot_token r = Some t \<longrightarrow> wf_token t)"
| "client_frame_ok bs (Ping p) \<longleftrightarrow> wire_tag bs = Ok REQUEST_PING_TAG \<and> wf_token (pr_slot_token p)"

fun server_frame_ok :: "bytes \<Rightarrow> server_frame \<Rightarrow> bool" where
  "server_frame_ok bs (SF_AccountUpdate u) \<longleftrightarrow> wire_tag bs = Ok UPDATE_TAG \<and> wf_account_update u"
| "server_frame_ok bs (SF_TransactionUpdate u) \<longleftrightarrow> wire_tag bs = Ok TRANSACTION_UPDATE_TAG \<and> wf_transaction_update u"
| "server_frame_ok bs (SF_SlotUpdate u) \<longleftrightarrow> wire_tag bs = Ok SLOT_UPDATE_TAG \<and> length bs = SLOT_UPDATE_FIXED_BYTES"
| "server_frame_ok bs (SF_ConnectionReady r) \<longleftrightarrow> wire_tag bs = Ok READY_TAG \<and> wf_token (cr_slot_token r)"
| "server_frame_ok bs (SF_ConnectionReadyShm r) \<longleftrightarrow> wire_tag bs = Ok READY_SHM_TAG \<and> wf_token (ch_slot_token r) \<and>
     ch_ring_path r \<noteq> [] \<and> ch_ring_capacity r \<noteq> 0"

lemma client_frame_typed: "decode_client_frame wc bs = Ok f \<Longrightarrow> client_frame_ok bs f"
  by (auto simp: decode_client_frame_def bindR_eq_Ok mapR_eq_Ok subscription_decode_def ping_decode_def wf_token_def
      slot_token_new_def split: if_splits)

lemma control_reply_typed:
  "ready_decode wc bs = Ok r \<Longrightarrow> wf_token (cr_slot_token r)"
  "ready_shm_decode wc bs = Ok h \<Longrightarrow> wf_token (ch_slot_token h) \<and> ch_ring_path h \<noteq> [] \<and> ch_ring_capacity h \<noteq> 0"
  by (auto simp: ready_decode_def ready_shm_decode_def bindR_eq_Ok wf_token_def slot_token_new_def split: if_splits)

lemma slot_decode_length: "slot_decode_with_meta bs = Ok (u, m) \<Longrightarrow> length bs = SLOT_UPDATE_FIXED_BYTES"
  using slot_frames_canonical [of bs u "sender_created_at_unix_nanos m"] by simp

lemma server_frame_typed:
  assumes "decode_server_frame lz wc bs = Ok g"
  shows "server_frame_ok bs g"
  using assms account_codec.dec_wf transaction_codec.dec_wf slot_decode_length control_reply_typed
  by (auto simp: decode_server_frame_def bindR_eq_Ok mapR_eq_Ok account_decode_def transaction_decode_def slot_decode_def
      split: if_splits)

text \<open>
  C24: every frame that a router returns is well-typed: its kind is the one the tag byte announced, account
  and transaction updates have keys, signature and payload within their sizes, a slot update comes from
  exactly 18 bytes, and every token, ring path and ring capacity of a control message is set.
\<close>

theorem routers_well_typed:
  "(\<forall>f. decode_client_frame wc bs = Ok f \<longrightarrow> client_frame_ok bs f) \<and>
   (\<forall>g. decode_server_frame lz wc bs = Ok g \<longrightarrow> server_frame_ok bs g) \<and>
   (\<forall>g. decode_server_frame_owned lz wc bs = Ok g \<longrightarrow> server_frame_ok bs g) \<and>
   (\<forall>h. decode_server_frame_owned_with_meta lz wc bs = Ok h \<longrightarrow> server_frame_ok bs (forget_meta h))"
proof -
  have "decode_server_frame_owned lz wc bs = decode_server_frame lz wc bs"
      "mapR forget_meta (decode_server_frame_owned_with_meta lz wc bs) = decode_server_frame lz wc bs"
    by (rule routers_same)+
  then show ?thesis
    using client_frame_typed server_frame_typed by (metis mapR.simps(1))
qed

theorem routers_well_typed_witness:
  "\<exists>bs u. decode_server_frame run_length_lz4 plain_wincode bs = Ok (SF_AccountUpdate u) \<and> wire_tag bs = Ok UPDATE_TAG \<and> wf_account_update u"
proof -
  obtain h p where e: "account_encode_parts_at run_length_lz4 large_update 5 = Ok (h, p)"
    using account_codec.encode_total [OF large_update_wf] by blast
  have "decode_server_frame run_length_lz4 plain_wincode (h @ p) = Ok (SF_AccountUpdate large_update)"
    using account_codec.roundtrip [OF run_length_lossless large_update_wf e] account_codec.frame_tag [OF e]
    by (simp add: decode_server_frame_def account_decode_def)
  moreover from this have "server_frame_ok (h @ p) (SF_AccountUpdate large_update)"
    using routers_well_typed [of plain_wincode "h @ p" run_length_lz4] by blast
  ultimately show ?thesis
    by auto
qed



end
