(* ===== verification/Subscription_Filter.thy ===== *)
theory Subscription_Filter
  imports Account_Update Control_Messages
begin

text \<open>
  \<open>SubscriptionFilter\<close> of \<open>src/sender/mod.rs\<close>: what a connection subscribed to, with the fast paths of
  \<open>matches_account\<close> (a single key, and the Bloom filter for large subscriptions). A \<open>HashSet\<close> is a
  list without repetitions; the list order stands for its iteration order. The Bloom filter is the
  third-party \<open>solana_bloom\<close>, a parameter with the documented guarantee that it has no false negatives.
\<close>

section \<open>The Bloom filter parameter\<close>

text \<open>\<open>bl_random\<close> takes the number of items, the false positive rate as a fraction, and the maximal number of bits.\<close>

record 'b bloom =
  bl_random :: "nat \<Rightarrow> nat \<times> nat \<Rightarrow> nat \<Rightarrow> 'b"
  bl_add :: "'b \<Rightarrow> bytes \<Rightarrow> 'b"
  bl_contains :: "'b \<Rightarrow> bytes \<Rightarrow> bool"

definition bloom_ok :: "'b bloom \<Rightarrow> bool" where
  "bloom_ok bl \<longleftrightarrow>
     (\<forall>b x. bl_contains bl (bl_add bl b x) x) \<and>
     (\<forall>b x y. bl_contains bl b y \<longrightarrow> bl_contains bl (bl_add bl b x) y)"

text \<open>A concrete instance, with false positives: it remembers the first byte of each key.\<close>

definition first_byte_bloom :: "bytes list bloom" where
  "first_byte_bloom =
     \<lparr>bl_random = (\<lambda>n rate bits. []), bl_add = (\<lambda>b x. take 1 x # b), bl_contains = (\<lambda>b x. take 1 x \<in> set b)\<rparr>"

lemma first_byte_bloom_ok: "bloom_ok first_byte_bloom"
  by (simp add: bloom_ok_def first_byte_bloom_def)


section \<open>Source definitions\<close>

record 'b subscription_filter =
  sf_account_pubkeys :: "pubkey list"
  sf_account_owners :: "pubkey list"
  sf_bloom :: 'b
  sf_include_transactions :: bool
  sf_single_pubkey :: "pubkey option"
  sf_single_owner :: "pubkey option"
  sf_use_bloom_fast_reject :: bool

definition single :: "pubkey list \<Rightarrow> pubkey option" where
  "single xs = (if length xs = 1 then Some (hd xs) else None)"

definition filter_from_sets ::
  "'b bloom \<Rightarrow> pubkey list \<Rightarrow> pubkey list \<Rightarrow> bool \<Rightarrow> 'b subscription_filter" where
  "filter_from_sets bl account_pubkeys account_owners include_transactions =
     (let requested_items = length account_pubkeys + length account_owners;
          bloom0 = bl_random bl (max requested_items 1) (1, 1000) (2 ^ 20);
          bloom1 = fold (\<lambda>k b. bl_add bl b k) account_pubkeys bloom0;
          bloom2 = fold (\<lambda>k b. bl_add bl b k) account_owners bloom1
      in \<lparr>sf_account_pubkeys = account_pubkeys, sf_account_owners = account_owners,
          sf_bloom = bloom2, sf_include_transactions = include_transactions,
          sf_single_pubkey = single account_pubkeys, sf_single_owner = single account_owners,
          sf_use_bloom_fast_reject = (requested_items > 16)\<rparr>)"

text \<open>\<open>HashSet::insert\<close> in a loop, and \<open>extend\<close>.\<close>

definition hash_extend :: "pubkey list \<Rightarrow> pubkey list \<Rightarrow> pubkey list" where
  "hash_extend s xs = fold List.insert xs s"

definition filter_from_request :: "'b bloom \<Rightarrow> subscription_request \<Rightarrow> 'b subscription_filter" where
  "filter_from_request bl req =
     filter_from_sets bl (hash_extend [] (sr_account_pubkeys req)) (hash_extend [] (sr_account_owners req))
       (sr_include_transactions req)"

definition filter_with_request ::
  "'b bloom \<Rightarrow> 'b subscription_filter \<Rightarrow> subscription_request \<Rightarrow> 'b subscription_filter" where
  "filter_with_request bl f req =
     filter_from_sets bl (hash_extend (sf_account_pubkeys f) (sr_account_pubkeys req))
       (hash_extend (sf_account_owners f) (sr_account_owners req))
       (sf_include_transactions f \<or> sr_include_transactions req)"

text \<open>The last two steps of \<open>matches_account\<close>: the Bloom filter's quick rejection, then the sets.\<close>

definition matches_by_sets :: "'b bloom \<Rightarrow> 'b subscription_filter \<Rightarrow> account_update \<Rightarrow> bool" where
  "matches_by_sets bl f update =
     (if sf_use_bloom_fast_reject f \<and>
         \<not> bl_contains bl (sf_bloom f) (au_account_pubkey update) \<and>
         \<not> bl_contains bl (sf_bloom f) (au_account_owner update)
      then False
      else List.member (sf_account_pubkeys f) (au_account_pubkey update) \<or>
           List.member (sf_account_owners f) (au_account_owner update))"

definition matches_account :: "'b bloom \<Rightarrow> 'b subscription_filter \<Rightarrow> account_update \<Rightarrow> bool" where
  "matches_account bl f update =
     (case (sf_single_pubkey f, sf_single_owner f) of
        (Some pubkey, None) \<Rightarrow>
          (if sf_account_owners f = [] then pubkey = au_account_pubkey update
           else matches_by_sets bl f update)
      | (None, Some owner) \<Rightarrow>
          (if sf_account_pubkeys f = [] then owner = au_account_owner update
           else matches_by_sets bl f update)
      | (Some pubkey, Some owner) \<Rightarrow>
          (if length (sf_account_pubkeys f) = 1 \<and> length (sf_account_owners f) = 1
           then pubkey = au_account_pubkey update \<or> owner = au_account_owner update
           else matches_by_sets bl f update)
      | (None, None) \<Rightarrow> matches_by_sets bl f update)"

definition matches_transaction :: "'b subscription_filter \<Rightarrow> bool" where
  "matches_transaction f = sf_include_transactions f"


section \<open>The contract of a filter\<close>

text \<open>What a request asks for.\<close>

definition wants_account :: "subscription_request \<Rightarrow> account_update \<Rightarrow> bool" where
  "wants_account req update \<longleftrightarrow>
     au_account_pubkey update \<in> set (sr_account_pubkeys req) \<or>
     au_account_owner update \<in> set (sr_account_owners req)"

text \<open>
  A filter made from a first request and extended by later ones: it matches what one of the
  requests asks for, and nothing else.
\<close>

locale request_filter =
  fixes first :: "subscription_request \<Rightarrow> 'f"
    and extend :: "'f \<Rightarrow> subscription_request \<Rightarrow> 'f"
    and account :: "'f \<Rightarrow> account_update \<Rightarrow> bool"
    and transaction :: "'f \<Rightarrow> bool"
    and invar :: "'f \<Rightarrow> bool"
    and ext_ok :: bool
  assumes first_invar: "ext_ok \<Longrightarrow> invar (first req)"
    and extend_invar: "ext_ok \<Longrightarrow> invar f \<Longrightarrow> invar (extend f req)"
    and first_account: "ext_ok \<Longrightarrow> account (first req) u \<longleftrightarrow> wants_account req u"
    and extend_account: "ext_ok \<Longrightarrow> invar f \<Longrightarrow>
      account (extend f req) u \<longleftrightarrow> account f u \<or> wants_account req u"
    and first_transaction: "transaction (first req) \<longleftrightarrow> sr_include_transactions req"
    and extend_transaction: "transaction (extend f req) \<longleftrightarrow> transaction f \<or> sr_include_transactions req"
begin

lemma extend_all_invar:
  assumes "ext_ok" and "invar f"
  shows "invar (foldl extend f reqs)"
  using assms by (induction reqs arbitrary: f) (simp_all add: extend_invar)

lemma extend_all_account:
  assumes "ext_ok" and "invar f"
  shows "account (foldl extend f reqs) u \<longleftrightarrow> account f u \<or> (\<exists>r \<in> set reqs. wants_account r u)"
  using assms by (induction reqs arbitrary: f) (auto simp: extend_invar extend_account)

lemma extend_all_transaction:
  "transaction (foldl extend f reqs) \<longleftrightarrow> transaction f \<or> (\<exists>r \<in> set reqs. sr_include_transactions r)"
  by (induction reqs arbitrary: f) (auto simp: extend_transaction)

lemma accumulated:
  assumes "ext_ok"
  shows "account (foldl extend (first r) rs) u \<longleftrightarrow> (\<exists>req \<in> set (r # rs). wants_account req u)"
    and "transaction (foldl extend (first r) rs) \<longleftrightarrow> (\<exists>req \<in> set (r # rs). sr_include_transactions req)"
  by (simp_all add: assms extend_all_account first_invar first_account extend_all_transaction
      first_transaction)

end


section \<open>The filter provides it\<close>

text \<open>The fields \<open>from_sets\<close> derives from the two sets, and the Bloom filter covering both of them.\<close>

definition filter_invar :: "'b bloom \<Rightarrow> 'b subscription_filter \<Rightarrow> bool" where
  "filter_invar bl f \<longleftrightarrow>
     distinct (sf_account_pubkeys f) \<and> distinct (sf_account_owners f) \<and>
     sf_single_pubkey f = single (sf_account_pubkeys f) \<and>
     sf_single_owner f = single (sf_account_owners f) \<and>
     (\<forall>k \<in> set (sf_account_pubkeys f) \<union> set (sf_account_owners f). bl_contains bl (sf_bloom f) k)"

lemma bloom_fold_keeps:
  "bloom_ok bl \<Longrightarrow> bl_contains bl b y \<Longrightarrow> bl_contains bl (fold (\<lambda>k b. bl_add bl b k) xs b) y"
  by (induction xs arbitrary: b) (simp_all add: bloom_ok_def)

lemma bloom_fold_adds:
  "bloom_ok bl \<Longrightarrow> y \<in> set xs \<Longrightarrow> bl_contains bl (fold (\<lambda>k b. bl_add bl b k) xs b) y"
proof (induction xs arbitrary: b)
  case (Cons x xs)
  show ?case
  proof (cases "y = x")
    case True
    with Cons.prems(1) show ?thesis
      by (simp add: bloom_fold_keeps bloom_ok_def)
  qed (use Cons in simp)
qed simp

lemma hash_extend_set: "set (hash_extend s xs) = set s \<union> set xs"
  unfolding hash_extend_def by (induction xs arbitrary: s) auto

lemma hash_extend_distinct: "distinct s \<Longrightarrow> distinct (hash_extend s xs)"
  unfolding hash_extend_def by (induction xs arbitrary: s) simp_all

lemma from_sets_invar:
  "bloom_ok bl \<Longrightarrow> distinct ps \<Longrightarrow> distinct os \<Longrightarrow> filter_invar bl (filter_from_sets bl ps os t)"
  by (auto simp: filter_invar_def filter_from_sets_def Let_def bloom_fold_adds
      intro: bloom_fold_keeps)

lemma from_sets_fields [simp]:
  "sf_account_pubkeys (filter_from_sets bl ps os t) = ps"
  "sf_account_owners (filter_from_sets bl ps os t) = os"
  "sf_include_transactions (filter_from_sets bl ps os t) = t"
  by (simp_all add: filter_from_sets_def Let_def)

lemma single_eq_Some: "single xs = Some x \<longleftrightarrow> xs = [x]"
  by (cases xs) (auto simp: single_def split: if_splits)

text \<open>The fast paths agree with the two set lookups.\<close>

lemma matches_account_sets:
  assumes "filter_invar bl f"
  shows "matches_account bl f u \<longleftrightarrow>
    au_account_pubkey u \<in> set (sf_account_pubkeys f) \<or> au_account_owner u \<in> set (sf_account_owners f)"
proof -
  have sets: "matches_by_sets bl f u \<longleftrightarrow>
    au_account_pubkey u \<in> set (sf_account_pubkeys f) \<or> au_account_owner u \<in> set (sf_account_owners f)"
    using assms by (auto simp: matches_by_sets_def filter_invar_def)
  show ?thesis
    using assms
    by (auto simp: matches_account_def sets filter_invar_def single_eq_Some split: option.splits)
qed

lemma with_request_invar:
  assumes "bloom_ok bl" and "filter_invar bl f"
  shows "filter_invar bl (filter_with_request bl f req)"
proof -
  have "distinct (sf_account_pubkeys f)" "distinct (sf_account_owners f)"
    using assms(2) by (simp_all add: filter_invar_def)
  with assms(1) show ?thesis
    by (simp add: filter_with_request_def from_sets_invar hash_extend_distinct)
qed

interpretation subscription: request_filter "filter_from_request bl" "filter_with_request bl"
  "matches_account bl" matches_transaction "filter_invar bl" "bloom_ok bl" for bl
proof (unfold_locales, goal_cases)
  case (1 req)
  then show ?case
    by (simp add: filter_from_request_def from_sets_invar hash_extend_distinct)
next
  case (2 f req)
  then show ?case by (rule with_request_invar)
next
  case (3 req u)
  then show ?case
    by (simp add: filter_from_request_def matches_account_sets from_sets_invar hash_extend_distinct
        hash_extend_set wants_account_def)
next
  case (4 f req u)
  then have "filter_invar bl (filter_with_request bl f req)"
    by (rule with_request_invar)
  with 4 show ?case
    by (auto simp: matches_account_sets wants_account_def filter_with_request_def hash_extend_set)
qed (auto simp: matches_transaction_def filter_from_request_def filter_with_request_def)


section \<open>Properties of the filter\<close>

text \<open>
  C16: a filter built from a first subscription request and extended by any further ones matches an
  account update exactly when one of the requests names its key or its owner, and transactions
  exactly when one of them asked for transactions. The single-key fast paths and the Bloom
  rejection never change the answer.
\<close>

theorem filter_matches_requests:
  assumes "bloom_ok bl"
  shows "(matches_account bl (foldl (filter_with_request bl) (filter_from_request bl r) rs) u \<longleftrightarrow>
      (\<exists>req \<in> set (r # rs). wants_account req u)) \<and>
    (matches_transaction (foldl (filter_with_request bl) (filter_from_request bl r) rs) \<longleftrightarrow>
      (\<exists>req \<in> set (r # rs). sr_include_transactions req))"
  using subscription.accumulated [OF assms] by blast

text \<open>Two requests, of 20 keys and of an owner: the filter rejects by Bloom filter and by sets.\<close>

definition key_of :: "nat \<Rightarrow> pubkey" where
  "key_of n = replicate 32 (of_nat n)"

definition sample_update :: "nat \<Rightarrow> nat \<Rightarrow> account_update" where
  "sample_update k owner =
     \<lparr>au_account_pubkey = key_of k, au_account_owner = key_of owner, au_lamports = 5, au_executable = False,
      au_rent_epoch = 0, au_slot = 9, au_write_version = 1, au_payload = AccountPayload [1, 2, 3]\<rparr>"

theorem filter_matches_requests_witness:
  "let f = foldl (filter_with_request first_byte_bloom)
        (filter_from_request first_byte_bloom (subscription_new (map key_of [0..<20]) []))
        [subscription_new [] [key_of 50], with_transactions (subscription_new [] [])]
   in matches_account first_byte_bloom f (sample_update 7 99) \<and>
      matches_account first_byte_bloom f (sample_update 98 50) \<and>
      \<not> matches_account first_byte_bloom f (sample_update 98 99) \<and>
      matches_transaction f"
  unfolding Let_def filter_matches_requests [OF first_byte_bloom_ok, THEN conjunct1]
    filter_matches_requests [OF first_byte_bloom_ok, THEN conjunct2]
  by code_simp

end
