(* ===== verification/Shaq_Param.thy ===== *)
theory Shaq_Param
  imports Prelude
begin

text \<open>
  The byte queue of the third-party crate \<open>shaq\<close> (\<open>shaq::mpmc::{Producer, Consumer}<u8>\<close>) as a
  parameter: the functions \<open>src/shm/ring.rs\<close> calls, over an abstract queue state \<open>'q\<close> that stands for
  the mapped region both sides share. \<open>sq_reserve\<close> is \<open>reserve_read_batch\<close> together with reading
  the batch and dropping it. The last two fields observe the state for specifications only.

  \<open>shaq_ok\<close> is the documented behaviour the ring relies on: a slice is published whole or not at all,
  it is refused exactly when it does not fit, a read takes at most the requested number of bytes
  from the front, and nothing is read from an empty queue. \<open>list_shaq\<close> is a concrete instance,
  used to show that the assumptions can hold.
\<close>

record 'q shaq =
  sq_minimum_file_size :: "nat \<Rightarrow> nat"
  sq_create :: "nat \<Rightarrow> string + 'q"
  sq_write :: "'q \<Rightarrow> bytes \<Rightarrow> bool \<times> 'q"
  sq_reserve :: "'q \<Rightarrow> nat \<Rightarrow> (bytes \<times> 'q) option"
  sq_contents :: "'q \<Rightarrow> bytes"
  sq_room :: "'q \<Rightarrow> nat"

definition shaq_ok :: "'q shaq \<Rightarrow> bool" where
  "shaq_ok sq \<longleftrightarrow>
     (\<forall>k q. sq_create sq (sq_minimum_file_size sq (2 ^ k)) = Inr q \<longrightarrow>
        sq_contents sq q = [] \<and> sq_room sq q = 2 ^ k) \<and>
     (\<forall>q bs ok q'. sq_write sq q bs = (ok, q') \<longrightarrow>
        ok = (length (sq_contents sq q) + length bs \<le> sq_room sq q) \<and>
        sq_contents sq q' = (if ok then sq_contents sq q @ bs else sq_contents sq q) \<and>
        sq_room sq q' = sq_room sq q) \<and>
     (\<forall>q n. 0 < n \<longrightarrow> sq_reserve sq q n = None \<longrightarrow> sq_contents sq q = []) \<and>
     (\<forall>q n batch q'. 0 < n \<longrightarrow> sq_reserve sq q n = Some (batch, q') \<longrightarrow>
        sq_contents sq q \<noteq> [] \<and> batch = take n (sq_contents sq q) \<and>
        sq_contents sq q' = drop n (sq_contents sq q) \<and> sq_room sq q' = sq_room sq q)"

lemma shaq_write:
  assumes "shaq_ok sq"
  obtains q' where "sq_write sq q bs = (length (sq_contents sq q) + length bs \<le> sq_room sq q, q')"
    and "sq_contents sq q' = (if length (sq_contents sq q) + length bs \<le> sq_room sq q
           then sq_contents sq q @ bs else sq_contents sq q)"
    and "sq_room sq q' = sq_room sq q"
proof -
  obtain ok q' where w: "sq_write sq q bs = (ok, q')"
    by force
  have "ok = (length (sq_contents sq q) + length bs \<le> sq_room sq q) \<and>
      sq_contents sq q' = (if ok then sq_contents sq q @ bs else sq_contents sq q) \<and>
      sq_room sq q' = sq_room sq q"
    using assms w unfolding shaq_ok_def by blast
  with w that show thesis by simp
qed

lemma shaq_reserve:
  assumes "shaq_ok sq" and "0 < n" and "sq_contents sq q \<noteq> []"
  obtains q' where "sq_reserve sq q n = Some (take n (sq_contents sq q), q')"
    and "sq_contents sq q' = drop n (sq_contents sq q)" and "sq_room sq q' = sq_room sq q"
proof -
  obtain batch q' where r: "sq_reserve sq q n = Some (batch, q')"
    using assms unfolding shaq_ok_def by (metis option.exhaust prod.exhaust)
  have "batch = take n (sq_contents sq q) \<and> sq_contents sq q' = drop n (sq_contents sq q) \<and>
      sq_room sq q' = sq_room sq q"
    using assms(1,2) r unfolding shaq_ok_def by blast
  with r that show thesis by simp
qed

lemma shaq_reserve_empty:
  "shaq_ok sq \<Longrightarrow> 0 < n \<Longrightarrow> sq_contents sq q = [] \<Longrightarrow> sq_reserve sq q n = None"
  unfolding shaq_ok_def by (metis option.exhaust prod.exhaust)

lemma shaq_create:
  "shaq_ok sq \<Longrightarrow> sq_create sq (sq_minimum_file_size sq (2 ^ k)) = Inr q \<Longrightarrow>
     sq_contents sq q = [] \<and> sq_room sq q = 2 ^ k"
  unfolding shaq_ok_def by blast


section \<open>A concrete instance\<close>

text \<open>The queue as its contents and its size; the file carries a 128-byte header.\<close>

type_synonym list_queue = "nat \<times> bytes"

definition list_shaq :: "list_queue shaq" where
  "list_shaq =
     \<lparr>sq_minimum_file_size = (\<lambda>n. n + 128),
      sq_create = (\<lambda>size. Inr (size - 128, [])),
      sq_write = (\<lambda>(n, xs) bs. if length xs + length bs \<le> n then (True, (n, xs @ bs)) else (False, (n, xs))),
      sq_reserve = (\<lambda>(n, xs) k. if xs = [] then None else Some (take k xs, (n, drop k xs))),
      sq_contents = snd, sq_room = fst\<rparr>"

lemma list_shaq_ok: "shaq_ok list_shaq"
  by (auto simp: shaq_ok_def list_shaq_def split: if_splits option.splits)

end
