(* ===== verification/Shm_Ring.thy ===== *)
theory Shm_Ring
  imports Errors Shaq_Param
begin

text \<open>
  The shared-memory ring of \<open>src/shm/ring.rs\<close>: \<open>ShmRingProducer\<close> and \<open>ShmRingConsumer\<close> over the byte
  queue of \<open>Shaq_Param\<close>. A handle is a record of the struct's fields except the \<open>shaq\<close> handle, which
  is the shared region \<open>'q\<close>, passed and returned explicitly because both sides change it. The file
  system is the set of existing paths, with the answers of the calls that can fail otherwise.

  The lemmas show that the byte queue carries a bounded FIFO queue of whole frames and close marks:
  no frame is split, merged, reordered or confused with the close mark.
\<close>

section \<open>Source definitions\<close>

definition FRAME_LEN_BYTES :: nat where
  [const_defs]: "FRAME_LEN_BYTES = 4"

definition CLOSE_SENTINEL :: u32 where
  [const_defs]: "CLOSE_SENTINEL = -1"

type_synonym file_system = "string set"

text \<open>Failures of \<open>create_dir_all\<close> on the parent of a path, and of opening it for a reason other than its existence.\<close>

record fs_env =
  fe_create_dir :: "string \<Rightarrow> string option"
  fe_open :: "string \<Rightarrow> string option"

record ring_producer =
  rp_capacity :: nat
  rp_path :: string
  rp_dropped_frames :: u64
  rp_owns_file :: bool

record ring_consumer =
  rc_capacity :: nat
  rc_path :: string
  rc_closed :: bool

text \<open>\<open>usize::next_power_of_two\<close>; an overflow of the 64-bit result panics.\<close>

function next_power_from :: "nat \<Rightarrow> nat \<Rightarrow> nat" where
  "next_power_from p n = (if n \<le> p \<or> p = 0 then p else next_power_from (2 * p) n)"
  by pat_completeness auto

termination next_power_from
  by (relation "measure (\<lambda>(p, n). n - p)") auto

declare next_power_from.simps [simp del]

definition next_power_of_two :: "nat \<Rightarrow> nat" where
  "next_power_of_two n = next_power_from 1 n"

definition ring_create ::
  "'q shaq \<Rightarrow> fs_env \<Rightarrow> file_system \<Rightarrow> string \<Rightarrow> nat \<Rightarrow> (ring_producer \<times> 'q) qresult \<times> file_system" where
  "ring_create sq env fs path capacity =
     (if capacity < 64
      then (Err (ShmError (''capacity '' @ show_nat capacity @ '' too small (min 64)'')), fs)
      else case fe_create_dir env path of
        Some e \<Rightarrow> (Err (ShmError (''create parent dir: '' @ e)), fs)
      | None \<Rightarrow>
          (if path \<in> fs
           then (Err (ShmError (''open '' @ path @ '': File exists (os error 17)'')), fs)
           else case fe_open env path of
             Some e \<Rightarrow> (Err (ShmError (''open '' @ path @ '': '' @ e)), fs)
           | None \<Rightarrow>
               (let fs1 = insert path fs;
                    normalized_capacity = next_power_of_two capacity
                in if 2 ^ 64 \<le> normalized_capacity
                   then (Panic, fs1)
                   else case sq_create sq (sq_minimum_file_size sq normalized_capacity) of
                     Inl err \<Rightarrow> (Err (ShmError (''shaq create: '' @ err)), fs1 - {path})
                   | Inr q \<Rightarrow>
                       (Ok (\<lparr>rp_capacity = normalized_capacity, rp_path = path,
                             rp_dropped_frames = 0, rp_owns_file = True\<rparr>, q), fs1))))"

definition ring_try_push ::
  "'q shaq \<Rightarrow> ring_producer \<Rightarrow> 'q \<Rightarrow> bytes list \<Rightarrow> unit qresult \<times> ring_producer \<times> 'q" where
  "ring_try_push sq p q parts =
     (let body_len = sum_list (map length parts)
      in case u32_try_from body_len of
        None \<Rightarrow> (Err (PayloadTooLarge body_len (2 ^ 32 - 1)), p, q)
      | Some body_len_u32 \<Rightarrow>
          (let frame_size = FRAME_LEN_BYTES + body_len
           in if frame_size > rp_capacity p
              then (Err (ShmError (''frame '' @ show_nat frame_size @ '' > ring capacity ''
                      @ show_nat (rp_capacity p))), p, q)
              else
                (let frame = u32_to_le body_len_u32 @ concat parts;
                     (written, q') = sq_write sq q frame
                 in if written then (Ok (), p, q')
                    else (Err ShmFull, p\<lparr>rp_dropped_frames := rp_dropped_frames p + 1\<rparr>, q'))))"

definition ring_close :: "'q shaq \<Rightarrow> 'q \<Rightarrow> 'q" where
  "ring_close sq q = snd (sq_write sq q (u32_to_le CLOSE_SENTINEL))"

definition ring_drop :: "ring_producer \<Rightarrow> file_system \<Rightarrow> file_system" where
  "ring_drop p fs = (if rp_owns_file p then fs - {rp_path p} else fs)"

text \<open>\<open>join\<close> is the answer of \<open>Consumer::join\<close> on the opened file, \<open>file_len\<close> its size if the metadata can be read.\<close>

definition ring_open ::
  "fs_env \<Rightarrow> file_system \<Rightarrow> string + 'q \<Rightarrow> nat option \<Rightarrow> string \<Rightarrow> (ring_consumer \<times> 'q) qresult" where
  "ring_open env fs join file_len path =
     (case (if path \<in> fs then fe_open env path else Some ''No such file or directory (os error 2)'') of
        Some e \<Rightarrow> Err (ShmError (''open '' @ path @ '': '' @ e))
      | None \<Rightarrow>
          (case join of
             Inl e \<Rightarrow> Err (ShmError (''shaq join: '' @ e))
           | Inr q \<Rightarrow>
               Ok (\<lparr>rc_capacity = (case file_len of Some n \<Rightarrow> n | None \<Rightarrow> 0), rc_path = path,
                    rc_closed = False\<rparr>, q)))"

definition ring_is_closed :: "ring_consumer \<Rightarrow> file_system \<Rightarrow> bool" where
  "ring_is_closed c fs \<longleftrightarrow> rc_closed c \<or> rc_path c \<notin> fs"

text \<open>A partial batch is dropped, which releases its bytes.\<close>

definition ring_read_exact :: "'q shaq \<Rightarrow> 'q \<Rightarrow> nat \<Rightarrow> bytes option \<times> 'q" where
  "ring_read_exact sq q len =
     (case sq_reserve sq q len of
        None \<Rightarrow> (None, q)
      | Some (batch, q') \<Rightarrow> if length batch \<noteq> len then (None, q') else (Some batch, q'))"

definition ring_try_pop ::
  "'q shaq \<Rightarrow> ring_consumer \<Rightarrow> 'q \<Rightarrow> bytes option \<times> ring_consumer \<times> 'q" where
  "ring_try_pop sq c q =
     (case ring_read_exact sq q FRAME_LEN_BYTES of
        (None, q1) \<Rightarrow> (None, c, q1)
      | (Some len_bytes, q1) \<Rightarrow>
          (let frame_len = u32_from_le len_bytes
           in if frame_len = CLOSE_SENTINEL then (None, c\<lparr>rc_closed := True\<rparr>, q1)
              else (let body_len = unat frame_len
                    in if body_len = 0 then (Some [], c, q1)
                       else (case ring_read_exact sq q1 body_len of (r, q2) \<Rightarrow> (r, c, q2)))))"


section \<open>The capacity of a ring\<close>

lemma next_power_from_pow:
  "\<exists>k. next_power_from (2 ^ j) n = 2 ^ k \<and> n \<le> 2 ^ k \<and> (j < k \<longrightarrow> 2 ^ k < 2 * n) \<and> j \<le> k"
proof (induction "n - 2 ^ j" arbitrary: j rule: less_induct)
  case less
  show ?case
  proof (cases "n \<le> 2 ^ j")
    case True
    then show ?thesis
      by (intro exI [of _ j]) (simp add: next_power_from.simps)
  next
    case False
    have "n - 2 ^ Suc j < n - 2 ^ j"
      using False by (simp add: diff_less_mono2)
    from less [OF this] obtain k where "next_power_from (2 ^ Suc j) n = 2 ^ k" "n \<le> 2 ^ k"
        "Suc j < k \<longrightarrow> 2 ^ k < 2 * n" "Suc j \<le> k"
      by blast
    with False show ?thesis
      by (intro exI [of _ k])
        (use next_power_from.simps [of "2 ^ j" n] in \<open>auto simp: le_less Suc_le_eq\<close>)
  qed
qed

lemma next_power_of_two_bounds:
  obtains k where "next_power_of_two n = 2 ^ k" and "n \<le> 2 ^ k" and "1 < n \<longrightarrow> 2 ^ k < 2 * n"
proof -
  obtain k where "next_power_from (2 ^ 0) n = 2 ^ k" "n \<le> 2 ^ k" "0 < k \<longrightarrow> 2 ^ k < 2 * n"
    using next_power_from_pow [of 0 n] by blast
  then show thesis
    by (intro that [of k]) (auto simp: next_power_of_two_def gr0_conv_Suc, cases k, auto)
qed


section \<open>The channel contract\<close>

text \<open>What the two sides exchange, and the bytes an item takes in the queue.\<close>

datatype ring_item = Frame bytes | CloseMark

primrec item_bytes :: "ring_item \<Rightarrow> bytes" where
  "item_bytes (Frame b) = u32_to_le (of_nat (length b)) @ b"
| "item_bytes CloseMark = u32_to_le CLOSE_SENTINEL"

primrec item_size :: "ring_item \<Rightarrow> nat" where
  "item_size (Frame b) = 4 + length b"
| "item_size CloseMark = 4"

text \<open>A body of \<open>2^32 - 1\<close> bytes has the close sentinel as its length prefix: the largest frame is one byte shorter.\<close>

primrec valid_item :: "ring_item \<Rightarrow> bool" where
  "valid_item (Frame b) \<longleftrightarrow> length b < 2 ^ 32 - 1"
| "valid_item CloseMark \<longleftrightarrow> True"

abbreviation used :: "ring_item list \<Rightarrow> nat" where
  "used items \<equiv> sum_list (map item_size items)"

text \<open>The abstract queue: its operations, their answers, and a run of a sequence of operations.\<close>

datatype ring_op = Push "bytes list" | Close | Pop

datatype ring_answer = Accepted | Refused | Done | Popped "bytes option"

fun valid_op :: "ring_op \<Rightarrow> bool" where
  "valid_op (Push parts) \<longleftrightarrow> valid_item (Frame (concat parts))"
| "valid_op _ \<longleftrightarrow> True"

fun spec_step :: "nat \<Rightarrow> ring_item list \<times> bool \<Rightarrow> ring_op \<Rightarrow> ring_answer \<times> ring_item list \<times> bool" where
  "spec_step n (items, closed) (Push parts) =
     (if used items + item_size (Frame (concat parts)) \<le> n
      then (Accepted, items @ [Frame (concat parts)], closed) else (Refused, items, closed))"
| "spec_step n (items, closed) Close =
     (Done, if used items + 4 \<le> n then items @ [CloseMark] else items, closed)"
| "spec_step n ([], closed) Pop = (Popped None, [], closed)"
| "spec_step n (Frame b # items, closed) Pop = (Popped (Some b), items, closed)"
| "spec_step n (CloseMark # items, closed) Pop = (Popped None, items, True)"

fun spec_run :: "nat \<Rightarrow> ring_item list \<times> bool \<Rightarrow> ring_op list \<Rightarrow> ring_answer list \<times> ring_item list \<times> bool" where
  "spec_run n s [] = ([], s)"
| "spec_run n s (op # ops) =
     (case spec_step n s op of (a, s') \<Rightarrow> case spec_run n s' ops of (as, s'') \<Rightarrow> (a # as, s''))"

text \<open>The same sequences on an implementation.\<close>

fun channel_step ::
  "('s \<Rightarrow> bytes list \<Rightarrow> unit qresult \<times> 's) \<Rightarrow> ('s \<Rightarrow> 's) \<Rightarrow> ('s \<Rightarrow> bytes option \<times> 's) \<Rightarrow> 's \<Rightarrow>
     ring_op \<Rightarrow> ring_answer \<times> 's" where
  "channel_step push close pop s (Push parts) =
     (case push s parts of (r, s') \<Rightarrow> (if r = Ok () then Accepted else Refused, s'))"
| "channel_step push close pop s Close = (Done, close s)"
| "channel_step push close pop s Pop = (case pop s of (r, s') \<Rightarrow> (Popped r, s'))"

fun channel_run ::
  "('s \<Rightarrow> bytes list \<Rightarrow> unit qresult \<times> 's) \<Rightarrow> ('s \<Rightarrow> 's) \<Rightarrow> ('s \<Rightarrow> bytes option \<times> 's) \<Rightarrow> 's \<Rightarrow>
     ring_op list \<Rightarrow> ring_answer list \<times> 's" where
  "channel_run push close pop s [] = ([], s)"
| "channel_run push close pop s (op # ops) =
     (case channel_step push close pop s op of (a, s') \<Rightarrow>
        case channel_run push close pop s' ops of (as, s'') \<Rightarrow> (a # as, s''))"

text \<open>
  A bounded FIFO channel of frames and close marks: \<open>rep s items\<close> relates a state to its queue of
  items, \<open>space\<close> is its size in bytes.
\<close>

locale frame_channel =
  fixes push :: "'s \<Rightarrow> bytes list \<Rightarrow> unit qresult \<times> 's"
    and close :: "'s \<Rightarrow> 's"
    and pop :: "'s \<Rightarrow> bytes option \<times> 's"
    and closed :: "'s \<Rightarrow> bool"
    and rep :: "'s \<Rightarrow> ring_item list \<Rightarrow> bool"
    and space :: "'s \<Rightarrow> nat"
  assumes push_fits: "rep s items \<Longrightarrow> valid_item (Frame (concat parts)) \<Longrightarrow>
      used items + item_size (Frame (concat parts)) \<le> space s \<Longrightarrow>
      \<exists>s'. push s parts = (Ok (), s') \<and> rep s' (items @ [Frame (concat parts)]) \<and>
        space s' = space s \<and> closed s' = closed s"
    and push_refused: "rep s items \<Longrightarrow> space s < used items + item_size (Frame (concat parts)) \<Longrightarrow>
      \<exists>e s'. push s parts = (Err e, s') \<and> rep s' items \<and> space s' = space s \<and> closed s' = closed s"
    and close_rep: "rep s items \<Longrightarrow>
      rep (close s) (if used items + 4 \<le> space s then items @ [CloseMark] else items) \<and>
      space (close s) = space s \<and> closed (close s) = closed s"
    and pop_frame: "rep s (Frame b # items) \<Longrightarrow>
      \<exists>s'. pop s = (Some b, s') \<and> rep s' items \<and> space s' = space s \<and> closed s' = closed s"
    and pop_close: "rep s (CloseMark # items) \<Longrightarrow>
      \<exists>s'. pop s = (None, s') \<and> rep s' items \<and> space s' = space s \<and> closed s'"
    and pop_empty: "rep s [] \<Longrightarrow> pop s = (None, s)"
begin

lemma step_refines:
  assumes "rep s items" and "valid_op op"
  shows "\<exists>s' items'. channel_step push close pop s op =
      (fst (spec_step (space s) (items, closed s) op), s') \<and>
    snd (spec_step (space s) (items, closed s) op) = (items', closed s') \<and>
    rep s' items' \<and> space s' = space s"
proof (cases op)
  case (Push parts)
  show ?thesis
  proof (cases "used items + item_size (Frame (concat parts)) \<le> space s")
    case True
    with push_fits [OF assms(1)] assms(2) Push obtain s' where
      "push s parts = (Ok (), s')" "rep s' (items @ [Frame (concat parts)])"
      "space s' = space s" "closed s' = closed s"
      by (metis valid_op.simps(1))
    with Push True show ?thesis by simp
  next
    case False
    with push_refused [OF assms(1), of parts] obtain e s' where
      "push s parts = (Err e, s')" "rep s' items" "space s' = space s" "closed s' = closed s"
      by (metis not_le)
    with Push False show ?thesis by simp
  qed
next
  case Close
  with close_rep [OF assms(1)] show ?thesis by simp
next
  case Pop
  show ?thesis
  proof (cases items)
    case Nil
    with Pop assms pop_empty show ?thesis by simp
  next
    case (Cons i rest)
    then show ?thesis
      using Pop assms pop_frame [of s _ rest] pop_close [of s rest] by (cases i) fastforce+
  qed
qed

text \<open>Every sequence of operations gives the answers of the abstract queue.\<close>

lemma run_refines:
  assumes "rep s items" and "list_all valid_op ops"
  shows "\<exists>s' items'. channel_run push close pop s ops =
      (fst (spec_run (space s) (items, closed s) ops), s') \<and>
    snd (spec_run (space s) (items, closed s) ops) = (items', closed s') \<and>
    rep s' items' \<and> space s' = space s"
  using assms
proof (induction ops arbitrary: s items)
  case (Cons op ops)
  then obtain s1 items1 where
    s1: "channel_step push close pop s op = (fst (spec_step (space s) (items, closed s) op), s1)"
      "snd (spec_step (space s) (items, closed s) op) = (items1, closed s1)"
      "rep s1 items1" "space s1 = space s"
    using step_refines [of s items op] by auto
  from Cons.IH [OF s1(3)] Cons.prems(2) s1 show ?case
    by (auto simp: split_beta)
qed simp

end


section \<open>The ring provides the channel\<close>

lemma length_item_bytes: "length (item_bytes i) = item_size i"
  by (cases i) simp_all

lemma length_concat_items: "length (concat (map item_bytes items)) = used items"
  by (induction items) (simp_all add: length_item_bytes)

definition ring_rep :: "'q shaq \<Rightarrow> ring_producer \<times> ring_consumer \<times> 'q \<Rightarrow> ring_item list \<Rightarrow> bool" where
  "ring_rep sq = (\<lambda>(p, c, q) items. shaq_ok sq \<and> sq_contents sq q = concat (map item_bytes items) \<and>
     sq_room sq q = rp_capacity p \<and> list_all valid_item items)"

definition sys_push ::
  "'q shaq \<Rightarrow> ring_producer \<times> ring_consumer \<times> 'q \<Rightarrow> bytes list \<Rightarrow>
     unit qresult \<times> ring_producer \<times> ring_consumer \<times> 'q" where
  "sys_push sq = (\<lambda>(p, c, q) parts. case ring_try_push sq p q parts of (r, p', q') \<Rightarrow> (r, p', c, q'))"

definition sys_close ::
  "'q shaq \<Rightarrow> ring_producer \<times> ring_consumer \<times> 'q \<Rightarrow> ring_producer \<times> ring_consumer \<times> 'q" where
  "sys_close sq = (\<lambda>(p, c, q). (p, c, ring_close sq q))"

definition sys_pop ::
  "'q shaq \<Rightarrow> ring_producer \<times> ring_consumer \<times> 'q \<Rightarrow>
     bytes option \<times> ring_producer \<times> ring_consumer \<times> 'q" where
  "sys_pop sq = (\<lambda>(p, c, q). case ring_try_pop sq c q of (r, c', q') \<Rightarrow> (r, p, c', q'))"

lemmas sys_defs = sys_push_def sys_close_def sys_pop_def ring_rep_def


lemma concat_parts_length: "sum_list (map length parts) = length (concat parts)"
  by (simp add: length_concat)

lemma ring_read_exact_front:
  assumes "shaq_ok sq" and "sq_contents sq q = xs @ ys" and "xs \<noteq> []"
  obtains q' where "ring_read_exact sq q (length xs) = (Some xs, q')"
    and "sq_contents sq q' = ys" and "sq_room sq q' = sq_room sq q"
proof -
  obtain q' where "sq_reserve sq q (length xs) = Some (take (length xs) (sq_contents sq q), q')"
    and "sq_contents sq q' = drop (length xs) (sq_contents sq q)" and "sq_room sq q' = sq_room sq q"
    using assms by (auto intro: shaq_reserve [of sq "length xs" q])
  with assms(2) that show thesis
    by (simp add: ring_read_exact_def)
qed

text \<open>The prefix of an item: four bytes, the sentinel exactly for the close mark.\<close>

lemma frame_prefix_not_sentinel:
  assumes "length b < 2 ^ 32 - 1"
  shows "(of_nat (length b) :: u32) \<noteq> CLOSE_SENTINEL"
proof
  assume "(of_nat (length b) :: u32) = CLOSE_SENTINEL"
  then have "unat (of_nat (length b) :: u32) = 2 ^ 32 - 1"
    by (simp add: CLOSE_SENTINEL_def unsigned_minus_1_eq_mask mask_eq_exp_minus_1)
  with assms show False
    by (simp add: unat_of_nat take_bit_nat_eq_self)
qed

lemma ring_try_pop_frame:
  assumes "shaq_ok sq" and "sq_contents sq q = item_bytes (Frame b) @ ys" and "length b < 2 ^ 32 - 1"
  obtains q' where "ring_try_pop sq c q = (Some b, c, q')"
    and "sq_contents sq q' = ys" and "sq_room sq q' = sq_room sq q"
proof -
  let ?len = "u32_to_le (of_nat (length b))"
  have u: "unat (of_nat (length b) :: u32) = length b"
    using assms(3) by (simp add: unat_of_nat take_bit_nat_eq_self)
  obtain q1 where q1: "ring_read_exact sq q FRAME_LEN_BYTES = (Some ?len, q1)"
      "sq_contents sq q1 = b @ ys" "sq_room sq q1 = sq_room sq q"
    using ring_read_exact_front [of sq q ?len "b @ ys"] assms(1,2)
    by (auto simp: FRAME_LEN_BYTES_def simp flip: length_0_conv)
  show thesis
  proof (cases "b = []")
    case True
    with q1 that show thesis
      by (simp add: ring_try_pop_def CLOSE_SENTINEL_def)
  next
    case False
    obtain q2 where "ring_read_exact sq q1 (length b) = (Some b, q2)" "sq_contents sq q2 = ys"
        "sq_room sq q2 = sq_room sq q1"
      using ring_read_exact_front [OF assms(1) q1(2) False] .
    with q1 that u frame_prefix_not_sentinel [OF assms(3)] False show thesis
      by (simp add: ring_try_pop_def)
  qed
qed

lemma ring_try_pop_close:
  assumes "shaq_ok sq" and "sq_contents sq q = item_bytes CloseMark @ ys"
  obtains q' where "ring_try_pop sq c q = (None, c\<lparr>rc_closed := True\<rparr>, q')"
    and "sq_contents sq q' = ys" and "sq_room sq q' = sq_room sq q"
proof -
  obtain q1 where "ring_read_exact sq q FRAME_LEN_BYTES = (Some (u32_to_le CLOSE_SENTINEL), q1)"
      "sq_contents sq q1 = ys" "sq_room sq q1 = sq_room sq q"
    using ring_read_exact_front [of sq q "u32_to_le CLOSE_SENTINEL" ys] assms
    by (auto simp: FRAME_LEN_BYTES_def simp flip: length_0_conv)
  with that show thesis
    by (simp add: ring_try_pop_def)
qed

lemma ring_try_pop_empty:
  "shaq_ok sq \<Longrightarrow> sq_contents sq q = [] \<Longrightarrow> ring_try_pop sq c q = (None, c, q)"
  by (simp add: ring_try_pop_def ring_read_exact_def shaq_reserve_empty FRAME_LEN_BYTES_def)

lemma ring_try_push_fits:
  assumes "shaq_ok sq" and "sq_room sq q = rp_capacity p" and "length (concat parts) < 2 ^ 32"
    and "length (sq_contents sq q) + 4 + length (concat parts) \<le> rp_capacity p"
  obtains q' where "ring_try_push sq p q parts = (Ok (), p, q')"
    and "sq_contents sq q' = sq_contents sq q @ item_bytes (Frame (concat parts))"
    and "sq_room sq q' = sq_room sq q"
proof -
  let ?frame = "item_bytes (Frame (concat parts))"
  obtain q' where "sq_write sq q ?frame = (True, q')" "sq_contents sq q' = sq_contents sq q @ ?frame"
      "sq_room sq q' = sq_room sq q"
    using shaq_write [OF assms(1), of q ?frame thesis] assms(2,4) by (auto simp: length_item_bytes)
  with that assms(3,4) show thesis
    by (simp add: ring_try_push_def concat_parts_length u32_try_from_def FRAME_LEN_BYTES_def)
qed

lemma ring_try_push_refused:
  assumes "shaq_ok sq" and "sq_room sq q = rp_capacity p"
    and "rp_capacity p < length (sq_contents sq q) + 4 + length (concat parts)"
  obtains e d q' where "ring_try_push sq p q parts = (Err e, p\<lparr>rp_dropped_frames := d\<rparr>, q')"
    and "sq_contents sq q' = sq_contents sq q" and "sq_room sq q' = sq_room sq q"
    and "e = ShmFull \<longleftrightarrow> length (concat parts) < 2 ^ 32 \<and> 4 + length (concat parts) \<le> rp_capacity p"
    and "d = (if e = ShmFull then rp_dropped_frames p + 1 else rp_dropped_frames p)"
proof (cases "length (concat parts) < 2 ^ 32 \<and> 4 + length (concat parts) \<le> rp_capacity p")
  case True
  let ?frame = "item_bytes (Frame (concat parts))"
  obtain q' where "sq_write sq q ?frame = (False, q')" "sq_contents sq q' = sq_contents sq q"
      "sq_room sq q' = sq_room sq q"
    using shaq_write [OF assms(1), of q ?frame thesis] assms(2,3) by (auto simp: length_item_bytes)
  with True that [of ShmFull "rp_dropped_frames p + 1" q'] show thesis
    by (simp add: ring_try_push_def concat_parts_length u32_try_from_def FRAME_LEN_BYTES_def)
next
  case False
  then have "\<exists>e. ring_try_push sq p q parts = (Err e, p, q) \<and> e \<noteq> ShmFull"
    by (auto simp: ring_try_push_def Let_def concat_parts_length u32_try_from_def FRAME_LEN_BYTES_def)
  then obtain e where "ring_try_push sq p q parts = (Err e, p, q)" "e \<noteq> ShmFull"
    by blast
  with False that [of e "rp_dropped_frames p" q] show thesis
    by simp
qed

lemma ring_repD:
  assumes "ring_rep sq (p, c, q) items"
  shows "shaq_ok sq" and "sq_contents sq q = concat (map item_bytes items)"
    and "sq_room sq q = rp_capacity p" and "length (sq_contents sq q) = used items"
    and "list_all valid_item items"
  using assms by (simp_all add: ring_rep_def length_concat_items)

interpretation ring_channel: frame_channel "sys_push sq" "sys_close sq" "sys_pop sq"
  "\<lambda>(p, c, q). rc_closed c" "ring_rep sq" "\<lambda>(p, c, q). rp_capacity p" for sq
proof (unfold_locales, goal_cases)
  case (1 s items parts)
  obtain p c q where s: "s = (p, c, q)" by (cases s)
  note rep = ring_repD [OF 1(1) [unfolded s]]
  obtain q' where "ring_try_push sq p q parts = (Ok (), p, q')"
      "sq_contents sq q' = sq_contents sq q @ item_bytes (Frame (concat parts))" "sq_room sq q' = sq_room sq q"
    by (rule ring_try_push_fits [OF rep(1,3), of parts]) (use 1 s rep(4) in simp_all)
  with 1(2) s rep show ?case by (simp add: sys_defs)
next
  case (2 s items parts)
  obtain p c q where s: "s = (p, c, q)" by (cases s)
  note rep = ring_repD [OF 2(1) [unfolded s]]
  obtain e d q' where "ring_try_push sq p q parts = (Err e, p\<lparr>rp_dropped_frames := d\<rparr>, q')"
      "sq_contents sq q' = sq_contents sq q" "sq_room sq q' = sq_room sq q"
    by (rule ring_try_push_refused [OF rep(1,3), of parts]) (use 2 s rep(4) in simp_all)
  with s rep show ?case by (simp add: sys_defs)
next
  case (3 s items)
  obtain p c q where s: "s = (p, c, q)" by (cases s)
  note rep = ring_repD [OF 3 [unfolded s]]
  obtain q' where "sq_write sq q (u32_to_le CLOSE_SENTINEL) = (used items + 4 \<le> rp_capacity p, q')"
      "sq_contents sq q' = (if used items + 4 \<le> rp_capacity p
         then sq_contents sq q @ u32_to_le CLOSE_SENTINEL else sq_contents sq q)"
      "sq_room sq q' = sq_room sq q"
    using shaq_write [OF rep(1), of q "u32_to_le CLOSE_SENTINEL"] rep(3,4) by (metis length_u32_to_le)
  with s rep show ?case
    by (simp add: sys_defs ring_close_def)
next
  case (4 s b items)
  obtain p c q where s: "s = (p, c, q)" by (cases s)
  note rep = ring_repD [OF 4 [unfolded s]]
  obtain q' where "ring_try_pop sq c q = (Some b, c, q')"
      "sq_contents sq q' = concat (map item_bytes items)" "sq_room sq q' = sq_room sq q"
    by (rule ring_try_pop_frame [OF rep(1), of q b _ c]) (use rep in simp_all)
  with s rep show ?case by (simp add: sys_defs)
next
  case (5 s items)
  obtain p c q where s: "s = (p, c, q)" by (cases s)
  note rep = ring_repD [OF 5 [unfolded s]]
  obtain q' where "ring_try_pop sq c q = (None, c\<lparr>rc_closed := True\<rparr>, q')"
      "sq_contents sq q' = concat (map item_bytes items)" "sq_room sq q' = sq_room sq q"
    by (rule ring_try_pop_close [OF rep(1), of q _ c]) (use rep in simp_all)
  with s rep show ?case by (simp add: sys_defs)
next
  case (6 s)
  then show ?case
    by (cases s) (simp add: sys_defs ring_try_pop_empty)
qed


lemma ring_create_Ok:
  assumes "shaq_ok sq" and "ring_create sq env fs path capacity = (Ok (p, q), fs')"
  shows "ring_rep sq (p, c, q) []" and "\<exists>k. rp_capacity p = 2 ^ k" and "capacity \<le> rp_capacity p"
    and "rp_capacity p < 2 * capacity" and "path \<notin> fs" and "fs' = insert path fs"
    and "rp_path p = path" and "rp_owns_file p"
proof -
  obtain k where k: "next_power_of_two capacity = 2 ^ k" "capacity \<le> 2 ^ k"
      "1 < capacity \<longrightarrow> 2 ^ k < 2 * capacity"
    by (rule next_power_of_two_bounds [of capacity])
  have "64 \<le> capacity" and p: "p = \<lparr>rp_capacity = 2 ^ k, rp_path = path, rp_dropped_frames = 0, rp_owns_file = True\<rparr>"
      and "path \<notin> fs" "fs' = insert path fs"
      and q: "sq_create sq (sq_minimum_file_size sq (2 ^ k)) = Inr q"
    using assms(2) k(1)
    by (auto simp: ring_create_def Let_def split: option.splits sum.splits if_splits)
  then show "ring_rep sq (p, c, q) []" and "\<exists>k. rp_capacity p = 2 ^ k" and "capacity \<le> rp_capacity p"
      and "rp_capacity p < 2 * capacity" and "path \<notin> fs" and "fs' = insert path fs"
      and "rp_path p = path" and "rp_owns_file p"
    using k(2,3) shaq_create [OF assms(1) q] assms(1) by (auto simp: ring_rep_def)
qed

lemma ring_create_error:
  "ring_create sq env fs path capacity = (Err e, fs') \<Longrightarrow> \<exists>msg. e = ShmError msg"
  by (auto simp: ring_create_def Let_def split: option.splits sum.splits if_splits)

lemma ring_create_not_Ok:
  assumes "ring_create sq env fs path capacity = (r, fs')" and "\<nexists>x. r = Ok x"
  shows "(r \<noteq> Panic \<longrightarrow> fs' = fs) \<and> (r = Panic \<longrightarrow> 2 ^ 63 < capacity)"
proof -
  obtain k where k: "next_power_of_two capacity = 2 ^ k" "1 < capacity \<longrightarrow> 2 ^ k < 2 * capacity"
    by (rule next_power_of_two_bounds [of capacity])
  have "2 ^ 63 < capacity" if "2 ^ 64 \<le> (2 :: nat) ^ k" "\<not> capacity < 64"
    using order.strict_trans1 [OF that(1), of "2 * capacity"] k(2) that(2) by simp
  with assms k(1) show ?thesis
    by (auto simp: ring_create_def Let_def split: option.splits sum.splits if_splits)
qed


section \<open>Properties of the ring\<close>


text \<open>A ring of 64 bytes: a frame is refused while the ring is full and the frames come out in order.\<close>

definition example_ring :: "ring_producer \<times> ring_consumer \<times> list_queue" where
  "example_ring =
     (\<lparr>rp_capacity = 64, rp_path = ''r'', rp_dropped_frames = 0, rp_owns_file = True\<rparr>,
      \<lparr>rc_capacity = 192, rc_path = ''r'', rc_closed = False\<rparr>, (64, []))"

lemma example_ring_rep: "ring_rep list_shaq example_ring []"
  by (simp add: ring_rep_def example_ring_def list_shaq_ok) (simp add: list_shaq_def)




text \<open>
  A push that fails changes neither the queue's contents nor the frames of other pushes, and
  the three failures are told apart: a body of \<open>2^32\<close> bytes or more, a frame larger than the whole ring,
  and a ring without room, which alone is counted in \<open>dropped_frames\<close>.
\<close>

theorem ring_try_push_errors:
  assumes "shaq_ok sq" and "sq_room sq q = rp_capacity p"
    and "ring_try_push sq p q parts = (r, p', q')"
  defines "n \<equiv> length (concat parts)"
  shows "r \<noteq> Panic \<and>
    (r = Ok () \<longleftrightarrow> n < 2 ^ 32 \<and> length (sq_contents sq q) + 4 + n \<le> rp_capacity p) \<and>
    (r = Err ShmFull \<longleftrightarrow> n < 2 ^ 32 \<and> 4 + n \<le> rp_capacity p \<and>
       rp_capacity p < length (sq_contents sq q) + 4 + n) \<and>
    p' = (if r = Err ShmFull then p\<lparr>rp_dropped_frames := rp_dropped_frames p + 1\<rparr> else p) \<and>
    sq_contents sq q' =
      (if r = Ok () then sq_contents sq q @ item_bytes (Frame (concat parts)) else sq_contents sq q)"
proof (cases "length (sq_contents sq q) + 4 + n \<le> rp_capacity p")
  case False
  then have "rp_capacity p < length (sq_contents sq q) + 4 + length (concat parts)"
    by (simp add: n_def)
  then obtain e d q1 where "ring_try_push sq p q parts = (Err e, p\<lparr>rp_dropped_frames := d\<rparr>, q1)"
      "sq_contents sq q1 = sq_contents sq q" "e = ShmFull \<longleftrightarrow> n < 2 ^ 32 \<and> 4 + n \<le> rp_capacity p"
      "d = (if e = ShmFull then rp_dropped_frames p + 1 else rp_dropped_frames p)"
    unfolding n_def by (rule ring_try_push_refused [OF assms(1,2)])
  with False assms(3) show ?thesis
    by auto
next
  case fits: True
  show ?thesis
  proof (cases "n < 2 ^ 32")
    case True
    obtain q1 where "ring_try_push sq p q parts = (Ok (), p, q1)"
        "sq_contents sq q1 = sq_contents sq q @ item_bytes (Frame (concat parts))"
      by (rule ring_try_push_fits [OF assms(1,2)]) (use True fits in \<open>simp_all add: n_def\<close>)
    with True fits assms(3) show ?thesis
      by auto
  next
    case False
    then have "ring_try_push sq p q parts = (Err (PayloadTooLarge n (2 ^ 32 - 1)), p, q)"
      by (simp add: ring_try_push_def concat_parts_length u32_try_from_def n_def)
    with False assms(3) show ?thesis
      by auto
  qed
qed

theorem ring_try_push_errors_witness:
  "ring_try_push list_shaq (fst example_ring) (64, replicate 60 0) [[1]] =
    (Err ShmFull, (fst example_ring)\<lparr>rp_dropped_frames := 1\<rparr>, (64, replicate 60 0))"
proof -
  obtain r p' q' where r: "ring_try_push list_shaq (fst example_ring) (64, replicate 60 0) [[1]] = (r, p', q')"
    using prod_cases3 by blast
  have room: "sq_room list_shaq (64, replicate 60 0) = rp_capacity (fst example_ring)"
    by (simp add: list_shaq_def example_ring_def)
  note e = ring_try_push_errors [OF list_shaq_ok room r]
  have "sq_room list_shaq q' = 64"
    using r by (auto simp: ring_try_push_def list_shaq_def example_ring_def u32_try_from_def split: if_splits)
  with e r show ?thesis
    by (cases q') (auto simp: list_shaq_def example_ring_def)
qed

end
