(* ===== verification/Event_Fd.thy ===== *)
theory Event_Fd
  imports Errors
begin

text \<open>
  The Linux wakeup primitive of \<open>src/shm/eventfd.rs\<close>. The kernel object behind the descriptor is a
  parameter: \<open>ek_write\<close> and \<open>ek_read\<close> answer a \<open>write(2)\<close> of the 8-byte value 1 and a \<open>read(2)\<close> of 8
  bytes. A call may be interrupted by signals: the answer says how many attempts fail with \<open>EINTR\<close>
  before the one that does not, and what that one returns, so the retry loops of the source run
  that many times. \<open>ek_count\<close> observes the counter for specifications only. The host is
  little-endian, so native-endian integers are little-endian.
\<close>

record 'k efd_kernel =
  ek_write :: "'k \<Rightarrow> nat \<times> (io_error + nat) \<times> 'k"
  ek_read :: "'k \<Rightarrow> nat \<times> (io_error + bytes) \<times> 'k"
  ek_count :: "'k \<Rightarrow> nat"

text \<open>\<open>eventfd(2)\<close> with \<open>EFD_NONBLOCK\<close>: a counter that saturates at \<open>2^64 - 2\<close>, reset by a read.\<close>

definition efd_max :: nat where
  "efd_max = 2 ^ 64 - 2"

definition efd_ok :: "'k efd_kernel \<Rightarrow> bool" where
  "efd_ok ek \<longleftrightarrow>
     (\<forall>k. ek_count ek k \<le> efd_max) \<and>
     (\<forall>k n r k'. ek_write ek k = (n, r, k') \<longrightarrow>
        (if ek_count ek k < efd_max
         then r = Inr 8 \<and> ek_count ek k' = ek_count ek k + 1
         else r = Inl WouldBlock \<and> ek_count ek k' = ek_count ek k)) \<and>
     (\<forall>k n r k'. ek_read ek k = (n, r, k') \<longrightarrow>
        (if 0 < ek_count ek k
         then r = Inr (u64_to_le (of_nat (ek_count ek k))) \<and> ek_count ek k' = 0
         else r = Inl WouldBlock \<and> ek_count ek k' = 0))"

text \<open>The loop of \<open>notify\<close>: the first argument counts the attempts that come back with \<open>EINTR\<close>.\<close>

primrec notify_loop :: "nat \<Rightarrow> io_error + nat \<Rightarrow> io_error + unit" where
  "notify_loop 0 answer =
     (case answer of
        Inl err \<Rightarrow> if err = WouldBlock then Inr () else Inl err
      | Inr n \<Rightarrow> Inr ())"
| "notify_loop (Suc interrupts) answer = notify_loop interrupts answer"

definition efd_notify :: "'k efd_kernel \<Rightarrow> 'k \<Rightarrow> (io_error + unit) \<times> 'k" where
  "efd_notify ek k =
     (case ek_write ek k of (interrupts, answer, k') \<Rightarrow> (notify_loop interrupts answer, k'))"

primrec drain_loop :: "nat \<Rightarrow> io_error + bytes \<Rightarrow> io_error + u64" where
  "drain_loop 0 answer =
     (case answer of
        Inl err \<Rightarrow> if err = WouldBlock then Inr 0 else Inl err
      | Inr buf \<Rightarrow> Inr (u64_from_le buf))"
| "drain_loop (Suc interrupts) answer = drain_loop interrupts answer"

definition efd_drain :: "'k efd_kernel \<Rightarrow> 'k \<Rightarrow> (io_error + u64) \<times> 'k" where
  "efd_drain ek k =
     (case ek_read ek k of (interrupts, answer, k') \<Rightarrow> (drain_loop interrupts answer, k'))"

lemma notify_loop_eq: "notify_loop n a = (case a of Inl e \<Rightarrow> if e = WouldBlock then Inr () else Inl e | Inr _ \<Rightarrow> Inr ())"
  by (induction n) simp_all

lemma drain_loop_eq: "drain_loop n a = (case a of Inl e \<Rightarrow> if e = WouldBlock then Inr 0 else Inl e | Inr buf \<Rightarrow> Inr (u64_from_le buf))"
  by (induction n) simp_all


section \<open>Waiting\<close>

text \<open>
  \<open>AsyncEventFd::wait\<close>, for either backend. \<open>readable\<close> is \<open>AsyncFd::readable\<close>: other tasks and the
  other process run while it waits, so it gives the state of the descriptor when readiness is
  reported, which may be spurious.
\<close>

partial_function (option) async_wait ::
  "('w \<Rightarrow> io_error + 'w) \<Rightarrow> ('w \<Rightarrow> ((io_error + u64) \<times> 'w) option) \<Rightarrow> 'w \<Rightarrow> ((io_error + u64) \<times> 'w) option" where
  "async_wait readable drain w =
     (case readable w of
        Inl e \<Rightarrow> Some (Inl e, w)
      | Inr w1 \<Rightarrow>
          (case drain w1 of
             None \<Rightarrow> None
           | Some (Inr n, w2) \<Rightarrow> if n = 0 then async_wait readable drain w2 else Some (Inr n, w2)
           | Some (Inl e, w2) \<Rightarrow> if e = WouldBlock then async_wait readable drain w2 else Some (Inl e, w2)))"

lemma async_wait_positive:
  assumes "async_wait readable drain w = Some (Inr n, w')"
  shows "n \<noteq> 0"
proof -
  have "\<forall>n. fst r = Inr n \<longrightarrow> n \<noteq> 0" if "async_wait readable drain w = Some r" for r
    using that
    by (rule async_wait.raw_induct [rotated])
      (auto split: sum.splits option.splits prod.splits if_splits)
  from this [OF assms] show ?thesis by simp
qed


section \<open>The wakeup contract\<close>

text \<open>
  What the ring's two sides rely on, whatever the backend: a notification never fails and leaves a
  wakeup pending, and a drain returns, reports what is pending and clears it. Both backends count
  the notifications up to a limit of the kernel object, which gives the first part.
\<close>

locale wakeup_source =
  fixes notify :: "'w \<Rightarrow> (io_error + unit) \<times> 'w"
    and drain :: "'w \<Rightarrow> ((io_error + u64) \<times> 'w) option"
    and pending :: "'w \<Rightarrow> nat"
    and ok :: bool
  assumes notify_pending: "ok \<Longrightarrow> notify w = (r, w') \<Longrightarrow> r = Inr () \<and> 0 < pending w' \<and> pending w \<le> pending w'"
    and drain_count: "ok \<Longrightarrow> \<exists>n w'. drain w = Some (Inr n, w') \<and> unat n = pending w \<and> pending w' = 0"
begin

lemma drain_idle:
  assumes "ok" and "pending w = 0"
  shows "\<exists>w'. drain w = Some (Inr 0, w') \<and> pending w' = 0"
proof -
  obtain n w' where "drain w = Some (Inr n, w')" "unat n = pending w" "pending w' = 0"
    using drain_count [OF assms(1), of w] by (elim exE conjE)
  with assms(2) show ?thesis by (simp add: unat_eq_zero)
qed

text \<open>A pending wakeup ends the wait, and is reported once.\<close>

lemma wait_pending:
  assumes "ok" and "readable w = Inr w1" and "0 < pending w1"
  shows "\<exists>n w2. async_wait readable drain w = Some (Inr n, w2) \<and> unat n = pending w1 \<and> pending w2 = 0"
proof -
  obtain n w2 where d: "drain w1 = Some (Inr n, w2)" "unat n = pending w1" "pending w2 = 0"
    using drain_count [OF assms(1), of w1] by (elim exE conjE)
  then have "n \<noteq> 0"
    using assms(3) by auto
  with d assms(2) show ?thesis
    by (subst async_wait.simps) simp
qed

lemma wait_after_notify:
  assumes "ok" and "notify w = (r, w')" and "\<And>v. \<exists>v'. readable v = Inr v' \<and> pending v \<le> pending v'"
  shows "\<exists>n w2. async_wait readable drain w' = Some (Inr n, w2) \<and> n \<noteq> 0 \<and> pending w2 = 0"
proof -
  have "0 < pending w'"
    using notify_pending [OF assms(1,2)] by (elim conjE)
  moreover obtain v' where v': "readable w' = Inr v'" "pending w' \<le> pending v'"
    using assms(3) by blast
  ultimately obtain n w2 where "async_wait readable drain w' = Some (Inr n, w2)" "unat n = pending v'" "pending w2 = 0"
    using wait_pending [where readable = readable and w = w', OF assms(1) v'(1)] by auto
  moreover have "0 < pending v'"
    using \<open>0 < pending w'\<close> v'(2) by simp
  ultimately show ?thesis
    by (intro exI [of _ n] exI [of _ w2]) auto
qed

end

primrec notify_times :: "('w \<Rightarrow> (io_error + unit) \<times> 'w) \<Rightarrow> nat \<Rightarrow> 'w \<Rightarrow> 'w" where
  "notify_times notify 0 w = w"
| "notify_times notify (Suc n) w = notify_times notify n (snd (notify w))"

locale counting_wakeup =
  fixes notify :: "'w \<Rightarrow> (io_error + unit) \<times> 'w"
    and drain :: "'w \<Rightarrow> ((io_error + u64) \<times> 'w) option"
    and pending :: "'w \<Rightarrow> nat"
    and ok :: bool
    and limit :: nat
  assumes notify_ok: "ok \<Longrightarrow> notify w = (r, w') \<Longrightarrow> r = Inr ()"
    and notify_count: "ok \<Longrightarrow> notify w = (r, w') \<Longrightarrow> pending w' = min (pending w + 1) limit"
    and pending_le: "ok \<Longrightarrow> pending w \<le> limit"
    and limit_pos: "ok \<Longrightarrow> 0 < limit"
    and count_drain: "ok \<Longrightarrow> \<exists>n w'. drain w = Some (Inr n, w') \<and> unat n = pending w \<and> pending w' = 0"

sublocale counting_wakeup \<subseteq> wakeup_source notify drain pending ok
proof
  fix w r w'
  assume "ok" and n: "notify w = (r, w')"
  from notify_ok [OF this] notify_count [OF this] pending_le [OF \<open>ok\<close>, of w] limit_pos [OF \<open>ok\<close>]
  show "r = Inr () \<and> 0 < pending w' \<and> pending w \<le> pending w'"
    by (auto simp: min_def)
qed (rule count_drain)

context counting_wakeup
begin

lemma pending_notify_times:
  assumes "ok"
  shows "pending (notify_times notify n w) = min (pending w + n) limit"
proof (induction n arbitrary: w)
  case 0
  show ?case
    using pending_le [OF assms, of w] by simp
next
  case (Suc n)
  have "pending (snd (notify w)) = min (pending w + 1) limit"
    by (rule notify_count [OF assms surjective_pairing])
  then show ?case
    by (auto simp: Suc min_def)
qed

lemma drain_notify_times:
  assumes "ok" and "pending w = 0"
  shows "\<exists>n w'. drain (notify_times notify k w) = Some (Inr n, w') \<and> unat n = min k limit \<and> pending w' = 0"
  using count_drain [OF assms(1), of "notify_times notify k w"] pending_notify_times [OF assms(1), of k w] assms(2)
  by simp

end

lemma efd_max_bounds: "0 < efd_max" "n \<le> efd_max \<Longrightarrow> n < 2 ^ 64"
  by (simp_all add: efd_max_def)

lemma efd_le: "efd_ok ek \<Longrightarrow> ek_count ek k \<le> efd_max"
  unfolding efd_ok_def by (elim conjE allE)

lemma efd_write:
  assumes "efd_ok ek" and "ek_write ek k = (n, r, k')"
  shows "if ek_count ek k < efd_max then r = Inr 8 \<and> ek_count ek k' = ek_count ek k + 1
    else r = Inl WouldBlock \<and> ek_count ek k' = ek_count ek k"
  using assms(1) [unfolded efd_ok_def, THEN conjunct2, THEN conjunct1, rule_format, OF assms(2)] .

lemma efd_read:
  assumes "efd_ok ek" and "ek_read ek k = (n, r, k')"
  shows "if 0 < ek_count ek k then r = Inr (u64_to_le (of_nat (ek_count ek k))) \<and> ek_count ek k' = 0
    else r = Inl WouldBlock \<and> ek_count ek k' = 0"
  using assms(1) [unfolded efd_ok_def, THEN conjunct2, THEN conjunct2, rule_format, OF assms(2)] .

lemma efd_notify_ok:
  assumes "efd_ok ek" and "efd_notify ek k = (r, k')"
  shows "r = Inr ()" and "ek_count ek k' = min (ek_count ek k + 1) efd_max"
proof -
  obtain n a where w: "ek_write ek k = (n, a, k')" and r: "r = notify_loop n a"
    using assms(2) by (auto simp: efd_notify_def split: prod.splits)
  have le: "ek_count ek k \<le> efd_max"
    and "if ek_count ek k < efd_max then a = Inr 8 \<and> ek_count ek k' = ek_count ek k + 1
      else a = Inl WouldBlock \<and> ek_count ek k' = ek_count ek k"
    using efd_le [OF assms(1)] efd_write [OF assms(1) w] .
  then show "r = Inr ()" and "ek_count ek k' = min (ek_count ek k + 1) efd_max"
    by (auto simp: r notify_loop_eq split: if_splits)
qed

lemma efd_drain_ok:
  assumes "efd_ok ek" and "efd_drain ek k = (r, k')"
  shows "r = Inr (of_nat (ek_count ek k))" and "ek_count ek k' = 0" and "ek_count ek k \<le> efd_max"
proof -
  obtain n a where w: "ek_read ek k = (n, a, k')" and r: "r = drain_loop n a"
    using assms(2) by (auto simp: efd_drain_def split: prod.splits)
  have le: "ek_count ek k \<le> efd_max"
    and "if 0 < ek_count ek k then a = Inr (u64_to_le (of_nat (ek_count ek k))) \<and> ek_count ek k' = 0
      else a = Inl WouldBlock \<and> ek_count ek k' = 0"
    using efd_le [OF assms(1)] efd_read [OF assms(1) w] .
  then show "r = Inr (of_nat (ek_count ek k))" and "ek_count ek k' = 0"
      and "ek_count ek k \<le> efd_max"
    by (auto simp: r drain_loop_eq split: if_splits)
qed

interpretation efd_wakeup: counting_wakeup "efd_notify ek" "\<lambda>w. Some (efd_drain ek w)" "ek_count ek" "efd_ok ek" efd_max for ek
proof
  fix w r w'
  assume ok: "efd_ok ek" and n: "efd_notify ek w = (r, w')"
  show "r = Inr ()" and "ek_count ek w' = min (ek_count ek w + 1) efd_max"
    using efd_notify_ok [OF ok n] .
next
  fix w
  assume ok: "efd_ok ek"
  then show "ek_count ek w \<le> efd_max"
    by (rule efd_le)
  show "0 < efd_max"
    by (rule efd_max_bounds)
  obtain r w' where d: "efd_drain ek w = (r, w')"
    by force
  show "\<exists>n w'. Some (efd_drain ek w) = Some (Inr n, w') \<and> unat n = ek_count ek w \<and> ek_count ek w' = 0"
    using efd_drain_ok [OF ok d] efd_max_bounds by (simp add: d unat_of_nat take_bit_nat_eq_self)
qed

end
