(* ===== verification/Pipe_Fd.thy ===== *)
theory Pipe_Fd
  imports Event_Fd
begin

text \<open>
  The self-pipe backend of \<open>src/shm/eventfd.rs\<close>, used where \<open>eventfd(2)\<close> does not exist. The kernel's
  pipe is a parameter in the style of \<open>Event_Fd\<close>: \<open>pk_write\<close> answers a \<open>write(2)\<close> of one byte and
  \<open>pk_read\<close> a \<open>read(2)\<close> of at most the given number of bytes, each with the number of attempts that fail
  with \<open>EINTR\<close> before. \<open>pk_fcntl\<close> gives the answers of the three \<open>fcntl(2)\<close> calls that configure an end.
\<close>

record 'p pipe_kernel =
  pk_pipe :: "io_error + 'p"
  pk_fcntl :: "bool \<Rightarrow> io_error option \<times> io_error option \<times> io_error option"
  pk_write :: "'p \<Rightarrow> nat \<times> (io_error + nat) \<times> 'p"
  pk_read :: "'p \<Rightarrow> nat \<Rightarrow> nat \<times> (io_error + bytes) \<times> 'p"
  pk_count :: "'p \<Rightarrow> nat"
  pk_size :: nat

text \<open>
  \<open>pipe(2)\<close> with both ends non-blocking and the write end open: a write adds its byte unless the pipe
  is full, a read takes what there is up to the buffer's size.
\<close>

definition pipe_ok :: "'p pipe_kernel \<Rightarrow> bool" where
  "pipe_ok pk \<longleftrightarrow>
     0 < pk_size pk \<and> pk_size pk < 2 ^ 64 \<and> (\<forall>p. pk_count pk p \<le> pk_size pk) \<and>
     (\<forall>p n r p'. pk_write pk p = (n, r, p') \<longrightarrow>
        (if pk_count pk p < pk_size pk then r = Inr 1 \<and> pk_count pk p' = pk_count pk p + 1
         else r = Inl WouldBlock \<and> pk_count pk p' = pk_count pk p)) \<and>
     (\<forall>p len n r p'. pk_read pk p len = (n, r, p') \<longrightarrow>
        (if pk_count pk p = 0 then r = Inl WouldBlock \<and> pk_count pk p' = 0
         else \<exists>bs. r = Inr bs \<and> length bs = min len (pk_count pk p) \<and> pk_count pk p' = pk_count pk p - length bs))"

text \<open>The two ends of a handle; a handle received from the sender has no write end.\<close>

record 'p pipe_fd =
  pf_pipe :: 'p
  pf_write :: bool

definition configure_pipe_fd :: "io_error option \<times> io_error option \<times> io_error option \<Rightarrow> io_error + unit" where
  "configure_pipe_fd answers =
     (case answers of (setfd, getfl, setfl) \<Rightarrow>
        (case setfd of Some e \<Rightarrow> Inl e | None \<Rightarrow>
          (case getfl of Some e \<Rightarrow> Inl e | None \<Rightarrow>
            (case setfl of Some e \<Rightarrow> Inl e | None \<Rightarrow> Inr ()))))"

definition pipe_new :: "'p pipe_kernel \<Rightarrow> io_error + 'p pipe_fd" where
  "pipe_new pk =
     (case pk_pipe pk of
        Inl e \<Rightarrow> Inl e
      | Inr p \<Rightarrow>
          (case configure_pipe_fd (pk_fcntl pk False) of
             Inl e \<Rightarrow> Inl e
           | Inr _ \<Rightarrow>
               (case configure_pipe_fd (pk_fcntl pk True) of
                  Inl e \<Rightarrow> Inl e
                | Inr _ \<Rightarrow> Inr \<lparr>pf_pipe = p, pf_write = True\<rparr>)))"

definition pipe_from_owned_fd :: "'p \<Rightarrow> 'p pipe_fd" where
  "pipe_from_owned_fd p = \<lparr>pf_pipe = p, pf_write = False\<rparr>"

definition pipe_notify :: "'p pipe_kernel \<Rightarrow> 'p pipe_fd \<Rightarrow> (io_error + unit) \<times> 'p pipe_fd" where
  "pipe_notify pk h =
     (if \<not> pf_write h then (Inl Unsupported, h)
      else case pk_write pk (pf_pipe h) of
        (interrupts, answer, p) \<Rightarrow> (notify_loop interrupts answer, h\<lparr>pf_pipe := p\<rparr>))"

text \<open>The read after its interrupted attempts; the loop around it collects full buffers.\<close>

partial_function (option) pipe_drain_loop ::
  "'p pipe_kernel \<Rightarrow> u64 \<Rightarrow> 'p pipe_fd \<Rightarrow> ((io_error + u64) \<times> 'p pipe_fd) option" where
  "pipe_drain_loop pk seen h =
     (case pk_read pk (pf_pipe h) 64 of
        (interrupts, answer, p) \<Rightarrow>
          (let h' = h\<lparr>pf_pipe := p\<rparr>
           in case answer of
             Inl err \<Rightarrow> if err = WouldBlock then Some (Inr seen, h') else Some (Inl err, h')
           | Inr buf \<Rightarrow>
               if length buf = 0 then Some (Inr seen, h')
               else (let seen' = seen + of_nat (length buf)
                     in if length buf < 64 then Some (Inr seen', h') else pipe_drain_loop pk seen' h')))"

definition pipe_drain :: "'p pipe_kernel \<Rightarrow> 'p pipe_fd \<Rightarrow> ((io_error + u64) \<times> 'p pipe_fd) option" where
  "pipe_drain pk h = pipe_drain_loop pk 0 h"


section \<open>The pipe meets the wakeup contract\<close>

lemma pipe_size:
  assumes "pipe_ok pk"
  shows "0 < pk_size pk" and "pk_size pk < 2 ^ 64" and "pk_count pk p \<le> pk_size pk"
  using assms unfolding pipe_ok_def by blast+

lemma pipe_write:
  assumes "pipe_ok pk" and "pk_write pk p = (n, r, p')"
  shows "if pk_count pk p < pk_size pk then r = Inr 1 \<and> pk_count pk p' = pk_count pk p + 1
    else r = Inl WouldBlock \<and> pk_count pk p' = pk_count pk p"
  using assms unfolding pipe_ok_def by blast

lemma pipe_read:
  assumes "pipe_ok pk" and "pk_read pk p len = (n, r, p')"
  shows "if pk_count pk p = 0 then r = Inl WouldBlock \<and> pk_count pk p' = 0
    else \<exists>bs. r = Inr bs \<and> length bs = min len (pk_count pk p) \<and> pk_count pk p' = pk_count pk p - length bs"
  using assms unfolding pipe_ok_def by blast

lemma pipe_drain_loop_counts:
  assumes "pipe_ok pk"
  shows "\<exists>h'. pipe_drain_loop pk seen h = Some (Inr (seen + of_nat (pk_count pk (pf_pipe h))), h') \<and>
    pk_count pk (pf_pipe h') = 0 \<and> pf_write h' = pf_write h"
proof (induction "pk_count pk (pf_pipe h)" arbitrary: h seen rule: less_induct)
  case less
  obtain n r p where r: "pk_read pk (pf_pipe h) 64 = (n, r, p)"
    by (metis prod.exhaust)
  note a = pipe_read [OF assms r]
  show ?case
  proof (cases "pk_count pk (pf_pipe h) = 0")
    case True
    with a r show ?thesis by (subst pipe_drain_loop.simps) simp
  next
    case False
    with a obtain bs where bs: "r = Inr bs" "length bs = min 64 (pk_count pk (pf_pipe h))"
        "pk_count pk p = pk_count pk (pf_pipe h) - length bs"
      by auto
    show ?thesis
    proof (cases "length bs < 64")
      case True
      with r bs False show ?thesis by (subst pipe_drain_loop.simps) (auto simp: min_def split: if_splits)
    next
      case full: False
      then have c: "length bs = 64" "pk_count pk (pf_pipe h) = 64 + pk_count pk p"
        using bs by (auto simp: min_def split: if_splits)
      with False less [of "h\<lparr>pf_pipe := p\<rparr>" "seen + 64"] r bs(1) show ?thesis
        by (subst pipe_drain_loop.simps) (simp add: add.assoc)
    qed
  qed
qed

interpretation pipe_wakeup: counting_wakeup
  "\<lambda>p. map_prod id pf_pipe (pipe_notify pk \<lparr>pf_pipe = p, pf_write = True\<rparr>)"
  "\<lambda>p. map_option (map_prod id pf_pipe) (pipe_drain pk (pipe_from_owned_fd p))"
  "pk_count pk" "pipe_ok pk" "pk_size pk" for pk
proof
  fix w r w'
  assume ok: "pipe_ok pk" and "map_prod id pf_pipe (pipe_notify pk \<lparr>pf_pipe = w, pf_write = True\<rparr>) = (r, w')"
  then obtain n a where a: "pk_write pk w = (n, a, w')" "r = notify_loop n a"
    by (auto simp: pipe_notify_def split: prod.splits)
  with pipe_write [OF ok a(1)] pipe_size(1) [OF ok] pipe_size(3) [OF ok, of w] show "r = Inr ()" and "pk_count pk w' = min (pk_count pk w + 1) (pk_size pk)"
    by (auto simp: notify_loop_eq split: if_splits)
next
  fix w
  assume ok: "pipe_ok pk"
  then show "pk_count pk w \<le> pk_size pk" and "0 < pk_size pk"
    by (simp_all add: pipe_size)
next
  fix w
  assume ok: "pipe_ok pk"
  obtain h' where h': "pipe_drain pk (pipe_from_owned_fd w) = Some (Inr (of_nat (pk_count pk w)), h')"
      "pk_count pk (pf_pipe h') = 0"
    using pipe_drain_loop_counts [OF ok, of 0 "pipe_from_owned_fd w"]
    by (auto simp: pipe_drain_def pipe_from_owned_fd_def)
  have "pk_count pk w < 2 ^ 64"
    using pipe_size(2,3) [OF ok] by (rule le_less_trans [rotated])
  with h' show "\<exists>n w'. map_option (map_prod id pf_pipe) (pipe_drain pk (pipe_from_owned_fd w)) = Some (Inr n, w') \<and>
      unat n = pk_count pk w \<and> pk_count pk w' = 0"
    by (simp add: unat_of_nat take_bit_nat_eq_self)
qed


section \<open>A sample pipe and eventfd\<close>

definition nat_pipe :: "nat pipe_kernel" where
  "nat_pipe =
     \<lparr>pk_pipe = Inr 0, pk_fcntl = \<lambda>_. (None, None, None),
      pk_write = (\<lambda>k. (2, if k < 100 then Inr 1 else Inl WouldBlock, if k < 100 then k + 1 else k)),
      pk_read = (\<lambda>k len. (0, if min k 100 = 0 then Inl WouldBlock else Inr (replicate (min len (min k 100)) 1),
        min k 100 - min len (min k 100))),
      pk_count = (\<lambda>k. min k 100), pk_size = 100\<rparr>"

lemma nat_pipe_ok: "pipe_ok nat_pipe"
  by (auto simp: pipe_ok_def nat_pipe_def)

definition nat_efd :: "nat efd_kernel" where
  "nat_efd =
     \<lparr>ek_write = (\<lambda>k. (1, if k < efd_max then Inr 8 else Inl WouldBlock, if k < efd_max then k + 1 else k)),
      ek_read = (\<lambda>k. (0, if 0 < k then Inr (u64_to_le (of_nat (min k efd_max))) else Inl WouldBlock, 0)),
      ek_count = (\<lambda>k. min k efd_max)\<rparr>"

lemma nat_efd_ok: "efd_ok nat_efd"
  by (auto simp: efd_ok_def nat_efd_def efd_max_bounds(1) min_def)


section \<open>Properties of the wakeup\<close>

text \<open>
  C12: no wakeup is lost, with either backend. Whatever was pending before, after a notification a
  wait that is entered later returns, reports a positive count and leaves nothing pending. Other
  tasks may notify, but not drain, while the wait is suspended.
\<close>

theorem no_lost_wakeup:
  assumes "efd_ok ek" and "\<forall>v. \<exists>v'. readable v = Inr v' \<and> ek_count ek v \<le> ek_count ek v'"
    and "pipe_ok pk" and "\<forall>h. \<exists>p. p_readable h = Inr (pipe_from_owned_fd p) \<and> pk_count pk (pf_pipe h) \<le> pk_count pk p"
  shows "(\<exists>n w'. async_wait readable (\<lambda>w. Some (efd_drain ek w)) (snd (efd_notify ek w)) = Some (Inr n, w') \<and>
      n \<noteq> 0 \<and> ek_count ek w' = 0) \<and>
    (\<exists>n h'. async_wait p_readable (pipe_drain pk)
        (pipe_from_owned_fd (pf_pipe (snd (pipe_notify pk \<lparr>pf_pipe = p, pf_write = True\<rparr>)))) = Some (Inr n, h') \<and>
      n \<noteq> 0 \<and> pk_count pk (pf_pipe h') = 0)"
proof
  show "\<exists>n w'. async_wait readable (\<lambda>w. Some (efd_drain ek w)) (snd (efd_notify ek w)) = Some (Inr n, w') \<and>
      n \<noteq> 0 \<and> ek_count ek w' = 0"
    by (rule efd_wakeup.wait_after_notify [OF assms(1) surjective_pairing]) (use assms(2) in blast)
next
  let ?h = "snd (pipe_notify pk \<lparr>pf_pipe = p, pf_write = True\<rparr>)"
  obtain q where q: "p_readable (pipe_from_owned_fd (pf_pipe ?h)) = Inr (pipe_from_owned_fd q)"
      "pk_count pk (pf_pipe ?h) \<le> pk_count pk q"
    using assms(4) by (metis pipe_fd.select_convs(1) pipe_from_owned_fd_def)
  have "0 < pk_count pk (snd (map_prod id pf_pipe (pipe_notify pk \<lparr>pf_pipe = p, pf_write = True\<rparr>)))"
    using pipe_wakeup.notify_pending [OF assms(3) surjective_pairing] by blast
  then have pos: "0 < pk_count pk q"
    using q(2) by (simp add: snd_map_prod)
  obtain h' where d: "pipe_drain pk (pipe_from_owned_fd q) = Some (Inr (of_nat (pk_count pk q)), h')"
      "pk_count pk (pf_pipe h') = 0"
    using pipe_drain_loop_counts [OF assms(3), of 0 "pipe_from_owned_fd q"]
    by (auto simp: pipe_drain_def pipe_from_owned_fd_def)
  have "pk_count pk q < 2 ^ 64"
    using pipe_size(2,3) [OF assms(3)] by (rule le_less_trans [rotated])
  then have "unat (of_nat (pk_count pk q) :: u64) = pk_count pk q"
    by (simp add: unat_of_nat take_bit_nat_eq_self)
  with pos have "(of_nat (pk_count pk q) :: u64) \<noteq> 0"
    by (metis less_irrefl unsigned_0)
  with q d show "\<exists>n h'. async_wait p_readable (pipe_drain pk) (pipe_from_owned_fd (pf_pipe ?h)) = Some (Inr n, h') \<and>
      n \<noteq> 0 \<and> pk_count pk (pf_pipe h') = 0"
    by (subst async_wait.simps) simp
qed

theorem no_lost_wakeup_witness:
  "\<exists>n w'. async_wait Inr (\<lambda>w. Some (efd_drain nat_efd w)) (snd (efd_notify nat_efd 0)) = Some (Inr n, w') \<and>
     n \<noteq> 0 \<and> ek_count nat_efd w' = 0"
  using no_lost_wakeup [OF nat_efd_ok _ nat_pipe_ok, of Inr "\<lambda>h. Inr (pipe_from_owned_fd (pf_pipe h))" 0 0] by blast

text \<open>
  C37: a drain reports the number of notifications since the last one, up to the capacity of the
  kernel object, and then nothing is pending; a handle received from the sender, which has no
  write end, cannot notify.
\<close>

theorem drain_counts_notifications:
  assumes "efd_ok ek" and "ek_count ek w = 0" and "pipe_ok pk" and "pk_count pk p = 0"
  shows "(\<exists>n w'. efd_drain ek (notify_times (efd_notify ek) k w) = (Inr n, w') \<and> unat n = min k (2 ^ 64 - 2) \<and> ek_count ek w' = 0) \<and>
    (\<exists>n p'. map_option (map_prod id pf_pipe) (pipe_drain pk (pipe_from_owned_fd
        (notify_times (\<lambda>p. map_prod id pf_pipe (pipe_notify pk \<lparr>pf_pipe = p, pf_write = True\<rparr>)) k p))) = Some (Inr n, p') \<and>
      unat n = min k (pk_size pk) \<and> pk_count pk p' = 0) \<and>
    fst (pipe_notify pk (pipe_from_owned_fd p)) = Inl Unsupported"
  using efd_wakeup.drain_notify_times [OF assms(1,2), of k] pipe_wakeup.drain_notify_times [OF assms(3,4), of k]
  by (simp add: efd_max_def pipe_notify_def pipe_from_owned_fd_def)

theorem drain_counts_notifications_witness:
  "\<exists>n w'. efd_drain nat_efd (notify_times (efd_notify nat_efd) 5 0) = (Inr n, w') \<and> unat n = 5 \<and> ek_count nat_efd w' = 0"
  using drain_counts_notifications [OF nat_efd_ok _ nat_pipe_ok, of 0 0 5] by (simp add: nat_efd_def nat_pipe_def)

end
