(* ===== verification/Transport.thy ===== *)
theory Transport
  imports Shm_Ring Pipe_Fd
begin

text \<open>
  \<open>src/transport.rs\<close>: an outbound frame, and the per-connection sink that pushes it into the ring and
  wakes the consumer. The sink owns its ring's producer side and the descriptor of the wakeup; the
  shared region and the kernel object behind them are fields of it.
\<close>

record outbound_frame =
  of_header :: bytes
  of_payload :: bytes
  of_frame_start :: u64

definition total_len :: "outbound_frame \<Rightarrow> nat" where
  "total_len frame = length (of_header frame) + length (of_payload frame)"

record ('q, 'k) slot_sink =
  sk_ring :: ring_producer
  sk_region :: 'q
  sk_wakeup :: 'k

definition sink_shm :: "ring_producer \<Rightarrow> 'q \<Rightarrow> 'k \<Rightarrow> ('q, 'k) slot_sink" where
  "sink_shm ring region wakeup = \<lparr>sk_ring = ring, sk_region = region, sk_wakeup = wakeup\<rparr>"

text \<open>A failed notification is logged and does not change the result.\<close>

definition sink_try_push ::
  "'q shaq \<Rightarrow> 'k efd_kernel \<Rightarrow> ('q, 'k) slot_sink \<Rightarrow> outbound_frame \<Rightarrow>
     (outbound_frame + unit) \<times> ('q, 'k) slot_sink" where
  "sink_try_push sq ek sink frame =
     (case ring_try_push sq (sk_ring sink) (sk_region sink) [of_header frame, of_payload frame] of
        (Ok _, ring, region) \<Rightarrow>
          (case efd_notify ek (sk_wakeup sink) of
             (_, wakeup) \<Rightarrow> (Inr (), \<lparr>sk_ring = ring, sk_region = region, sk_wakeup = wakeup\<rparr>))
      | (_, ring, region) \<Rightarrow> (Inl frame, sink\<lparr>sk_ring := ring, sk_region := region\<rparr>))"

definition sink_close :: "'q shaq \<Rightarrow> 'k efd_kernel \<Rightarrow> ('q, 'k) slot_sink \<Rightarrow> ('q, 'k) slot_sink" where
  "sink_close sq ek sink =
     sink\<lparr>sk_region := ring_close sq (sk_region sink),
          sk_wakeup := snd (efd_notify ek (sk_wakeup sink))\<rparr>"

text \<open>What a sink holds: the items of its ring, independently of the consumer's own flag.\<close>

definition sink_rep :: "'q shaq \<Rightarrow> ('q, 'k) slot_sink \<Rightarrow> ring_item list \<Rightarrow> bool" where
  "sink_rep sq sink items \<longleftrightarrow> (\<forall>c. ring_rep sq (sk_ring sink, c, sk_region sink) items)"

abbreviation frame_body :: "outbound_frame \<Rightarrow> bytes" where
  "frame_body frame \<equiv> of_header frame @ of_payload frame"

abbreviation sink_fits :: "('q, 'k) slot_sink \<Rightarrow> ring_item list \<Rightarrow> outbound_frame \<Rightarrow> bool" where
  "sink_fits sink items frame \<equiv>
     used items + item_size (Frame (frame_body frame)) \<le> rp_capacity (sk_ring sink)"

lemma ring_rep_any: "ring_rep sq (p, c, q) items \<longleftrightarrow> ring_rep sq (p, c', q) items"
  by (simp add: ring_rep_def)

lemma sink_rep_ring: "sink_rep sq sink items \<longleftrightarrow> ring_rep sq (sk_ring sink, c, sk_region sink) items"
  unfolding sink_rep_def using ring_rep_any by metis

lemma sink_try_push_fits:
  assumes "sink_rep sq sink items" and "efd_ok ek" and "valid_item (Frame (frame_body frame))"
    and "sink_fits sink items frame"
  obtains sink' where "sink_try_push sq ek sink frame = (Inr (), sink')"
    and "sink_rep sq sink' (items @ [Frame (frame_body frame)])"
    and "sk_ring sink' = sk_ring sink" and "0 < ek_count ek (sk_wakeup sink')"
proof -
  fix c :: ring_consumer
  let ?parts = "[of_header frame, of_payload frame]"
  note rep = ring_repD [OF assms(1) [unfolded sink_rep_ring [of _ _ _ c]]]
  obtain q' where q': "ring_try_push sq (sk_ring sink) (sk_region sink) ?parts = (Ok (), sk_ring sink, q')"
      "sq_contents sq q' = sq_contents sq (sk_region sink) @ item_bytes (Frame (concat ?parts))"
      "sq_room sq q' = sq_room sq (sk_region sink)"
    by (rule ring_try_push_fits [OF rep(1,3), of ?parts]) (use assms(3,4) rep(4) in simp_all)
  obtain w where w: "efd_notify ek (sk_wakeup sink) = (Inr (), w)" and "0 < ek_count ek w"
    using efd_wakeup.notify_pending [OF assms(2)] by (metis prod.exhaust)
  with q' rep assms(3) that show thesis
    by (simp add: sink_try_push_def sink_rep_def ring_rep_def)
qed

lemma sink_try_push_refused:
  assumes "sink_rep sq sink items" and "\<not> sink_fits sink items frame"
  obtains d q' where "sink_try_push sq ek sink frame =
      (Inl frame, sink\<lparr>sk_ring := (sk_ring sink)\<lparr>rp_dropped_frames := d\<rparr>, sk_region := q'\<rparr>)"
    and "sink_rep sq (sink\<lparr>sk_ring := (sk_ring sink)\<lparr>rp_dropped_frames := d\<rparr>, sk_region := q'\<rparr>) items"
proof -
  fix c :: ring_consumer
  let ?parts = "[of_header frame, of_payload frame]"
  note rep = ring_repD [OF assms(1) [unfolded sink_rep_ring [of _ _ _ c]]]
  obtain e d q' where "ring_try_push sq (sk_ring sink) (sk_region sink) ?parts =
        (Err e, (sk_ring sink)\<lparr>rp_dropped_frames := d\<rparr>, q')"
      "sq_contents sq q' = sq_contents sq (sk_region sink)" "sq_room sq q' = sq_room sq (sk_region sink)"
    by (rule ring_try_push_refused [OF rep(1,3), of ?parts]) (use assms(2) rep(4) in simp_all)
  with rep that show thesis
    by (simp add: sink_try_push_def sink_rep_def ring_rep_def)
qed

lemma sink_close_rep:
  assumes "sink_rep sq sink items" and "efd_ok ek"
  shows "sink_rep sq (sink_close sq ek sink)
      (if used items + 4 \<le> rp_capacity (sk_ring sink) then items @ [CloseMark] else items)"
    and "sk_ring (sink_close sq ek sink) = sk_ring sink"
    and "0 < ek_count ek (sk_wakeup (sink_close sq ek sink))"
proof -
  show "sink_rep sq (sink_close sq ek sink)
      (if used items + 4 \<le> rp_capacity (sk_ring sink) then items @ [CloseMark] else items)"
    using ring_channel.close_rep [of sq "(sk_ring sink, c, sk_region sink)" items for c] assms(1)
    unfolding sink_rep_def by (simp add: sys_close_def sink_close_def)
  show "sk_ring (sink_close sq ek sink) = sk_ring sink"
    by (simp add: sink_close_def)
  show "0 < ek_count ek (sk_wakeup (sink_close sq ek sink))"
    using efd_wakeup.notify_pending [OF assms(2) surjective_pairing] by (simp add: sink_close_def)
qed

end
