(* ===== verification/Metrics.thy ===== *)
theory Metrics
  imports Errors
begin

text \<open>
  The aggregators of \<open>src/metrics.rs\<close>. Each atomic is a field; the operations are relaxed but
  each touches its own atomic, and the model runs one operation at a time. Arithmetic on the
  counters wraps, as \<open>fetch_add\<close> does. Clock readings are arguments.
\<close>

section \<open>Clocks\<close>

text \<open>\<open>SystemTime\<close> as nanoseconds since the epoch, negative before it (then \<open>unwrap_or_default\<close>).\<close>

definition unix_time_nanos :: "int \<Rightarrow> u64" where
  "unix_time_nanos system_time =
     of_nat (min (nat (if system_time < 0 then 0 else system_time)) (2 ^ 64 - 1))"

definition elapsed_since_unix_time_nanos_us :: "int \<Rightarrow> u64 \<Rightarrow> u64" where
  "elapsed_since_unix_time_nanos_us system_time start_nanos =
     (if start_nanos = 0 then 0
      else
        let elapsed_nanos = sat_sub (unix_time_nanos system_time) start_nanos in
        if elapsed_nanos = 0 then 0 else sat_add elapsed_nanos 999 div 1000)"


section \<open>Latency and counter aggregators\<close>

record latency_aggregator =
  la_sum_us :: u64
  la_count :: u64
  la_min_us :: u64
  la_max_us :: u64

definition latency_default :: latency_aggregator where
  "latency_default = \<lparr>la_sum_us = 0, la_count = 0, la_min_us = - 1, la_max_us = 0\<rparr>"

definition latency_record :: "latency_aggregator \<Rightarrow> u64 \<Rightarrow> latency_aggregator" where
  "latency_record a elapsed_us =
     \<lparr>la_sum_us = la_sum_us a + elapsed_us, la_count = la_count a + 1,
      la_min_us = min (la_min_us a) elapsed_us, la_max_us = max (la_max_us a) elapsed_us\<rparr>"

record latency_snapshot =
  ls_count :: u64
  ls_total_us :: u64
  ls_min_us :: u64
  ls_max_us :: u64

definition latency_flush :: "latency_aggregator \<Rightarrow> latency_snapshot \<times> latency_aggregator" where
  "latency_flush a =
     (\<lparr>ls_count = la_count a, ls_total_us = la_sum_us a,
       ls_min_us = (if la_count a = 0 then 0 else la_min_us a), ls_max_us = la_max_us a\<rparr>,
      \<lparr>la_sum_us = 0, la_count = 0, la_min_us = - 1, la_max_us = 0\<rparr>)"

definition avg_us :: "latency_snapshot \<Rightarrow> u64" where
  "avg_us s = (if ls_count s = 0 then 0 else ls_total_us s div ls_count s)"

record counter_aggregator =
  ca_value :: u64

definition counter_default :: counter_aggregator where
  "counter_default = \<lparr>ca_value = 0\<rparr>"

definition counter_add :: "counter_aggregator \<Rightarrow> u64 \<Rightarrow> counter_aggregator" where
  "counter_add c n = \<lparr>ca_value = ca_value c + n\<rparr>"

definition counter_inc :: "counter_aggregator \<Rightarrow> counter_aggregator" where
  "counter_inc c = \<lparr>ca_value = ca_value c + 1\<rparr>"

definition counter_flush :: "counter_aggregator \<Rightarrow> u64 \<times> counter_aggregator" where
  "counter_flush c = (ca_value c, \<lparr>ca_value = 0\<rparr>)"

definition counter_peek :: "counter_aggregator \<Rightarrow> u64" where
  "counter_peek c = ca_value c"

record sender_metrics =
  sm_dispatch :: latency_aggregator
  sm_shm_send :: latency_aggregator
  sm_shm_ring_full :: counter_aggregator

definition sender_metrics_new :: sender_metrics where
  "sender_metrics_new =
     \<lparr>sm_dispatch = latency_default, sm_shm_send = latency_default,
      sm_shm_ring_full = counter_default\<rparr>"

record consumer_metrics =
  cm_read :: latency_aggregator
  cm_decode :: latency_aggregator
  cm_enqueue :: latency_aggregator
  cm_full_read :: latency_aggregator

definition consumer_metrics_new :: consumer_metrics where
  "consumer_metrics_new =
     \<lparr>cm_read = latency_default, cm_decode = latency_default, cm_enqueue = latency_default,
      cm_full_read = latency_default\<rparr>"


section \<open>What a flush reports\<close>

definition latency_records :: "u64 list \<Rightarrow> latency_aggregator" where
  "latency_records xs = fold (\<lambda>x a. latency_record a x) xs latency_default"

lemma latency_fold_fields:
  "la_sum_us (fold (\<lambda>x a. latency_record a x) xs a) = la_sum_us a + sum_list xs"
  "la_count (fold (\<lambda>x a. latency_record a x) xs a) = la_count a + of_nat (length xs)"
  "la_min_us (fold (\<lambda>x a. latency_record a x) xs a) = fold min xs (la_min_us a)"
  "la_max_us (fold (\<lambda>x a. latency_record a x) xs a) = fold max xs (la_max_us a)"
  by (induction xs arbitrary: a)
     (simp_all add: latency_record_def add.assoc min.commute max.commute)

lemma fold_min_eq: "xs \<noteq> [] \<Longrightarrow> fold min xs (- 1 :: u64) = Min (set xs)"
proof -
  assume "xs \<noteq> []"
  then have "Min (insert (- 1) (set xs)) = Min (set xs)"
    by (simp add: min_absorb2 word_n1_ge)
  then show ?thesis
    by (simp flip: Min.set_eq_fold)
qed

lemma fold_max_eq: "xs \<noteq> [] \<Longrightarrow> fold max xs (0 :: u64) = Max (set xs)"
proof -
  assume "xs \<noteq> []"
  then have "Max (insert 0 (set xs)) = Max (set xs)"
    by (simp add: max_def)
  then show ?thesis
    by (simp flip: Max.set_eq_fold)
qed

lemma latency_records_fields:
  "la_sum_us (latency_records xs) = sum_list xs"
  "la_count (latency_records xs) = of_nat (length xs)"
  "xs \<noteq> [] \<Longrightarrow> la_min_us (latency_records xs) = Min (set xs)"
  "xs \<noteq> [] \<Longrightarrow> la_max_us (latency_records xs) = Max (set xs)"
  by (simp_all add: latency_records_def latency_fold_fields fold_min_eq fold_max_eq
      latency_default_def)

lemma unat_sum_list:
  "sum_list (map unat xs) < 2 ^ 64 \<Longrightarrow> unat (sum_list xs :: u64) = sum_list (map unat xs)"
proof (induction xs)
  case (Cons x xs)
  then show ?case by (simp add: unat_word_ariths)
qed simp

text \<open>
  C40: After any sequence of at least one and fewer than \<open>2^64\<close> recordings whose sum fits 64 bits,
  a flush reports exactly their number, sum, minimum and maximum, the average is the integer
  mean, and the aggregator is back in its initial state; a flush of an idle aggregator reports zeros.
\<close>

theorem latency_flush_reports:
  assumes "xs \<noteq> []" and "length xs < 2 ^ 64" and "sum_list (map unat xs) < 2 ^ 64"
  shows "let (s, a) = latency_flush (latency_records xs) in
     unat (ls_count s) = length xs \<and> unat (ls_total_us s) = sum_list (map unat xs) \<and>
     ls_min_us s = Min (set xs) \<and> ls_max_us s = Max (set xs) \<and>
     unat (avg_us s) = sum_list (map unat xs) div length xs \<and> a = latency_default"
proof -
  have n: "unat (of_nat (length xs) :: u64) = length xs"
    using assms(2) by (simp add: unat_of_nat)
  then have "(of_nat (length xs) :: u64) \<noteq> 0"
    using assms(1) by (metis length_greater_0_conv less_irrefl unat_0)
  then show ?thesis
    using assms n by (simp add: latency_flush_def latency_records_fields unat_sum_list
        avg_us_def unat_div latency_default_def)
qed

theorem latency_flush_reports_witness:
  "let (s, a) = latency_flush (latency_records [5, 9, 2]) in
     unat (ls_count s) = length [5, 9, 2 :: u64] \<and>
     unat (ls_total_us s) = sum_list (map unat [5, 9, 2 :: u64]) \<and>
     ls_min_us s = Min (set [5, 9, 2]) \<and> ls_max_us s = Max (set [5, 9, 2]) \<and>
     unat (avg_us s) = sum_list (map unat [5, 9, 2 :: u64]) div length [5, 9, 2 :: u64] \<and>
     a = latency_default"
  by (rule latency_flush_reports) simp_all

end
