(* ===== verification/Connection_Manager.thy ===== *)
theory Connection_Manager
  imports Subscription_Filter Stream_Updates Transport Metrics
begin

text \<open>
  \<open>ConnectionManager\<close> of \<open>src/sender/mod.rs\<close>: ten slots of connections, their lookup, expiry,
  installation, and the fan-out of account, transaction and slot updates.

  The connections are shared objects (\<open>Arc<ManagedConnection>\<close>): they live in a heap, a slot holds a
  pointer, and \<open>compare_and_swap\<close> compares pointers, as \<open>ArcSwapOption\<close> does. An operation is one
  step. The last reference to a removed connection goes away with that step, and dropping its ring
  unlinks the ring's file, so removal from a slot includes it. Clock readings are arguments: \<open>clk i\<close> is
  the reading taken when slot \<open>i\<close> is examined, so the clock may move, even backwards, during a pass.
\<close>

section \<open>State\<close>

definition MAX_CONNECTION_SLOTS :: nat where
  [const_defs]: "MAX_CONNECTION_SLOTS = 10"

definition SLOT_IDLE_TIMEOUT_MS :: u64 where
  [const_defs]: "SLOT_IDLE_TIMEOUT_MS = 30 * 1000"

text \<open>The code outside the crate that the sender calls, and the answers of the operating system.\<close>

record ('q, 'k, 'b) sender_env =
  se_shaq :: "'q shaq"
  se_efd :: "'k efd_kernel"
  se_bloom :: "'b bloom"
  se_lz4 :: lz4
  se_fs :: fs_env
  se_eventfd :: "(string + 'k)"
  se_pid :: nat

definition sender_env_ok :: "('q, 'k, 'b) sender_env \<Rightarrow> bool" where
  "sender_env_ok env \<longleftrightarrow> shaq_ok (se_shaq env) \<and> efd_ok (se_efd env) \<and> bloom_ok (se_bloom env)"

record ('q, 'k, 'b) managed_connection =
  mc_slot_index :: nat
  mc_connection_id :: u64
  mc_filter :: "'b subscription_filter"
  mc_sink :: "('q, 'k) slot_sink"
  mc_last_seen_ms :: u64

type_synonym ptr = nat

record ('q, 'k, 'b) connection_manager =
  mg_connections :: "ptr option list"
  mg_next_connection_id :: u64
  mg_heap :: "ptr \<rightharpoonup> ('q, 'k, 'b) managed_connection"
  mg_next_ptr :: ptr
  mg_files :: file_system

datatype shm_slot_provision =
    Existing slot_token
  | Created slot_token string u64 ptr


section \<open>Slots\<close>

definition manager_new :: "file_system \<Rightarrow> ('q, 'k, 'b) connection_manager" where
  "manager_new fs =
     \<lparr>mg_connections = replicate MAX_CONNECTION_SLOTS None, mg_next_connection_id = 1,
      mg_heap = Map.empty, mg_next_ptr = 0, mg_files = fs\<rparr>"

text \<open>
  \<open>load_full\<close> of a slot. Every index the code uses is below ten (\<open>mgr_inv\<close> below for the ones read
  from a connection); the array has no other index.
\<close>

definition load_full :: "('q, 'k, 'b) connection_manager \<Rightarrow> nat \<Rightarrow> ptr option" where
  "load_full m idx = (if idx < length (mg_connections m) then mg_connections m ! idx else None)"

definition compare_and_swap ::
  "('q, 'k, 'b) connection_manager \<Rightarrow> nat \<Rightarrow> ptr option \<Rightarrow> ptr option \<Rightarrow>
     ptr option \<times> ('q, 'k, 'b) connection_manager" where
  "compare_and_swap m idx expected new =
     (let previous = load_full m idx
      in (previous, if previous = expected then m\<lparr>mg_connections := (mg_connections m)[idx := new]\<rparr> else m))"

text \<open>Writes through a shared pointer.\<close>

definition set_connection ::
  "('q, 'k, 'b) connection_manager \<Rightarrow> ptr \<Rightarrow> ('q, 'k, 'b) managed_connection \<Rightarrow>
     ('q, 'k, 'b) connection_manager" where
  "set_connection m p e = m\<lparr>mg_heap := (mg_heap m)(p \<mapsto> e)\<rparr>"

definition close_connection ::
  "('q, 'k, 'b) sender_env \<Rightarrow> ('q, 'k, 'b) managed_connection \<Rightarrow> ('q, 'k, 'b) managed_connection" where
  "close_connection env e = e\<lparr>mc_sink := sink_close (se_shaq env) (se_efd env) (mc_sink e)\<rparr>"

text \<open>\<open>compare_and_swap(&expected, None)\<close>, and the drop of the connection if it was swapped out.\<close>

definition swap_out ::
  "('q, 'k, 'b) connection_manager \<Rightarrow> nat \<Rightarrow> ptr \<Rightarrow> ('q, 'k, 'b) managed_connection \<Rightarrow>
     ('q, 'k, 'b) connection_manager" where
  "swap_out m idx p e =
     (case compare_and_swap m idx (Some p) None of
        (previous, m') \<Rightarrow>
          if previous = Some p then m'\<lparr>mg_files := ring_drop (sk_ring (mc_sink e)) (mg_files m')\<rparr> else m')"

text \<open>
  The clock of the manager: milliseconds since the epoch, from the system time in nanoseconds; 0 before
  the epoch, and cut to 64 bits.
\<close>

definition now_ms :: "int \<Rightarrow> u64" where
  "now_ms system_time = of_nat (nat (if system_time < 0 then 0 else system_time) div 1000000)"

definition is_stale :: "u64 \<Rightarrow> ('q, 'k, 'b) managed_connection \<Rightarrow> bool" where
  "is_stale now e \<longleftrightarrow> sat_sub now (mc_last_seen_ms e) > SLOT_IDLE_TIMEOUT_MS"

definition cleanup_if_same ::
  "('q, 'k, 'b) sender_env \<Rightarrow> ('q, 'k, 'b) connection_manager \<Rightarrow> nat \<Rightarrow> u64 \<Rightarrow>
     ('q, 'k, 'b) connection_manager" where
  "cleanup_if_same env m slot_index connection_id =
     (case load_full m slot_index of
        None \<Rightarrow> m
      | Some p \<Rightarrow>
          (case mg_heap m p of
             None \<Rightarrow> m
           | Some e \<Rightarrow>
               if mc_connection_id e = connection_id
               then swap_out (set_connection m p (close_connection env e)) slot_index p e
               else m))"

definition maybe_cleanup_stale_slot ::
  "('q, 'k, 'b) sender_env \<Rightarrow> u64 \<Rightarrow> ('q, 'k, 'b) connection_manager \<Rightarrow> nat \<Rightarrow> ptr \<Rightarrow>
     bool \<times> ('q, 'k, 'b) connection_manager" where
  "maybe_cleanup_stale_slot env now m idx p =
     (case mg_heap m p of
        None \<Rightarrow> (False, m)
      | Some e \<Rightarrow>
          if \<not> is_stale now e then (False, m)
          else (True, swap_out (set_connection m p (close_connection env e)) idx p e))"

definition connection_token :: "('q, 'k, 'b) managed_connection \<Rightarrow> slot_token" where
  "connection_token e = slot_token_new (of_nat (mc_slot_index e)) (mc_connection_id e)"

definition lookup_by_token ::
  "('q, 'k, 'b) sender_env \<Rightarrow> u64 \<Rightarrow> ('q, 'k, 'b) connection_manager \<Rightarrow> slot_token \<Rightarrow>
     ptr option \<times> ('q, 'k, 'b) connection_manager" where
  "lookup_by_token env now m token =
     (let idx = unat (st_slot_index token)
      in if idx \<ge> MAX_CONNECTION_SLOTS then (None, m)
         else case load_full m idx of
           None \<Rightarrow> (None, m)
         | Some p \<Rightarrow>
             (case mg_heap m p of
                None \<Rightarrow> (None, m)
              | Some e \<Rightarrow>
                  if mc_connection_id e \<noteq> st_generation token then (None, m)
                  else (case maybe_cleanup_stale_slot env now m idx p of
                          (True, m') \<Rightarrow> (None, m')
                        | (False, m') \<Rightarrow> (Some p, m'))))"

primrec find_free_from ::
  "('q, 'k, 'b) sender_env \<Rightarrow> (nat \<Rightarrow> u64) \<Rightarrow> nat list \<Rightarrow> ('q, 'k, 'b) connection_manager \<Rightarrow>
     nat option \<times> ('q, 'k, 'b) connection_manager" where
  "find_free_from env clk [] m = (None, m)"
| "find_free_from env clk (idx # rest) m =
     (case load_full m idx of
        None \<Rightarrow> (Some idx, m)
      | Some p \<Rightarrow>
          (case maybe_cleanup_stale_slot env (clk idx) m idx p of
             (True, m') \<Rightarrow> if load_full m' idx = None then (Some idx, m') else find_free_from env clk rest m'
           | (False, m') \<Rightarrow> find_free_from env clk rest m'))"

definition find_free_slot ::
  "('q, 'k, 'b) sender_env \<Rightarrow> (nat \<Rightarrow> u64) \<Rightarrow> ('q, 'k, 'b) connection_manager \<Rightarrow>
     nat option \<times> ('q, 'k, 'b) connection_manager" where
  "find_free_slot env clk m = find_free_from env clk [0..<MAX_CONNECTION_SLOTS] m"

text \<open>\<open>now1\<close> is read by the lookup, \<open>now2\<close> afterwards for the timestamp.\<close>

definition touch_connection ::
  "('q, 'k, 'b) connection_manager \<Rightarrow> ptr \<Rightarrow> u64 \<Rightarrow> ('q, 'k, 'b) connection_manager" where
  "touch_connection m p now =
     (case mg_heap m p of None \<Rightarrow> m | Some e \<Rightarrow> set_connection m p (e\<lparr>mc_last_seen_ms := now\<rparr>))"

definition touch_ping ::
  "('q, 'k, 'b) sender_env \<Rightarrow> u64 \<Rightarrow> u64 \<Rightarrow> ('q, 'k, 'b) connection_manager \<Rightarrow> ping_request \<Rightarrow>
     bool \<times> ('q, 'k, 'b) connection_manager" where
  "touch_ping env now1 now2 m ping =
     (case lookup_by_token env now1 m (pr_slot_token ping) of
        (Some p, m') \<Rightarrow> (True, touch_connection m' p now2)
      | (None, m') \<Rightarrow> (False, m'))"


section \<open>Dispatch\<close>

definition encode_account_frame ::
  "('q, 'k, 'b) sender_env \<Rightarrow> u64 \<Rightarrow> u64 \<Rightarrow> account_update \<Rightarrow> outbound_frame qresult" where
  "encode_account_frame env instant nanos update =
     bindR (account_encode_parts_at (se_lz4 env) update nanos)
       (\<lambda>(header, payload). Ok \<lparr>of_header = header, of_payload = payload, of_frame_start = instant\<rparr>)"

definition encode_transaction_frame :: "u64 \<Rightarrow> u64 \<Rightarrow> transaction_update \<Rightarrow> outbound_frame qresult" where
  "encode_transaction_frame instant nanos update =
     bindR (transaction_encode_parts_at update nanos)
       (\<lambda>(header, payload). Ok \<lparr>of_header = header, of_payload = payload, of_frame_start = instant\<rparr>)"

definition encode_slot_frame :: "u64 \<Rightarrow> u64 \<Rightarrow> slot_update \<Rightarrow> outbound_frame qresult" where
  "encode_slot_frame instant nanos update =
     bindR (slot_encode_parts_at update nanos)
       (\<lambda>(header, payload). Ok \<lparr>of_header = header, of_payload = payload, of_frame_start = instant\<rparr>)"

text \<open>\<open>now_us\<close> is the monotonic clock in microseconds when the push has returned.\<close>

definition push_to_entry ::
  "('q, 'k, 'b) sender_env \<Rightarrow> u64 \<Rightarrow> ptr \<Rightarrow> outbound_frame \<Rightarrow>
     ('q, 'k, 'b) connection_manager \<times> sender_metrics \<Rightarrow> ('q, 'k, 'b) connection_manager \<times> sender_metrics" where
  "push_to_entry env now_us p frame = (\<lambda>(m, metrics).
     (case mg_heap m p of
        None \<Rightarrow> (m, metrics)
      | Some e \<Rightarrow>
          (case sink_try_push (se_shaq env) (se_efd env) (mc_sink e) frame of
             (Inr _, sink) \<Rightarrow>
               (set_connection m p (e\<lparr>mc_sink := sink\<rparr>),
                metrics\<lparr>sm_shm_send := latency_record (sm_shm_send metrics) (now_us - of_frame_start frame)\<rparr>)
           | (Inl _, sink) \<Rightarrow>
               (cleanup_if_same env (set_connection m p (e\<lparr>mc_sink := sink\<rparr>)) (mc_slot_index e)
                  (mc_connection_id e),
                metrics\<lparr>sm_shm_ring_full := counter_inc (sm_shm_ring_full metrics)\<rparr>))))"

text \<open>
  The loop the three dispatch functions have in common: \<open>matches\<close> is the filter's test, \<open>encode\<close> the
  call of the encoder, \<open>shared_frame\<close> the frame once it is encoded. An encoding error ends the pass;
  the encoders never panic.
\<close>

primrec dispatch_slots ::
  "('q, 'k, 'b) sender_env \<Rightarrow> (nat \<Rightarrow> u64) \<Rightarrow> (nat \<Rightarrow> u64) \<Rightarrow> ('b subscription_filter \<Rightarrow> bool) \<Rightarrow>
     outbound_frame qresult \<Rightarrow> nat list \<Rightarrow> outbound_frame option \<Rightarrow>
     ('q, 'k, 'b) connection_manager \<times> sender_metrics \<Rightarrow> ('q, 'k, 'b) connection_manager \<times> sender_metrics" where
  "dispatch_slots env clk clk_us matches encode [] shared_frame s = s"
| "dispatch_slots env clk clk_us matches encode (idx # rest) shared_frame s =
     (case load_full (fst s) idx of
        None \<Rightarrow> dispatch_slots env clk clk_us matches encode rest shared_frame s
      | Some p \<Rightarrow>
          (case maybe_cleanup_stale_slot env (clk idx) (fst s) idx p of
             (True, m') \<Rightarrow> dispatch_slots env clk clk_us matches encode rest shared_frame (m', snd s)
           | (False, m') \<Rightarrow>
               if \<not> (case mg_heap m' p of None \<Rightarrow> False | Some e \<Rightarrow> matches (mc_filter e))
               then dispatch_slots env clk clk_us matches encode rest shared_frame (m', snd s)
               else (case (case shared_frame of Some frame \<Rightarrow> Ok frame | None \<Rightarrow> encode) of
                       Ok frame \<Rightarrow>
                         dispatch_slots env clk clk_us matches encode rest (Some frame)
                           (push_to_entry env (clk_us idx) p frame (m', snd s))
                     | _ \<Rightarrow> (m', snd s))))"

text \<open>The pass over all slots and the duration recorded on every way out; \<open>start\<close> and \<open>finish\<close> in microseconds.\<close>

definition dispatch_with ::
  "('q, 'k, 'b) sender_env \<Rightarrow> (nat \<Rightarrow> u64) \<Rightarrow> (nat \<Rightarrow> u64) \<Rightarrow> u64 \<Rightarrow> u64 \<Rightarrow>
     ('b subscription_filter \<Rightarrow> bool) \<Rightarrow> outbound_frame qresult \<Rightarrow>
     ('q, 'k, 'b) connection_manager \<times> sender_metrics \<Rightarrow> ('q, 'k, 'b) connection_manager \<times> sender_metrics" where
  "dispatch_with env clk clk_us start finish matches encode s =
     (case dispatch_slots env clk clk_us matches encode [0..<MAX_CONNECTION_SLOTS] None s of
        (m, metrics) \<Rightarrow>
          (m, metrics\<lparr>sm_dispatch := latency_record (sm_dispatch metrics) (finish - start)\<rparr>))"

definition dispatch_account_update ::
  "('q, 'k, 'b) sender_env \<Rightarrow> (nat \<Rightarrow> u64) \<Rightarrow> (nat \<Rightarrow> u64) \<Rightarrow> u64 \<Rightarrow> u64 \<Rightarrow> u64 \<Rightarrow> u64 \<Rightarrow> account_update \<Rightarrow>
     ('q, 'k, 'b) connection_manager \<times> sender_metrics \<Rightarrow> ('q, 'k, 'b) connection_manager \<times> sender_metrics" where
  "dispatch_account_update env clk clk_us start finish instant nanos update s =
     dispatch_with env clk clk_us start finish (\<lambda>f. matches_account (se_bloom env) f update)
       (encode_account_frame env instant nanos update) s"

definition dispatch_transaction_update ::
  "('q, 'k, 'b) sender_env \<Rightarrow> (nat \<Rightarrow> u64) \<Rightarrow> (nat \<Rightarrow> u64) \<Rightarrow> u64 \<Rightarrow> u64 \<Rightarrow> u64 \<Rightarrow> u64 \<Rightarrow> transaction_update \<Rightarrow>
     ('q, 'k, 'b) connection_manager \<times> sender_metrics \<Rightarrow> ('q, 'k, 'b) connection_manager \<times> sender_metrics" where
  "dispatch_transaction_update env clk clk_us start finish instant nanos update s =
     dispatch_with env clk clk_us start finish matches_transaction
       (encode_transaction_frame instant nanos update) s"

definition dispatch_slot_update ::
  "('q, 'k, 'b) sender_env \<Rightarrow> (nat \<Rightarrow> u64) \<Rightarrow> (nat \<Rightarrow> u64) \<Rightarrow> u64 \<Rightarrow> u64 \<Rightarrow> u64 \<Rightarrow> u64 \<Rightarrow> slot_update \<Rightarrow>
     ('q, 'k, 'b) connection_manager \<times> sender_metrics \<Rightarrow> ('q, 'k, 'b) connection_manager \<times> sender_metrics" where
  "dispatch_slot_update env clk clk_us start finish instant nanos update s =
     dispatch_with env clk clk_us start finish (\<lambda>_. True) (encode_slot_frame instant nanos update) s"


section \<open>Subscription\<close>

definition apply_request ::
  "'b bloom \<Rightarrow> ('q, 'k, 'b) managed_connection \<Rightarrow> subscription_request \<Rightarrow> ('q, 'k, 'b) managed_connection" where
  "apply_request bl e request = e\<lparr>mc_filter := filter_with_request bl (mc_filter e) request\<rparr>"

text \<open>\<open>Path::join\<close> of a relative name.\<close>

definition path_join :: "string \<Rightarrow> string \<Rightarrow> string" where
  "path_join dir name =
     (if dir = [] then name else if last dir = CHR ''/'' then dir @ name else dir @ ''/'' @ name)"

definition ring_file_name :: "nat \<Rightarrow> nat \<Rightarrow> u64 \<Rightarrow> string" where
  "ring_file_name pid slot_index connection_id =
     show_nat pid @ ''-'' @ show_nat slot_index @ ''-'' @ show_nat (unat connection_id)"

definition allocate ::
  "('q, 'k, 'b) connection_manager \<Rightarrow> ('q, 'k, 'b) managed_connection \<Rightarrow> ptr \<times> ('q, 'k, 'b) connection_manager" where
  "allocate m e =
     (mg_next_ptr m, m\<lparr>mg_heap := (mg_heap m)(mg_next_ptr m \<mapsto> e), mg_next_ptr := mg_next_ptr m + 1\<rparr>)"

text \<open>
  The installation loop of \<open>upsert_shm\<close>. It tries again when another task took the slot between the
  search and the swap; the refused ring is dropped.
\<close>

partial_function (option) install_loop ::
  "('q, 'k, 'b) sender_env \<Rightarrow> (nat \<Rightarrow> u64) \<Rightarrow> u64 \<Rightarrow> 'b subscription_filter \<Rightarrow> u64 \<Rightarrow> string \<Rightarrow> nat \<Rightarrow>
     ('q, 'k, 'b) connection_manager \<Rightarrow> (shm_slot_provision qresult \<times> ('q, 'k, 'b) connection_manager) option" where
  "install_loop env clk now flt connection_id shm_dir ring_capacity m =
     (case find_free_slot env clk m of
        (None, m1) \<Rightarrow>
          Some (Err (ConfigError (''connection slots exhausted (max '' @ show_nat MAX_CONNECTION_SLOTS @ '')'')), m1)
      | (Some slot_index, m1) \<Rightarrow>
          (let ring_path = path_join shm_dir (ring_file_name (se_pid env) slot_index connection_id)
           in case ring_create (se_shaq env) (se_fs env) (mg_files m1) ring_path ring_capacity of
             (Err e, fs) \<Rightarrow> Some (Err e, m1\<lparr>mg_files := fs\<rparr>)
           | (Panic, fs) \<Rightarrow> Some (Panic, m1\<lparr>mg_files := fs\<rparr>)
           | (Ok (ring, region), fs) \<Rightarrow>
               (case se_eventfd env of
                  Inl e \<Rightarrow> Some (Err (ShmError (''eventfd: '' @ e)), m1\<lparr>mg_files := ring_drop ring fs\<rparr>)
                | Inr eventfd \<Rightarrow>
                    (case allocate (m1\<lparr>mg_files := fs\<rparr>)
                       \<lparr>mc_slot_index = slot_index, mc_connection_id = connection_id, mc_filter = flt,
                        mc_sink = sink_shm ring region eventfd, mc_last_seen_ms = now\<rparr> of
                       (managed, m2) \<Rightarrow>
                         (case compare_and_swap m2 slot_index None (Some managed) of
                            (None, m3) \<Rightarrow>
                              Some (Ok (Created (slot_token_new (of_nat slot_index) connection_id)
                                     ring_path (of_nat ring_capacity) managed), m3)
                          | (Some _, m3) \<Rightarrow>
                              install_loop env clk now flt connection_id shm_dir ring_capacity
                                (m3\<lparr>mg_files := ring_drop ring (mg_files m3)\<rparr>))))))"

text \<open>\<open>now1\<close> is read by the lookup, \<open>now2\<close> for the timestamp of the refreshed or new connection.\<close>

definition upsert_shm ::
  "('q, 'k, 'b) sender_env \<Rightarrow> u64 \<Rightarrow> (nat \<Rightarrow> u64) \<Rightarrow> u64 \<Rightarrow> subscription_request \<Rightarrow> string \<Rightarrow> nat \<Rightarrow>
     ('q, 'k, 'b) connection_manager \<Rightarrow> (shm_slot_provision qresult \<times> ('q, 'k, 'b) connection_manager) option" where
  "upsert_shm env now1 clk now2 request shm_dir ring_capacity m =
     (case (case sr_slot_token request of
              None \<Rightarrow> (None, m)
            | Some token \<Rightarrow> lookup_by_token env now1 m token) of
        (existing, m1) \<Rightarrow>
          (case (case existing of None \<Rightarrow> None | Some p \<Rightarrow> map_option (Pair p) (mg_heap m1 p)) of
             Some (p, e) \<Rightarrow>
               (let e' = apply_request (se_bloom env) (e\<lparr>mc_last_seen_ms := now2\<rparr>) request
                in Some (Ok (Existing (connection_token e')), set_connection m1 p e'))
           | None \<Rightarrow>
               (let connection_id = mg_next_connection_id m1
                in install_loop env clk now2 (filter_from_request (se_bloom env) request) connection_id
                     shm_dir ring_capacity (m1\<lparr>mg_next_connection_id := connection_id + 1\<rparr>))))"

end
