(* ===== verification/Manager_Invariant.thy ===== *)
theory Manager_Invariant
  imports Connection_Manager
begin

text \<open>
  The invariant of the connection manager, kept by every operation of \<open>Connection_Manager\<close>, and the
  step relation of the sender: any sequence of subscriptions, pings, dispatches and reads by the
  consumers. The invariant ties a slot to its connection, connection ids to connections, and each
  connection to a well-formed filter and ring.
\<close>

section \<open>The invariant\<close>

definition conn_ok :: "('q, 'k, 'b) sender_env \<Rightarrow> ('q, 'k, 'b) managed_connection \<Rightarrow> bool" where
  "conn_ok env e \<longleftrightarrow> mc_slot_index e < MAX_CONNECTION_SLOTS \<and>
     filter_invar (se_bloom env) (mc_filter e) \<and> (\<exists>items. sink_rep (se_shaq env) (mc_sink e) items)"

definition mgr_inv :: "('q, 'k, 'b) sender_env \<Rightarrow> ('q, 'k, 'b) connection_manager \<Rightarrow> bool" where
  "mgr_inv env m \<longleftrightarrow>
     length (mg_connections m) = MAX_CONNECTION_SLOTS \<and>
     (\<forall>i p. load_full m i = Some p \<longrightarrow> (\<exists>e. mg_heap m p = Some e \<and> mc_slot_index e = i)) \<and>
     (\<forall>p e. mg_heap m p = Some e \<longrightarrow>
        conn_ok env e \<and> p < mg_next_ptr m \<and> mc_connection_id e < mg_next_connection_id m) \<and>
     (\<forall>p p' e e'. mg_heap m p = Some e \<longrightarrow> mg_heap m p' = Some e' \<longrightarrow>
        mc_connection_id e = mc_connection_id e' \<longrightarrow> p = p')"

text \<open>
  When a connection is stale by the system clock: 30 seconds and a millisecond after it was last seen, and
  never by a clock set back, or before the epoch.
\<close>

lemma is_stale_now_ms:
  assumes "0 \<le> seen" and "now div 1000000 < 2 ^ 64" and "seen div 1000000 < 2 ^ 64" and "mc_last_seen_ms e = now_ms seen"
  shows "is_stale (now_ms now) e \<longleftrightarrow> seen div 1000000 + 30000 < now div 1000000"
proof -
  have word: "unat (of_nat n :: u64) = n" if "n < 2 ^ 64" for n
    using that by (simp add: unat_of_nat take_bit_nat_eq_self)
  have ms: "unat (now_ms t) = nat (t div 1000000)" if "0 \<le> t" "t div 1000000 < 2 ^ 64" for t
  proof -
    have "nat t div 1000000 = nat (t div 1000000)" and lt: "nat (t div 1000000) < 2 ^ 64"
      using that by (simp_all add: nat_div_distrib nat_less_iff)
    then have "now_ms t = of_nat (nat (t div 1000000))"
      using that(1) by (simp only: now_ms_def not_le [symmetric] if_False not_not if_not_P simp_thms)
    then show ?thesis
      using word [OF lt] by (simp only:)
  qed
  show ?thesis
  proof (cases "0 \<le> now")
    case True
    then have "is_stale (now_ms now) e \<longleftrightarrow> 30000 < nat (now div 1000000) - nat (seen div 1000000)"
      using ms [OF True assms(2)] ms [OF assms(1,3)] assms(4)
      by (simp add: is_stale_def unat_sat_sub const_defs word_less_nat_alt)
    moreover have "0 \<le> seen div 1000000" "0 \<le> now div 1000000"
      using True assms(1) by (simp_all add: pos_imp_zdiv_nonneg_iff)
    ultimately show ?thesis
      by arith
  next
    case False
    then have "now_ms now = 0" "now div 1000000 < 0"
      by (simp_all add: now_ms_def)
    then show ?thesis
      using assms(1) by (simp add: is_stale_def unat_sat_sub const_defs word_less_nat_alt)
  qed
qed

lemma mgr_inv_conjuncts:
  assumes "mgr_inv env m"
  shows "length (mg_connections m) = MAX_CONNECTION_SLOTS"
    and "load_full m i = Some p \<Longrightarrow> \<exists>e. mg_heap m p = Some e \<and> mc_slot_index e = i"
    and "mg_heap m p = Some e \<Longrightarrow>
      conn_ok env e \<and> p < mg_next_ptr m \<and> mc_connection_id e < mg_next_connection_id m"
    and "mg_heap m p = Some e \<Longrightarrow> mg_heap m p' = Some e' \<Longrightarrow>
      mc_connection_id e = mc_connection_id e' \<Longrightarrow> p = p'"
  using assms [unfolded mgr_inv_def] by simp_all

lemmas mgr_inv_heap = mgr_inv_conjuncts(3) [THEN conjunct1] mgr_inv_conjuncts(3) [THEN conjunct2, THEN conjunct1]
  mgr_inv_conjuncts(3) [THEN conjunct2, THEN conjunct2]

lemma mgr_inv_slot:
  assumes "mgr_inv env m" and "load_full m i = Some p"
  obtains e where "mg_heap m p = Some e" and "mc_slot_index e = i" and "conn_ok env e"
proof -
  obtain e where e: "mg_heap m p = Some e" "mc_slot_index e = i"
    using mgr_inv_conjuncts(2) [OF assms] by (elim exE conjE)
  with mgr_inv_heap(1) [OF assms(1) e(1)] show thesis
    by (intro that)
qed

lemma mgr_inv_same_slot:
  assumes "mgr_inv env m" and "load_full m i = Some p" and "load_full m j = Some p"
  shows "i = j"
proof -
  obtain e where "mg_heap m p = Some e" "mc_slot_index e = i"
    using mgr_inv_conjuncts(2) [OF assms(1,2)] by (elim exE conjE)
  moreover obtain e' where "mg_heap m p = Some e'" "mc_slot_index e' = j"
    using mgr_inv_conjuncts(2) [OF assms(1,3)] by (elim exE conjE)
  ultimately show ?thesis by simp
qed

text \<open>Two states that agree on slots and heap differ in nothing the invariant sees.\<close>

lemma load_full_simps [simp]:
  "load_full (m\<lparr>mg_files := fs\<rparr>) i = load_full m i"
  "load_full (m\<lparr>mg_heap := h\<rparr>) i = load_full m i"
  "load_full (m\<lparr>mg_next_connection_id := n\<rparr>) i = load_full m i"
  "load_full (m\<lparr>mg_next_ptr := k\<rparr>) i = load_full m i"
  "load_full (set_connection m p e) i = load_full m i"
  by (simp_all add: load_full_def set_connection_def)

lemma load_full_update [simp]:
  "load_full (m\<lparr>mg_connections := (mg_connections m)[i := v]\<rparr>) j =
     (if i = j \<and> i < length (mg_connections m) then v else load_full m j)"
  by (auto simp: load_full_def nth_list_update)

lemma swap_out_same:
  "load_full m i = Some p \<Longrightarrow> swap_out m i p e =
     m\<lparr>mg_connections := (mg_connections m)[i := None],
       mg_files := ring_drop (sk_ring (mc_sink e)) (mg_files m)\<rparr>"
  by (simp add: swap_out_def compare_and_swap_def)

lemma swap_out_other: "load_full m i \<noteq> Some p \<Longrightarrow> swap_out m i p e = m"
  by (simp add: swap_out_def compare_and_swap_def)

lemma swap_out_fields [simp]:
  "mg_heap (swap_out m i p e) = mg_heap m"
  "mg_next_ptr (swap_out m i p e) = mg_next_ptr m"
  "mg_next_connection_id (swap_out m i p e) = mg_next_connection_id m"
  "length (mg_connections (swap_out m i p e)) = length (mg_connections m)"
  by (cases "load_full m i = Some p"; simp add: swap_out_same swap_out_other)+

lemma load_full_range: "load_full m i = Some p \<Longrightarrow> i < length (mg_connections m)"
  by (simp add: load_full_def split: if_splits)

lemma load_swap_out:
  "load_full (swap_out m i p e) j = (if j = i \<and> load_full m i = Some p then None else load_full m j)"
  by (cases "load_full m i = Some p") (auto simp: swap_out_same swap_out_other dest: load_full_range)

lemma set_connection_fields [simp]:
  "mg_heap (set_connection m p e) = (mg_heap m)(p \<mapsto> e)"
  "mg_connections (set_connection m p e) = mg_connections m"
  "mg_next_ptr (set_connection m p e) = mg_next_ptr m"
  "mg_next_connection_id (set_connection m p e) = mg_next_connection_id m"
  "mg_files (set_connection m p e) = mg_files m"
  by (simp_all add: set_connection_def)


section \<open>The building blocks keep it\<close>

lemma inv_files: "mgr_inv env m \<Longrightarrow> mgr_inv env (m\<lparr>mg_files := fs\<rparr>)"
  by (simp add: mgr_inv_def)

lemma inv_swap_out: "mgr_inv env m \<Longrightarrow> mgr_inv env (swap_out m i p e)"
  unfolding mgr_inv_def by (simp add: load_swap_out)

lemma inv_set_connection:
  assumes "mgr_inv env m" and "mg_heap m p = Some e" and "conn_ok env e'"
    and "mc_slot_index e' = mc_slot_index e" and "mc_connection_id e' = mc_connection_id e"
  shows "mgr_inv env (set_connection m p e')"
  unfolding mgr_inv_def
proof (intro conjI allI impI)
  note inv = mgr_inv_conjuncts [OF assms(1)]
  show "length (mg_connections (set_connection m p e')) = MAX_CONNECTION_SLOTS"
    by (simp add: inv(1))
  show "\<exists>d. mg_heap (set_connection m p e') r = Some d \<and> mc_slot_index d = i"
    if "load_full (set_connection m p e') i = Some r" for i r
    using inv(2) [of i r] that assms(2,4) by (cases "r = p") simp_all
  have old: "\<exists>d0. mg_heap m r = Some d0 \<and> mc_connection_id d0 = mc_connection_id d"
    if "mg_heap (set_connection m p e') r = Some d" for r d
    using that assms(2,5) by (cases "r = p") simp_all
  show "r < mg_next_ptr (set_connection m p e')"
      "mc_connection_id d < mg_next_connection_id (set_connection m p e')"
    if "mg_heap (set_connection m p e') r = Some d" for r d
    using old [OF that] inv(3) [of r] by auto
  show "conn_ok env d" if "mg_heap (set_connection m p e') r = Some d" for r d
    using that inv(3) [of r d] assms(3) by (cases "r = p") simp_all
  show "r = r'"
    if heaps: "mg_heap (set_connection m p e') r = Some d" "mg_heap (set_connection m p e') r' = Some d'"
      "mc_connection_id d = mc_connection_id d'" for r r' d d'
  proof -
    obtain d0 d0' where "mg_heap m r = Some d0" "mc_connection_id d0 = mc_connection_id d"
        "mg_heap m r' = Some d0'" "mc_connection_id d0' = mc_connection_id d'"
      using old [OF heaps(1)] old [OF heaps(2)] by (elim exE conjE)
    with heaps(3) show ?thesis
      using inv(4) by simp
  qed
qed

lemma close_connection_fields [simp]:
  "mc_slot_index (close_connection env e) = mc_slot_index e"
  "mc_connection_id (close_connection env e) = mc_connection_id e"
  "mc_filter (close_connection env e) = mc_filter e"
  "mc_last_seen_ms (close_connection env e) = mc_last_seen_ms e"
  "sk_ring (mc_sink (close_connection env e)) = sk_ring (mc_sink e)"
  by (simp_all add: close_connection_def sink_close_def)

lemma conn_ok_close:
  assumes "sender_env_ok env" and "conn_ok env e"
  shows "conn_ok env (close_connection env e)"
proof -
  have "efd_ok (se_efd env)"
    using assms(1) by (simp add: sender_env_ok_def)
  with assms(2) show ?thesis
    by (auto simp: conn_ok_def close_connection_def dest: sink_close_rep(1))
qed

lemma inv_cleanup_if_same:
  assumes "sender_env_ok env" and "mgr_inv env m"
  shows "mgr_inv env (cleanup_if_same env m i cid)"
  using assms
  by (auto simp: cleanup_if_same_def split: option.splits
      intro!: inv_swap_out inv_set_connection conn_ok_close dest: mgr_inv_heap(1))

lemma inv_maybe_cleanup:
  assumes "sender_env_ok env" and "mgr_inv env m" and "maybe_cleanup_stale_slot env now m i p = (b, m')"
  shows "mgr_inv env m'"
  using assms
  by (auto simp: maybe_cleanup_stale_slot_def split: option.splits if_splits
      intro!: inv_swap_out inv_set_connection conn_ok_close dest: mgr_inv_heap(1))


section \<open>Connection ids\<close>

text \<open>The id of every connection ever installed: only an installation changes this map.\<close>

definition ids :: "('q, 'k, 'b) connection_manager \<Rightarrow> ptr \<rightharpoonup> u64" where
  "ids m p = map_option mc_connection_id (mg_heap m p)"

lemma ids_swap_out [simp]: "ids (swap_out m i p e) = ids m"
  by (simp add: ids_def fun_eq_iff)

lemma ids_updates [simp]:
  "ids (m\<lparr>mg_files := fs\<rparr>) = ids m"
  "ids (m\<lparr>mg_connections := cs\<rparr>) = ids m"
  "ids (m\<lparr>mg_next_connection_id := n\<rparr>) = ids m"
  by (simp_all add: ids_def fun_eq_iff)

lemma ids_set_connection:
  "mg_heap m p = Some e \<Longrightarrow> mc_connection_id e' = mc_connection_id e \<Longrightarrow> ids (set_connection m p e') = ids m"
  by (auto simp: ids_def)

text \<open>What the operations other than an installation leave alone.\<close>

definition same_identity :: "('q, 'k, 'b) connection_manager \<Rightarrow> ('q, 'k, 'b) connection_manager \<Rightarrow> bool" where
  "same_identity m m' \<longleftrightarrow> ids m' = ids m \<and> mg_next_connection_id m' = mg_next_connection_id m \<and>
     mg_next_ptr m' = mg_next_ptr m"

lemma same_identity_refl [simp]: "same_identity m m"
  by (simp add: same_identity_def)

lemma same_identity_trans: "same_identity m m' \<Longrightarrow> same_identity m' m'' \<Longrightarrow> same_identity m m''"
  by (simp add: same_identity_def)

lemma same_identity_set:
  "mg_heap m p = Some e \<Longrightarrow> mc_connection_id e' = mc_connection_id e \<Longrightarrow>
     same_identity m (set_connection m p e')"
  by (simp add: same_identity_def ids_set_connection)

lemma same_identity_swap_out: "same_identity m m' \<Longrightarrow> same_identity m (swap_out m' i p e)"
  by (simp add: same_identity_def)

lemma same_identity_maybe_cleanup:
  "maybe_cleanup_stale_slot env now m i p = (b, m') \<Longrightarrow> same_identity m m'"
  by (auto simp: maybe_cleanup_stale_slot_def split: option.splits if_splits
      intro!: same_identity_swap_out same_identity_set)

lemma same_identity_cleanup_if_same: "same_identity m (cleanup_if_same env m i cid)"
  by (auto simp: cleanup_if_same_def split: option.splits
      intro!: same_identity_swap_out same_identity_set)

text \<open>An operation that installs nothing and keeps the invariant.\<close>

definition quiet ::
  "('q, 'k, 'b) sender_env \<Rightarrow> ('q, 'k, 'b) connection_manager \<Rightarrow> ('q, 'k, 'b) connection_manager \<Rightarrow> bool" where
  "quiet env m m' \<longleftrightarrow> mgr_inv env m' \<and> same_identity m m' \<and>
     (\<forall>i. load_full m' i = load_full m i \<or> load_full m' i = None)"

lemma quiet_refl: "mgr_inv env m \<Longrightarrow> quiet env m m"
  by (simp add: quiet_def)

lemma quiet_trans: "quiet env m m' \<Longrightarrow> quiet env m' m'' \<Longrightarrow> quiet env m m''"
  unfolding quiet_def by (metis same_identity_trans)

lemma quiet_inv: "quiet env m m' \<Longrightarrow> mgr_inv env m'"
  by (simp add: quiet_def)

lemma quiet_set_connection:
  assumes "mgr_inv env m" and "mg_heap m p = Some e" and "conn_ok env e'"
    and "mc_slot_index e' = mc_slot_index e" and "mc_connection_id e' = mc_connection_id e"
  shows "quiet env m (set_connection m p e')"
  using inv_set_connection [OF assms] same_identity_set [OF assms(2,5)] by (simp add: quiet_def)

lemma quiet_maybe_cleanup:
  assumes "sender_env_ok env" and "mgr_inv env m" and "maybe_cleanup_stale_slot env now m i p = (b, m')"
  shows "quiet env m m'"
  using inv_maybe_cleanup [OF assms] same_identity_maybe_cleanup [OF assms(3)] assms(3)
  by (auto simp: quiet_def maybe_cleanup_stale_slot_def load_swap_out split: option.splits if_splits)

lemma quiet_cleanup_if_same:
  assumes "sender_env_ok env" and "mgr_inv env m"
  shows "quiet env m (cleanup_if_same env m i cid)"
proof -
  have "load_full (cleanup_if_same env m i cid) j = load_full m j \<or>
      load_full (cleanup_if_same env m i cid) j = None" for j
    by (auto simp: cleanup_if_same_def load_swap_out split: option.splits)
  then show ?thesis
    using inv_cleanup_if_same [OF assms] same_identity_cleanup_if_same by (simp add: quiet_def)
qed

lemma quiet_lookup:
  assumes "sender_env_ok env" and "mgr_inv env m" and "lookup_by_token env now m token = (r, m')"
  shows "quiet env m m'"
  using assms
  by (auto simp: lookup_by_token_def Let_def split: option.splits if_splits prod.splits bool.splits
      intro: quiet_refl quiet_maybe_cleanup)

lemma quiet_find_free_from:
  assumes "sender_env_ok env" and "mgr_inv env m" and "find_free_from env clk is m = (r, m')"
  shows "quiet env m m'"
  using assms(2,3)
proof (induction "is" arbitrary: m)
  case (Cons i "is")
  show ?case
  proof (cases "load_full m i")
    case None
    with Cons.prems show ?thesis by (simp add: quiet_refl)
  next
    case (Some p)
    obtain b m1 where c: "maybe_cleanup_stale_slot env (clk i) m i p = (b, m1)"
      by force
    note q = quiet_maybe_cleanup [OF assms(1) Cons.prems(1) c]
    have "m' = m1 \<or> find_free_from env clk is m1 = (r, m')"
      using Cons.prems(2) Some c by (auto split: bool.splits if_splits)
    then show ?thesis
      using Cons.IH [OF quiet_inv [OF q]] q quiet_trans [OF q] by blast
  qed
qed (simp add: quiet_refl)

lemma find_free_from_slot:
  assumes "find_free_from env clk is m = (Some i, m')"
  shows "i \<in> set is \<and> load_full m' i = None"
  using assms
  by (induction "is" arbitrary: m)
    (auto split: option.splits prod.splits bool.splits if_splits)

lemma quiet_touch_connection:
  assumes "mgr_inv env m"
  shows "quiet env m (touch_connection m p now)"
proof (cases "mg_heap m p")
  case None
  then show ?thesis using assms by (simp add: touch_connection_def quiet_refl)
next
  case (Some e)
  have "conn_ok env (e\<lparr>mc_last_seen_ms := now\<rparr>)"
    using mgr_inv_heap(1) [OF assms Some] by (simp add: conn_ok_def)
  then show ?thesis
    using quiet_set_connection [OF assms Some] Some by (simp add: touch_connection_def)
qed

lemma quiet_touch_ping:
  assumes "sender_env_ok env" and "mgr_inv env m" and "touch_ping env now1 now2 m ping = (b, m')"
  shows "quiet env m m'"
proof -
  obtain r m1 where l: "lookup_by_token env now1 m (pr_slot_token ping) = (r, m1)"
    by force
  note q = quiet_lookup [OF assms(1,2) l]
  show ?thesis
    using assms(3) l q quiet_trans [OF q quiet_touch_connection [OF quiet_inv [OF q]]]
    by (auto simp: touch_ping_def split: option.splits)
qed


section \<open>Dispatch\<close>

abbreviation valid_frame :: "outbound_frame \<Rightarrow> bool" where
  "valid_frame frame \<equiv> valid_item (Frame (frame_body frame))"

lemma conn_ok_push:
  assumes "sender_env_ok env" and "conn_ok env e" and "valid_frame frame"
    and "sink_try_push (se_shaq env) (se_efd env) (mc_sink e) frame = (r, sink)"
  shows "conn_ok env (e\<lparr>mc_sink := sink\<rparr>)"
proof -
  have ek: "efd_ok (se_efd env)"
    using assms(1) by (simp add: sender_env_ok_def)
  obtain items where rep: "sink_rep (se_shaq env) (mc_sink e) items"
    using assms(2) by (auto simp: conn_ok_def)
  have "\<exists>items'. sink_rep (se_shaq env) sink items'"
  proof (cases "sink_fits (mc_sink e) items frame")
    case True
    show ?thesis
      by (rule sink_try_push_fits [OF rep ek assms(3) True]) (use assms(4) in auto)
  next
    case False
    show ?thesis
      by (rule sink_try_push_refused [OF rep False, of "se_efd env"]) (use assms(4) in auto)
  qed
  with assms(2) show ?thesis
    by (simp add: conn_ok_def)
qed

lemma quiet_push_to_entry:
  assumes "sender_env_ok env" and "mgr_inv env m" and "valid_frame frame"
  shows "quiet env m (fst (push_to_entry env now_us p frame (m, metrics)))"
proof (cases "mg_heap m p")
  case None
  with assms(2) show ?thesis by (simp add: push_to_entry_def quiet_refl)
next
  case (Some e)
  obtain r sink where push: "sink_try_push (se_shaq env) (se_efd env) (mc_sink e) frame = (r, sink)"
    by force
  have q: "quiet env m (set_connection m p (e\<lparr>mc_sink := sink\<rparr>))"
    by (rule quiet_set_connection [OF assms(2) Some])
      (use conn_ok_push [OF assms(1) mgr_inv_heap(1) [OF assms(2) Some] assms(3) push] in simp_all)
  show ?thesis
  proof (cases r)
    case (Inl _)
    with Some push show ?thesis
      using quiet_trans [OF q quiet_cleanup_if_same [OF assms(1) quiet_inv [OF q]]]
      by (simp add: push_to_entry_def)
  next
    case (Inr _)
    with Some push q show ?thesis
      by (simp add: push_to_entry_def)
  qed
qed

lemma quiet_dispatch_slots:
  assumes "sender_env_ok env" and "mgr_inv env (fst s)"
    and "\<forall>frame. encode = Ok frame \<longrightarrow> valid_frame frame"
    and "\<forall>frame. shared = Some frame \<longrightarrow> valid_frame frame"
  shows "quiet env (fst s) (fst (dispatch_slots env clk clk_us matches encode is shared s))"
  using assms(2,4)
proof (induction "is" arbitrary: shared s)
  case (Cons i "is")
  obtain m metrics where s: "s = (m, metrics)"
    by force
  show ?case
  proof (cases "load_full m i")
    case None
    with Cons.IH [OF Cons.prems] s show ?thesis by simp
  next
    case (Some p)
    obtain b m1 where c: "maybe_cleanup_stale_slot env (clk i) m i p = (b, m1)"
      by force
    have q: "quiet env m m1"
      using quiet_maybe_cleanup [OF assms(1) _ c] Cons.prems(1) s by simp
    have skip: "quiet env m (fst (dispatch_slots env clk clk_us matches encode is shared (m1, metrics)))"
      using Cons.IH [of "(m1, metrics)"] Cons.prems(2) q quiet_inv [OF q] quiet_trans [OF q] by simp
    have push: "quiet env m (fst (dispatch_slots env clk clk_us matches encode is (Some frame)
        (push_to_entry env (clk_us i) p frame (m1, metrics))))" if v: "valid_frame frame" for frame
    proof -
      note q1 = quiet_push_to_entry [OF assms(1) quiet_inv [OF q] v, of "clk_us i" p metrics]
      have "\<forall>f. Some frame = Some f \<longrightarrow> valid_frame f"
        using v by simp
      from quiet_trans [OF q quiet_trans [OF q1 Cons.IH [OF quiet_inv [OF q1] this]]]
      show ?thesis .
    qed
    let ?frame = "case shared of Some frame \<Rightarrow> Ok frame | None \<Rightarrow> encode"
    have v: "\<forall>frame. ?frame = Ok frame \<longrightarrow> valid_frame frame"
      using assms(3) Cons.prems(2) by (cases shared) simp_all
    let ?match = "case mg_heap m1 p of None \<Rightarrow> False | Some e \<Rightarrow> matches (mc_filter e)"
    consider "b \<or> \<not> ?match" | frame where "\<not> b" "?match" "?frame = Ok frame"
      | "\<not> b" "?match" "\<forall>frame. ?frame \<noteq> Ok frame"
      by blast
    then show ?thesis
    proof cases
      case 1
      with Some s c skip show ?thesis by (cases b) simp_all
    next
      case (2 frame)
      with v push [of frame] Some s c show ?thesis by (simp del: valid_item.simps)
    next
      case 3
      then have "\<exists>e. ?frame = Err e \<or> ?frame = Panic"
        by (cases ?frame) simp_all
      with 3 Some s c q show ?thesis by auto
    qed
  qed
qed (simp add: quiet_refl)

lemma quiet_dispatch_with:
  assumes "sender_env_ok env" and "mgr_inv env m" and "\<forall>frame. encode = Ok frame \<longrightarrow> valid_frame frame"
  shows "quiet env m (fst (dispatch_with env clk clk_us start finish matches encode (m, metrics)))"
  using quiet_dispatch_slots [OF assms(1) _ assms(3), of "(m, metrics)" None] assms(2)
  by (simp add: dispatch_with_def split_beta)

end
