(* ===== verification/Manager_Upsert.thy ===== *)
theory Manager_Upsert
  imports Manager_Invariant
begin

text \<open>
  Installation of connections (\<open>upsert_shm\<close> of \<open>src/sender/mod.rs\<close>), and the step relation of the
  sender over all the manager's operations, with the invariant on every reachable state.
\<close>

section \<open>Installation\<close>

definition install ::
  "('q, 'k, 'b) connection_manager \<Rightarrow> nat \<Rightarrow> ('q, 'k, 'b) managed_connection \<Rightarrow> ('q, 'k, 'b) connection_manager" where
  "install m i e =
     m\<lparr>mg_heap := (mg_heap m)(mg_next_ptr m \<mapsto> e), mg_next_ptr := mg_next_ptr m + 1,
       mg_connections := (mg_connections m)[i := Some (mg_next_ptr m)]\<rparr>"

lemma load_install:
  "i < length (mg_connections m) \<Longrightarrow>
     load_full (install m i e) j = (if i = j then Some (mg_next_ptr m) else load_full m j)"
  by (auto simp: load_full_def install_def nth_list_update)

lemma install_fields [simp]:
  "mg_heap (install m i e) = (mg_heap m)(mg_next_ptr m \<mapsto> e)"
  "mg_next_ptr (install m i e) = mg_next_ptr m + 1"
  "mg_next_connection_id (install m i e) = mg_next_connection_id m"
  "length (mg_connections (install m i e)) = length (mg_connections m)"
  "mg_files (install m i e) = mg_files m"
  by (simp_all add: install_def)

text \<open>The swap into an empty slot succeeds.\<close>

lemma compare_and_swap_install:
  assumes "load_full m i = None" and "allocate m e = (p, m2)"
  shows "compare_and_swap m2 i None (Some p) = (None, install m i e)"
proof -
  have "load_full m2 i = None"
    using assms by (auto simp: allocate_def load_full_def)
  then show ?thesis
    using assms(2) by (auto simp: compare_and_swap_def Let_def install_def allocate_def)
qed

lemma inv_fresh_ptr:
  assumes "mgr_inv env m"
  shows "mg_heap m (mg_next_ptr m) = None"
  using mgr_inv_heap(2) [OF assms, of "mg_next_ptr m"] by (cases "mg_heap m (mg_next_ptr m)") auto

lemma inv_install:
  assumes "mgr_inv env m" and "i < MAX_CONNECTION_SLOTS" and "conn_ok env e" and "mc_slot_index e = i"
    and "mc_connection_id e < mg_next_connection_id m" and "\<forall>p. ids m p \<noteq> Some (mc_connection_id e)"
  shows "mgr_inv env (install m i e)"
  unfolding mgr_inv_def
proof (intro conjI allI impI)
  note inv = mgr_inv_conjuncts [OF assms(1)]
  let ?m = "install m i e"
  have fresh: "mg_heap m (mg_next_ptr m) = None"
    by (rule inv_fresh_ptr [OF assms(1)])
  show "length (mg_connections ?m) = MAX_CONNECTION_SLOTS"
    by (simp add: inv(1))
  show "\<exists>d. mg_heap ?m p = Some d \<and> mc_slot_index d = j" if "load_full ?m j = Some p" for j p
  proof (cases "i = j")
    case True
    with that assms(2,4) inv(1) show ?thesis by (simp add: load_install)
  next
    case False
    then have old: "load_full m j = Some p"
      using that assms(2) inv(1) by (simp add: load_install)
    obtain d where "mg_heap m p = Some d" "mc_slot_index d = j"
      using inv(2) [OF old] by (elim exE conjE)
    with fresh show ?thesis by (cases "p = mg_next_ptr m") simp_all
  qed
  show "conn_ok env d" "mc_connection_id d < mg_next_connection_id ?m" if "mg_heap ?m p = Some d" for p d
    using that inv(3) [of p d] assms(3,5) by (cases "p = mg_next_ptr m"; simp)+
  show "p < mg_next_ptr ?m" if "mg_heap ?m p = Some d" for p d
    using that inv(3) [of p d] by (cases "p = mg_next_ptr m") simp_all
  have other: "mc_connection_id d \<noteq> mc_connection_id e" if "mg_heap m p = Some d" for p d
    using spec [OF assms(6), of p] that by (simp add: ids_def)
  show "p = p'" if h: "mg_heap ?m p = Some d" "mg_heap ?m p' = Some d'" "mc_connection_id d = mc_connection_id d'"
    for p p' d d'
  proof (cases "p = mg_next_ptr m \<or> p' = mg_next_ptr m")
    case True
    then show ?thesis
      using h other [of p d] other [of p' d'] by (auto split: if_splits)
  next
    case False
    with h(1,2) have "mg_heap m p = Some d" "mg_heap m p' = Some d'"
      by simp_all
    from inv(4) [OF this h(3)] show ?thesis .
  qed
qed

lemma ids_install: "ids (install m i e) = (ids m)(mg_next_ptr m \<mapsto> mc_connection_id e)"
  by (auto simp: ids_def fun_eq_iff)

section \<open>Finding a slot\<close>

text \<open>The connection in a slot.\<close>

definition connection_at :: "('q, 'k, 'b) connection_manager \<Rightarrow> nat \<Rightarrow> ('q, 'k, 'b) managed_connection option" where
  "connection_at m i = (case load_full m i of None \<Rightarrow> None | Some p \<Rightarrow> mg_heap m p)"

lemma connection_at_Some:
  assumes "mgr_inv env m"
  shows "connection_at m i = Some e \<longleftrightarrow> (\<exists>p. load_full m i = Some p \<and> mg_heap m p = Some e)"
    and "connection_at m i = None \<longleftrightarrow> load_full m i = None"
  using mgr_inv_conjuncts(2) [OF assms, of i] by (auto simp: connection_at_def split: option.splits)

lemma maybe_cleanup_live:
  assumes "load_full m i = Some p" and "mg_heap m p = Some e"
  shows "maybe_cleanup_stale_slot env now m i p =
    (if is_stale now e then (True, swap_out (set_connection m p (close_connection env e)) i p e) else (False, m))"
  using assms by (simp add: maybe_cleanup_stale_slot_def)

text \<open>The slots change by expiry only: each keeps its connection, or loses one that satisfies \<open>P\<close>.\<close>

definition expires ::
  "(nat \<Rightarrow> ('q, 'k, 'b) managed_connection \<Rightarrow> bool) \<Rightarrow> ('q, 'k, 'b) connection_manager \<Rightarrow>
     ('q, 'k, 'b) connection_manager \<Rightarrow> bool" where
  "expires P m m' \<longleftrightarrow> (\<forall>j. connection_at m' j = connection_at m j \<or>
     connection_at m' j = None \<and> (\<exists>e. connection_at m j = Some e \<and> P j e))"

lemma expires_refl: "expires P m m"
  by (simp add: expires_def)

lemma expires_trans: "expires P m m' \<Longrightarrow> expires P m' m'' \<Longrightarrow> expires P m m''"
  unfolding expires_def by (metis option.distinct(1))

lemma expires_mono: "expires P m m' \<Longrightarrow> (\<And>j e. P j e \<Longrightarrow> Q j e) \<Longrightarrow> expires Q m m'"
  unfolding expires_def by blast

lemma connection_at_simps [simp]:
  "connection_at (m\<lparr>mg_files := fs\<rparr>) = connection_at m"
  "connection_at (m\<lparr>mg_next_connection_id := n\<rparr>) = connection_at m"
  by (auto simp: connection_at_def split: option.splits)

lemma expires_maybe_cleanup:
  assumes "mgr_inv env m" and "load_full m i = Some p" and "maybe_cleanup_stale_slot env now m i p = (b, m')"
  shows "expires (\<lambda>_. is_stale now) m m'"
proof -
  obtain e where e: "mg_heap m p = Some e"
    using mgr_inv_conjuncts(2) [OF assms(1,2)] by (elim exE conjE)
  have other: "p \<noteq> q" if "load_full m j = Some q" "j \<noteq> i" for j q
    using mgr_inv_same_slot [OF assms(1,2)] that by auto
  show ?thesis
  proof (cases "is_stale now e")
    case True
    then have m': "m' = swap_out (set_connection m p (close_connection env e)) i p e"
      using assms(3) maybe_cleanup_live [OF assms(2) e] by simp
    have "connection_at m' j = (if j = i then None else connection_at m j)" for j
      using assms(2) other [of j] unfolding m'
      by (auto simp: connection_at_def load_swap_out split: option.splits)
    with True e assms(2) show ?thesis
      by (simp add: expires_def connection_at_def)
  next
    case False
    with assms(3) maybe_cleanup_live [OF assms(2) e] show ?thesis
      by (simp add: expires_refl)
  qed
qed

lemma expires_find_free_from:
  assumes "sender_env_ok env" and "mgr_inv env m" and "find_free_from env clk is m = (r, m')"
  shows "expires (\<lambda>_ e. \<exists>i. is_stale (clk i) e) m m'"
  using assms(2,3)
proof (induction "is" arbitrary: m)
  case (Cons i "is")
  show ?case
  proof (cases "load_full m i")
    case None
    with Cons.prems show ?thesis by (simp add: expires_refl)
  next
    case (Some p)
    obtain b m1 where c: "maybe_cleanup_stale_slot env (clk i) m i p = (b, m1)"
      by force
    have e: "expires (\<lambda>_ e. \<exists>i. is_stale (clk i) e) m m1"
      by (rule expires_mono [OF expires_maybe_cleanup [OF Cons.prems(1) Some c]]) (rule exI)
    have "m' = m1 \<or> find_free_from env clk is m1 = (r, m')"
      using Cons.prems(2) Some c by (auto split: bool.splits if_splits)
    then show ?thesis
      using Cons.IH [OF inv_maybe_cleanup [OF assms(1) Cons.prems(1) c]] e expires_trans [OF e] by blast
  qed
qed (simp add: expires_refl)

text \<open>The search fails exactly when every slot holds a live connection, and then it changes nothing.\<close>

lemma find_free_from_None:
  assumes "mgr_inv env m"
  shows "fst (find_free_from env clk is m) = None \<longleftrightarrow>
      (\<forall>i \<in> set is. \<exists>e. connection_at m i = Some e \<and> \<not> is_stale (clk i) e)"
    and "fst (find_free_from env clk is m) = None \<Longrightarrow> snd (find_free_from env clk is m) = m"
proof (induction "is")
  case (Cons i "is")
  {
    case 1
    show ?case
    proof (cases "load_full m i")
      case (Some p)
      then obtain e where e: "mg_heap m p = Some e"
        using mgr_inv_conjuncts(2) [OF assms] by blast
      with Some Cons.IH(1) show ?thesis
        by (simp add: maybe_cleanup_live load_swap_out connection_at_def)
    qed (simp add: connection_at_def)
  next
    case 2
    show ?case
    proof (cases "load_full m i")
      case (Some p)
      then obtain e where e: "mg_heap m p = Some e"
        using mgr_inv_conjuncts(2) [OF assms] by blast
      with Some 2 Cons.IH(2) show ?thesis
        by (simp add: maybe_cleanup_live load_swap_out split: if_splits)
    qed (use 2 in simp)
  }
qed simp_all


section \<open>The installation loop\<close>

text \<open>A round that ends in an error changes the manager by the expiry of the search only.\<close>

lemma install_loop_failed:
  assumes "find_free_slot env clk m = (free, m1)"
    and "\<And>i ring region fs k. free = Some i \<Longrightarrow> se_eventfd env = Inr k \<Longrightarrow>
      ring_create (se_shaq env) (se_fs env) (mg_files m1)
        (path_join dir (ring_file_name (se_pid env) i cid)) cap \<noteq> (Ok (ring, region), fs)"
  obtains r fs where "install_loop env clk now flt cid dir cap m = Some (r, m1\<lparr>mg_files := fs\<rparr>)"
    and "\<nexists>x. r = Ok x" and "(\<exists>msg. r = Err (ConfigError msg)) \<longleftrightarrow> free = None"
    and "cap \<le> 2 ^ 63 \<longrightarrow> r \<noteq> Panic"
proof (cases free)
  case None
  with assms(1) have "install_loop env clk now flt cid dir cap m =
      Some (Err (ConfigError (''connection slots exhausted (max '' @ show_nat MAX_CONNECTION_SLOTS @ '')'')), m1)"
    by (subst install_loop.simps) simp
  with that [of _ "mg_files m1"] None show thesis by simp
next
  case (Some i)
  obtain r fs where c: "ring_create (se_shaq env) (se_fs env) (mg_files m1)
      (path_join dir (ring_file_name (se_pid env) i cid)) cap = (r, fs)"
    by force
  show thesis
  proof (cases r)
    case (Ok x)
    then obtain ring region where x: "r = Ok (ring, region)"
      by (cases x) simp
    with assms(2) Some c obtain e where "se_eventfd env = Inl e"
      by (cases "se_eventfd env") auto
    with assms(1) Some c x show thesis
      by (intro that [of "Err (ShmError (''eventfd: '' @ e))" "ring_drop ring fs"], subst install_loop.simps)
        (simp_all add: Let_def)
  next
    case (Err e)
    with assms(1) Some c ring_create_error [of "se_shaq env" "se_fs env" "mg_files m1" _ cap e fs] show thesis
      by (intro that [of "Err e" fs], subst install_loop.simps) (auto simp: Let_def)
  next
    case Panic
    with assms(1) Some c ring_create_not_Ok [OF c] show thesis
      by (intro that [of Panic fs], subst install_loop.simps) (simp_all add: Let_def)
  qed
qed

lemma install_loop_created:
  assumes "find_free_slot env clk m = (Some i, m1)" and "load_full m1 i = None"
    and "path = path_join dir (ring_file_name (se_pid env) i cid)"
    and "ring_create (se_shaq env) (se_fs env) (mg_files m1) path cap = (Ok (ring, region), fs)"
    and "se_eventfd env = Inr k"
  shows "install_loop env clk now flt cid dir cap m =
    Some (Ok (Created (slot_token_new (of_nat i) cid) path (of_nat cap) (mg_next_ptr m1)),
      install (m1\<lparr>mg_files := fs\<rparr>) i
        \<lparr>mc_slot_index = i, mc_connection_id = cid, mc_filter = flt,
         mc_sink = sink_shm ring region k, mc_last_seen_ms = now\<rparr>)"
proof -
  let ?e = "\<lparr>mc_slot_index = i, mc_connection_id = cid, mc_filter = flt,
    mc_sink = sink_shm ring region k, mc_last_seen_ms = now\<rparr>"
  obtain p m2 where a: "allocate (m1\<lparr>mg_files := fs\<rparr>) ?e = (p, m2)"
    by force
  have "compare_and_swap m2 i None (Some p) = (None, install (m1\<lparr>mg_files := fs\<rparr>) i ?e)"
    using compare_and_swap_install [OF _ a] assms(2) by simp
  moreover have "p = mg_next_ptr m1"
    using a by (simp add: allocate_def)
  ultimately show ?thesis
    using assms a by (subst install_loop.simps) (simp add: Let_def)
qed

text \<open>
  The loop returns, after one round: it fails and installs nothing, or it has installed a connection
  with an empty ring in a slot that was free or became free.
\<close>

lemma install_loop_result:
  assumes "sender_env_ok env" and "mgr_inv env m" and "filter_invar (se_bloom env) flt"
    and "\<forall>p. ids m p \<noteq> Some cid" and "cid < mg_next_connection_id m"
  obtains (failed) r m' where "install_loop env clk now flt cid dir cap m = Some (r, m')"
      and "\<nexists>x. r = Ok x" and "quiet env m m'" and "expires (\<lambda>_ e. \<exists>i. is_stale (clk i) e) m m'"
      and "cap \<le> 2 ^ 63 \<longrightarrow> r \<noteq> Panic"
  | (created) i e m1 fs path
    where "install_loop env clk now flt cid dir cap m =
        Some (Ok (Created (slot_token_new (of_nat i) cid) path (of_nat cap) (mg_next_ptr m)),
              install (m1\<lparr>mg_files := fs\<rparr>) i e)"
      and "quiet env m m1" and "i < MAX_CONNECTION_SLOTS" and "load_full m1 i = None"
      and "mc_slot_index e = i" and "mc_connection_id e = cid" and "mc_filter e = flt"
      and "mc_last_seen_ms e = now" and "sink_rep (se_shaq env) (mc_sink e) []"
      and "rp_path (sk_ring (mc_sink e)) = path" and "path \<in> fs" and "conn_ok env e"
      and "path = path_join dir (ring_file_name (se_pid env) i cid)"
      and "expires (\<lambda>_ e. \<exists>i. is_stale (clk i) e) m m1"
proof -
  obtain free m1 where free: "find_free_slot env clk m = (free, m1)"
    by force
  have q: "quiet env m m1"
    using quiet_find_free_from [OF assms(1,2)] free by (simp add: find_free_slot_def)
  then have ptr: "mg_next_ptr m1 = mg_next_ptr m" and qf: "quiet env m (m1\<lparr>mg_files := fs\<rparr>)" for fs
    by (simp_all add: quiet_def same_identity_def inv_files)
  have ex: "expires (\<lambda>_ e. \<exists>i. is_stale (clk i) e) m m1"
    using expires_find_free_from [OF assms(1,2)] free by (simp add: find_free_slot_def)
  then have exf: "expires (\<lambda>_ e. \<exists>i. is_stale (clk i) e) m (m1\<lparr>mg_files := fs\<rparr>)" for fs
    by (simp add: expires_def)
  let ?path = "\<lambda>i. path_join dir (ring_file_name (se_pid env) i cid)"
  show thesis
  proof (cases "\<exists>i ring region fs k. free = Some i \<and> se_eventfd env = Inr k \<and>
      ring_create (se_shaq env) (se_fs env) (mg_files m1) (?path i) cap = (Ok (ring, region), fs)")
    case False
    show thesis
    proof (rule install_loop_failed [OF free])
      show "ring_create (se_shaq env) (se_fs env) (mg_files m1) (?path i) cap \<noteq> (Ok (ring, region), fs)"
        if "free = Some i" "se_eventfd env = Inr k" for i ring region fs k
        using False that by blast
    qed (use failed qf exf in blast)
  next
    case True
    then obtain i ring region fs k where k: "free = Some i" "se_eventfd env = Inr k"
        and c: "ring_create (se_shaq env) (se_fs env) (mg_files m1) (?path i) cap = (Ok (ring, region), fs)"
      by (elim exE conjE)
    have i: "i < MAX_CONNECTION_SLOTS" "load_full m1 i = None"
      using free k(1) find_free_from_slot [of env clk "[0..<MAX_CONNECTION_SLOTS]" m i m1]
      by (simp_all add: find_free_slot_def)
    have "shaq_ok (se_shaq env)"
      using assms(1) by (simp add: sender_env_ok_def)
    note ring = ring_create_Ok [OF this c]
    show thesis
      by (rule created [OF install_loop_created [OF free [unfolded k(1)] i(2) refl c k(2), unfolded ptr] q i])
        (use ring i(1) assms(3) ex in \<open>auto simp: conn_ok_def sink_shm_def sink_rep_def\<close>)
  qed
qed


section \<open>Upsert\<close>

lemma slot_of_connection:
  assumes "mgr_inv env m" and "load_full m i = Some p" and "mg_heap m p = Some e"
  shows "mc_slot_index e = i" and "i < MAX_CONNECTION_SLOTS" and "unat (of_nat i :: u8) = i"
proof -
  show "mc_slot_index e = i"
    using mgr_inv_conjuncts(2) [OF assms(1,2)] assms(3) by auto
  show i: "i < MAX_CONNECTION_SLOTS"
    using load_full_range [OF assms(2)] mgr_inv_conjuncts(1) [OF assms(1)] by simp
  then show "unat (of_nat i :: u8) = i"
    by (simp add: unat_of_nat take_bit_nat_eq_self const_defs)
qed

text \<open>A lookup returns the connection the token was made for, if it is still in its slot and not stale.\<close>

lemma lookup_by_token_Some:
  assumes "mgr_inv env m" and "lookup_by_token env now m token = (Some p, m')"
  obtains e where "mg_heap m p = Some e" and "load_full m (mc_slot_index e) = Some p"
    and "connection_token e = token" and "\<not> is_stale now e" and "m' = m"
proof -
  let ?i = "unat (st_slot_index token)"
  have i: "?i < MAX_CONNECTION_SLOTS"
    using assms(2) by (simp add: lookup_by_token_def Let_def split: if_splits)
  then obtain r where r: "load_full m ?i = Some r"
    using assms(2) by (cases "load_full m ?i") (simp_all add: lookup_by_token_def)
  with i obtain e where e: "mg_heap m r = Some e"
    using assms(2) by (cases "mg_heap m r") (simp_all add: lookup_by_token_def)
  have "mc_connection_id e = st_generation token" "\<not> is_stale now e" "m' = m" "r = p"
    using assms(2) i r e
    by (simp_all add: lookup_by_token_def maybe_cleanup_live Let_def split: if_splits)
  with r e have e: "load_full m ?i = Some p" "mg_heap m p = Some e"
      "mc_connection_id e = st_generation token" "\<not> is_stale now e" "m' = m"
    by simp_all
  have "mc_slot_index e = ?i"
    by (rule slot_of_connection(1) [OF assms(1) e(1,2)])
  with e that show thesis
    by (simp add: connection_token_def slot_token_new_def)
qed

lemma lookup_by_token_None:
  assumes "mgr_inv env m" and "lookup_by_token env now m token = (None, m')"
  shows "\<forall>i e. connection_at m i = Some e \<longrightarrow> connection_token e = token \<longrightarrow> is_stale now e"
proof (intro allI impI)
  fix i e
  assume c: "connection_at m i = Some e" and t: "connection_token e = token"
  then obtain p where p: "load_full m i = Some p" "mg_heap m p = Some e"
    by (auto simp: connection_at_def split: option.splits)
  note slot = slot_of_connection [OF assms(1) p]
  have "unat (st_slot_index token) = i" "st_generation token = mc_connection_id e"
    using t slot by (auto simp: connection_token_def slot_token_new_def)
  with assms(2) p slot(2) show "is_stale now e"
    by (simp add: lookup_by_token_def Let_def maybe_cleanup_live split: if_splits)
qed

lemma expires_lookup:
  assumes "mgr_inv env m" and "lookup_by_token env now m token = (r, m')"
  shows "expires (\<lambda>_. is_stale now) m m'"
proof -
  let ?i = "unat (st_slot_index token)"
  have "m' = m \<or> (\<exists>p b. load_full m ?i = Some p \<and> maybe_cleanup_stale_slot env now m ?i p = (b, m'))"
    using assms(2)
    by (auto simp: lookup_by_token_def Let_def split: option.splits if_splits prod.splits bool.splits)
  then show ?thesis
    using expires_maybe_cleanup [OF assms(1)] expires_refl by blast
qed

text \<open>Taking a connection id.\<close>

abbreviation take_id :: "('q, 'k, 'b) connection_manager \<Rightarrow> ('q, 'k, 'b) connection_manager" where
  "take_id m \<equiv> m\<lparr>mg_next_connection_id := mg_next_connection_id m + 1\<rparr>"

lemma word_less_succ:
  fixes x n :: u64
  assumes "x \<le> n" and "n \<noteq> - 1"
  shows "x < n + 1"
proof -
  have "unat n \<noteq> unat (- 1 :: u64)"
    using assms(2) word_unat_eq_iff by blast
  then have "unat n \<noteq> 18446744073709551615"
    by (simp add: unsigned_minus_1_eq_mask mask_eq_exp_minus_1)
  then have "unat n + 1 < 18446744073709551616"
    using unat_u64_less [of n] by linarith
  then have "unat (n + 1) = unat n + 1"
    by (simp add: unat_word_ariths)
  with assms(1) show ?thesis
    by (simp add: word_less_nat_alt word_le_nat_alt)
qed

lemma inv_take_id:
  assumes "mgr_inv env m" and "mg_next_connection_id m \<noteq> - 1"
  shows "mgr_inv env (take_id m)"
proof -
  have "mc_connection_id e < mg_next_connection_id m + 1" if "mg_heap m p = Some e" for p e
    using word_less_succ [OF order.strict_implies_order [OF mgr_inv_heap(3) [OF assms(1) that]] assms(2)] .
  then show ?thesis
    using assms(1) by (simp add: mgr_inv_def)
qed

lemma inv_fresh_id:
  assumes "mgr_inv env m"
  shows "ids m p \<noteq> Some (mg_next_connection_id m)"
  using mgr_inv_heap(3) [OF assms, of p] by (cases "mg_heap m p") (auto simp: ids_def)

lemma upsert_lookup:
  assumes "sender_env_ok env" and "mgr_inv env m"
  obtains (refreshed) p e where "upsert_shm env now1 clk now2 req dir cap m =
        Some (Ok (Existing (connection_token e)),
              set_connection m p (apply_request (se_bloom env) (e\<lparr>mc_last_seen_ms := now2\<rparr>) req))"
      and "mg_heap m p = Some e" and "load_full m (mc_slot_index e) = Some p"
      and "sr_slot_token req = Some (connection_token e)" and "\<not> is_stale now1 e"
  | (new) m0 where "upsert_shm env now1 clk now2 req dir cap m =
        install_loop env clk now2 (filter_from_request (se_bloom env) req) (mg_next_connection_id m) dir cap (take_id m0)"
      and "quiet env m m0" and "expires (\<lambda>_. is_stale now1) m m0"
proof -
  obtain ex m0 where l: "(case sr_slot_token req of None \<Rightarrow> (None, m)
      | Some token \<Rightarrow> lookup_by_token env now1 m token) = (ex, m0)"
    by force
  have q: "quiet env m m0"
    using l quiet_lookup [OF assms(1,2)] quiet_refl [OF assms(2)] by (cases "sr_slot_token req") simp_all
  show thesis
  proof (cases ex)
    case (Some p)
    then obtain token where t: "sr_slot_token req = Some token" "lookup_by_token env now1 m token = (Some p, m0)"
      using l by (cases "sr_slot_token req") simp_all
    obtain e where e: "mg_heap m p = Some e" "load_full m (mc_slot_index e) = Some p"
        "connection_token e = token" "\<not> is_stale now1 e" "m0 = m"
      by (rule lookup_by_token_Some [OF assms(2) t(2)])
    moreover have "connection_token (apply_request (se_bloom env) (e\<lparr>mc_last_seen_ms := now2\<rparr>) req) = token"
      using e(3) by (simp add: connection_token_def apply_request_def)
    ultimately show thesis
      using l Some t by (intro refreshed [of e p]) (simp_all add: upsert_shm_def)
  next
    case None
    have "mg_next_connection_id m0 = mg_next_connection_id m"
      using q by (simp add: quiet_def same_identity_def)
    moreover have "expires (\<lambda>_. is_stale now1) m m0"
      using l expires_lookup [OF assms(2)] expires_refl by (cases "sr_slot_token req") simp_all
    ultimately show thesis
      using l None q by (intro new [of m0]) (simp_all add: upsert_shm_def Let_def)
  qed
qed

lemma upsert_cases:
  assumes "sender_env_ok env" and "mgr_inv env m" and "mg_next_connection_id m \<noteq> - 1"
  obtains (refreshed) p e where "upsert_shm env now1 clk now2 req dir cap m =
        Some (Ok (Existing (connection_token e)),
              set_connection m p (apply_request (se_bloom env) (e\<lparr>mc_last_seen_ms := now2\<rparr>) req))"
      and "mg_heap m p = Some e" and "load_full m (mc_slot_index e) = Some p"
      and "sr_slot_token req = Some (connection_token e)" and "\<not> is_stale now1 e"
  | (failed) r m0 m' where "upsert_shm env now1 clk now2 req dir cap m = Some (r, m')"
      and "quiet env m m0" and "quiet env (take_id m0) m'" and "\<nexists>x. r = Ok x"
      and "expires (\<lambda>_ e. is_stale now1 e \<or> (\<exists>i. is_stale (clk i) e)) m m'"
      and "cap \<le> 2 ^ 63 \<longrightarrow> r \<noteq> Panic"
  | (created) i e m0 m1 fs path where "upsert_shm env now1 clk now2 req dir cap m =
        Some (Ok (Created (connection_token e) path (of_nat cap) (mg_next_ptr m)),
              install (m1\<lparr>mg_files := fs\<rparr>) i e)"
      and "quiet env m m0" and "quiet env (take_id m0) m1" and "i < MAX_CONNECTION_SLOTS"
      and "load_full m1 i = None" and "mc_slot_index e = i" and "mc_connection_id e = mg_next_connection_id m"
      and "mc_filter e = filter_from_request (se_bloom env) req" and "mc_last_seen_ms e = now2"
      and "sink_rep (se_shaq env) (mc_sink e) []" and "conn_ok env e"
      and "rp_path (sk_ring (mc_sink e)) = path" and "path \<in> fs"
      and "expires (\<lambda>_ e. is_stale now1 e \<or> (\<exists>i. is_stale (clk i) e)) m m1"
      and "path = path_join dir (ring_file_name (se_pid env) i (mg_next_connection_id m))"
proof (cases rule: upsert_lookup [OF assms(1,2), of now1 clk now2 req dir cap])
  case (1 p e)
  then show thesis by (rule that(1))
next
  case (2 m0)
  have id: "mg_next_connection_id m0 = mg_next_connection_id m" and ptr: "mg_next_ptr m0 = mg_next_ptr m"
    using 2(2) by (simp_all add: quiet_def same_identity_def)
  have bl: "bloom_ok (se_bloom env)"
    using assms(1) by (simp add: sender_env_ok_def)
  have inv: "mgr_inv env (take_id m0)"
    using inv_take_id [OF quiet_inv [OF 2(2)]] assms(3) id by simp
  have fresh: "\<forall>p. ids (take_id m0) p \<noteq> Some (mg_next_connection_id m)"
    using inv_fresh_id [OF quiet_inv [OF 2(2)]] id by simp
  have less: "mg_next_connection_id m < mg_next_connection_id (take_id m0)"
    using word_less_succ [OF order_refl assms(3)] id by simp
  have ex: "expires (\<lambda>_ e. is_stale now1 e \<or> (\<exists>i. is_stale (clk i) e)) m m'"
    if "expires (\<lambda>_ e. \<exists>i. is_stale (clk i) e) (take_id m0) m'" for m'
  proof (rule expires_trans)
    show "expires (\<lambda>_ e. is_stale now1 e \<or> (\<exists>i. is_stale (clk i) e)) m m0"
      by (rule expires_mono [OF 2(3)]) (rule disjI1)
    have "expires (\<lambda>_ e. \<exists>i. is_stale (clk i) e) m0 m'"
      using that by (simp add: expires_def)
    then show "expires (\<lambda>_ e. is_stale now1 e \<or> (\<exists>i. is_stale (clk i) e)) m0 m'"
      by (rule expires_mono) (rule disjI2)
  qed
  show thesis
  proof (cases rule: install_loop_result [OF assms(1) inv subscription.first_invar [OF bl] fresh less,
        of clk now2 req dir cap])
    case (1 r m')
    with 2 ex show thesis by (intro that(2) [of r m' m0]) simp_all
  next
    case (2 i e m1 fs path)
    moreover from this have "connection_token e = slot_token_new (of_nat i) (mg_next_connection_id m)"
      by (simp add: connection_token_def)
    ultimately show thesis
      using \<open>quiet env m m0\<close> \<open>upsert_shm env now1 clk now2 req dir cap m = _\<close> ptr ex
      by (intro that(3) [where e = e and path = path and fs = fs and i = i and ?m0.0 = m0 and ?m1.0 = m1]) simp_all
  qed
qed

end
