(* ===== verification/Sender_Steps.thy ===== *)
theory Sender_Steps
  imports Manager_Upsert
begin

text \<open>
  The sender as a state machine: the tasks that run the dispatchers and the control connections
  (\<open>src/sender/mod.rs\<close>, \<open>src/sender/shm.rs\<close>) call the manager's operations in any order, and the
  consumers read their rings and wakeups at any time, also after their connection was removed.
\<close>

section \<open>Steps\<close>

inductive mgr_step ::
  "('q, 'k, 'b) sender_env \<Rightarrow> ('q, 'k, 'b) connection_manager \<Rightarrow> ('q, 'k, 'b) connection_manager \<Rightarrow> bool"
  for env where
  step_upsert: "mg_next_connection_id m \<noteq> - 1 \<Longrightarrow>
    upsert_shm env now1 clk now2 request dir cap m = Some (r, m') \<Longrightarrow> mgr_step env m m'"
| step_ping: "touch_ping env now1 now2 m ping = (b, m') \<Longrightarrow> mgr_step env m m'"
| step_account: "wf_account_update u \<Longrightarrow>
    dispatch_account_update env clk clk_us t1 t2 instant nanos u (m, metrics) = (m', metrics') \<Longrightarrow>
    mgr_step env m m'"
| step_transaction: "wf_transaction_update u \<Longrightarrow>
    dispatch_transaction_update env clk clk_us t1 t2 instant nanos u (m, metrics) = (m', metrics') \<Longrightarrow>
    mgr_step env m m'"
| step_slot:
    "dispatch_slot_update env clk clk_us t1 t2 instant nanos u (m, metrics) = (m', metrics') \<Longrightarrow>
    mgr_step env m m'"
| step_read: "mg_heap m p = Some e \<Longrightarrow>
    ring_try_pop (se_shaq env) c (sk_region (mc_sink e)) = (r, c', region) \<Longrightarrow>
    mgr_step env m (set_connection m p (e\<lparr>mc_sink := (mc_sink e)\<lparr>sk_region := region\<rparr>\<rparr>))"
| step_drain: "mg_heap m p = Some e \<Longrightarrow> efd_drain (se_efd env) (sk_wakeup (mc_sink e)) = (r, k) \<Longrightarrow>
    mgr_step env m (set_connection m p (e\<lparr>mc_sink := (mc_sink e)\<lparr>sk_wakeup := k\<rparr>\<rparr>))"

inductive_cases mgr_stepE: "mgr_step env m m'"

abbreviation mgr_steps ::
  "('q, 'k, 'b) sender_env \<Rightarrow> ('q, 'k, 'b) connection_manager \<Rightarrow> ('q, 'k, 'b) connection_manager \<Rightarrow> bool" where
  "mgr_steps env \<equiv> (mgr_step env)\<^sup>*\<^sup>*"


section \<open>Every step keeps the invariant\<close>

text \<open>The frames of well-formed updates are far below the length that collides with the close mark.\<close>

lemma valid_account_frame:
  assumes "wf_account_update u" and "encode_account_frame env instant nanos u = Ok frame"
  shows "valid_frame frame"
proof -
  obtain h p where "account_encode_parts_at (se_lz4 env) u nanos = Ok (h, p)" "frame_body frame = h @ p"
    using assms(2) by (auto simp: encode_account_frame_def bindR_eq_Ok)
  with account_codec.encode_bound [OF assms(1)] show ?thesis
    by (fastforce simp: const_defs)
qed

lemma valid_transaction_frame:
  assumes "wf_transaction_update u" and "encode_transaction_frame instant nanos u = Ok frame"
  shows "valid_frame frame"
proof -
  obtain h p where "transaction_encode_parts_at u nanos = Ok (h, p)" "frame_body frame = h @ p"
    using assms(2) by (auto simp: encode_transaction_frame_def bindR_eq_Ok)
  with transaction_codec.encode_bound [OF assms(1)] show ?thesis
    by (fastforce simp: const_defs)
qed

lemma valid_slot_frame:
  assumes "encode_slot_frame instant nanos u = Ok frame"
  shows "valid_frame frame"
proof -
  obtain h p where "slot_encode_parts_at u nanos = Ok (h, p)" "frame_body frame = h @ p"
    using assms by (auto simp: encode_slot_frame_def bindR_eq_Ok)
  with slot_codec.encode_bound [of u] show ?thesis
    by (fastforce simp: const_defs)
qed

lemma conn_ok_read:
  assumes "conn_ok env e" and "ring_try_pop (se_shaq env) c (sk_region (mc_sink e)) = (r, c', region)"
  shows "conn_ok env (e\<lparr>mc_sink := (mc_sink e)\<lparr>sk_region := region\<rparr>\<rparr>)"
proof -
  let ?s = "(sk_ring (mc_sink e), c, sk_region (mc_sink e))"
  obtain items where items: "ring_rep (se_shaq env) ?s items"
    using assms(1) by (auto simp: conn_ok_def sink_rep_def)
  have pop: "sys_pop (se_shaq env) ?s = (r, sk_ring (mc_sink e), c', region)"
    using assms(2) by (simp add: sys_pop_def)
  obtain items' where "ring_rep (se_shaq env) (sk_ring (mc_sink e), c', region) items'"
  proof (cases items)
    case Nil
    with items pop ring_channel.pop_empty [of "se_shaq env" ?s] that show thesis by auto
  next
    case (Cons i rest)
    with items pop ring_channel.pop_frame [of "se_shaq env" ?s _ rest]
      ring_channel.pop_close [of "se_shaq env" ?s rest] that show thesis
      by (cases i) auto
  qed
  then have "sink_rep (se_shaq env) ((mc_sink e)\<lparr>sk_region := region\<rparr>) items'"
    using sink_rep_ring by fastforce
  with assms(1) show ?thesis
    by (auto simp: conn_ok_def)
qed

text \<open>A step keeps the ids of the connections it finds.\<close>

lemma quiet_ids: "quiet env m m' \<Longrightarrow> ids m' = ids m"
  by (simp add: quiet_def same_identity_def)

lemma step_quiet_or_upsert:
  assumes "sender_env_ok env" and "mgr_inv env m" and "mgr_step env m m'"
  shows "quiet env m m' \<or> (\<exists>now1 clk now2 request dir cap r. mg_next_connection_id m \<noteq> - 1 \<and>
    upsert_shm env now1 clk now2 request dir cap m = Some (r, m'))"
  using assms(3)
proof cases
  case (step_ping now1 now2 ping b)
  then show ?thesis
    using quiet_touch_ping [OF assms(1,2)] by blast
next
  case (step_account u clk clk_us t1 t2 instant nanos metrics metrics')
  then have "quiet env m (fst (dispatch_account_update env clk clk_us t1 t2 instant nanos u (m, metrics)))"
    unfolding dispatch_account_update_def
    by (intro quiet_dispatch_with [OF assms(1,2)]) (use valid_account_frame in blast)
  with step_account show ?thesis by simp
next
  case (step_transaction u clk clk_us t1 t2 instant nanos metrics metrics')
  then have "quiet env m (fst (dispatch_transaction_update env clk clk_us t1 t2 instant nanos u (m, metrics)))"
    unfolding dispatch_transaction_update_def
    by (intro quiet_dispatch_with [OF assms(1,2)]) (use valid_transaction_frame in blast)
  with step_transaction show ?thesis by simp
next
  case (step_slot clk clk_us t1 t2 instant nanos u metrics metrics')
  then have "quiet env m (fst (dispatch_slot_update env clk clk_us t1 t2 instant nanos u (m, metrics)))"
    unfolding dispatch_slot_update_def
    by (intro quiet_dispatch_with [OF assms(1,2)]) (use valid_slot_frame in blast)
  with step_slot show ?thesis by simp
next
  case (step_read p e c r c' region)
  have "conn_ok env (e\<lparr>mc_sink := (mc_sink e)\<lparr>sk_region := region\<rparr>\<rparr>)"
    by (rule conn_ok_read [OF mgr_inv_heap(1) [OF assms(2) step_read(2)] step_read(3)])
  with quiet_set_connection [OF assms(2) step_read(2)] step_read(1) show ?thesis by simp
next
  case (step_drain p e r k)
  have "conn_ok env (e\<lparr>mc_sink := (mc_sink e)\<lparr>sk_wakeup := k\<rparr>\<rparr>)"
    using mgr_inv_heap(1) [OF assms(2) step_drain(2)] by (simp add: conn_ok_def sink_rep_def)
  with quiet_set_connection [OF assms(2) step_drain(2)] step_drain(1) show ?thesis by simp
qed blast

lemma upsert_keeps:
  assumes "sender_env_ok env" and "mgr_inv env m" and "mg_next_connection_id m \<noteq> - 1"
    and "upsert_shm env now1 clk now2 req dir cap m = Some (r, m')"
  shows "mgr_inv env m' \<and> ids m \<subseteq>\<^sub>m ids m'"
proof (cases rule: upsert_cases [OF assms(1-3), of now1 clk now2 req dir cap])
  case (1 p e)
  let ?e = "apply_request (se_bloom env) (e\<lparr>mc_last_seen_ms := now2\<rparr>) req"
  have "bloom_ok (se_bloom env)"
    using assms(1) by (simp add: sender_env_ok_def)
  then have "conn_ok env ?e"
    using mgr_inv_heap(1) [OF assms(2) 1(2)] subscription.extend_invar [of "se_bloom env" "mc_filter e" req]
    by (simp add: conn_ok_def apply_request_def)
  then have "quiet env m (set_connection m p ?e)"
    by (intro quiet_set_connection [OF assms(2) 1(2)]) (simp_all add: apply_request_def)
  with 1(1) assms(4) show ?thesis
    by (simp add: quiet_inv quiet_ids)
next
  case (2 r' m0 m'')
  with assms(4) show ?thesis
    using quiet_inv [OF 2(3)] quiet_ids [OF 2(2)] quiet_ids [OF 2(3)] by simp
next
  case (3 i e m0 m1 fs path)
  have same: "ids m1 = ids m" "mg_next_connection_id m1 = mg_next_connection_id m + 1"
    using 3(2,3) by (simp_all add: quiet_def same_identity_def)
  have inv1: "mgr_inv env (m1\<lparr>mg_files := fs\<rparr>)"
    by (rule inv_files [OF quiet_inv [OF 3(3)]])
  have "mgr_inv env (install (m1\<lparr>mg_files := fs\<rparr>) i e)"
    by (rule inv_install [OF inv1 3(4) _ 3(6)])
      (use 3 same inv_fresh_id [OF assms(2)] word_less_succ [OF order_refl assms(3)] in simp_all)
  moreover have old: "ids m (mg_next_ptr m1) = None"
    unfolding same(1) [symmetric] using inv_fresh_ptr [OF inv1] by (simp add: ids_def)
  have "ids m \<subseteq>\<^sub>m ids (install (m1\<lparr>mg_files := fs\<rparr>) i e)"
    using old by (auto simp: ids_install map_le_def same)
  ultimately show ?thesis
    using 3(1) assms(4) by simp
qed

lemma step_keeps:
  assumes "sender_env_ok env" and "mgr_inv env m" and "mgr_step env m m'"
  shows "mgr_inv env m' \<and> ids m \<subseteq>\<^sub>m ids m'"
  using step_quiet_or_upsert [OF assms] upsert_keeps [OF assms(1,2)]
  by (metis quiet_inv quiet_ids map_le_refl)

lemma steps_keep:
  assumes "sender_env_ok env" and "mgr_inv env m" and "mgr_steps env m m'"
  shows "mgr_inv env m' \<and> ids m \<subseteq>\<^sub>m ids m'"
  using assms(3)
proof (induction rule: rtranclp_induct)
  case base
  then show ?case using assms(2) by simp
next
  case (step m1 m2)
  then show ?case
    using step_keeps [OF assms(1)] map_le_trans by blast
qed

lemma inv_new: "mgr_inv env (manager_new fs)"
  by (auto simp: mgr_inv_def manager_new_def load_full_def)



section \<open>A sample sender\<close>

text \<open>Concrete instances of the parameters, and a run of the sender.\<close>

definition sample_env :: "(list_queue, nat, bytes list) sender_env" where
  "sample_env =
     \<lparr>se_shaq = list_shaq, se_efd = nat_efd, se_bloom = first_byte_bloom, se_lz4 = run_length_lz4,
      se_fs = \<lparr>fe_create_dir = \<lambda>_. None, fe_open = \<lambda>_. None\<rparr>, se_eventfd = Inr 0, se_pid = 7\<rparr>"

lemma sample_env_ok: "sender_env_ok sample_env"
  by (simp add: sender_env_ok_def sample_env_def list_shaq_ok nat_efd_ok first_byte_bloom_ok)

definition sample_request :: subscription_request where
  "sample_request = subscription_new [key_of 1] []"

definition sample_connection :: "(list_queue, nat, bytes list) managed_connection" where
  "sample_connection =
     \<lparr>mc_slot_index = 0, mc_connection_id = 1,
      mc_filter = filter_from_request first_byte_bloom sample_request,
      mc_sink = \<lparr>sk_ring = \<lparr>rp_capacity = 256, rp_path = ''/dev/shm/7-0-1'', rp_dropped_frames = 0,
          rp_owns_file = True\<rparr>, sk_region = (256, []), sk_wakeup = 0\<rparr>,
      mc_last_seen_ms = 1000\<rparr>"

definition sample_manager :: "(list_queue, nat, bytes list) connection_manager" where
  "sample_manager =
     \<lparr>mg_connections = Some 0 # replicate 9 None, mg_next_connection_id = 2,
      mg_heap = [0 \<mapsto> sample_connection], mg_next_ptr = 1, mg_files = {''/dev/shm/7-0-1''}\<rparr>"

lemma digit_chars:
  "char_of (48 :: nat) = CHR ''0''" "char_of (49 :: nat) = CHR ''1''" "char_of (55 :: nat) = CHR ''7''"
  by code_simp+

lemma sample_created:
  assumes "sr_slot_token req = None"
  shows "upsert_shm sample_env 1000 (\<lambda>_. 1000) 1000 req ''/dev/shm'' 256 (manager_new {}) =
     Some (Ok (Created (slot_token_new 0 1) ''/dev/shm/7-0-1'' 256 0),
       sample_manager\<lparr>mg_heap := [0 \<mapsto> sample_connection\<lparr>mc_filter := filter_from_request first_byte_bloom req\<rparr>]\<rparr>)"
proof -
  let ?m = "(manager_new {} :: (list_queue, nat, bytes list) connection_manager)\<lparr>mg_next_connection_id := 2\<rparr>"
  have free: "find_free_slot sample_env (\<lambda>_. 1000) ?m = (Some 0, ?m)" and slot: "load_full ?m 0 = None"
    by (simp_all add: find_free_slot_def const_defs load_full_def manager_new_def upt_rec)
  have path: "''/dev/shm/7-0-1'' = path_join ''/dev/shm'' (ring_file_name (se_pid sample_env) 0 1)"
    by (simp add: path_join_def ring_file_name_def sample_env_def show_nat.simps digit_chars)
  have ring: "ring_create (se_shaq sample_env) (se_fs sample_env) (mg_files ?m) ''/dev/shm/7-0-1'' 256 =
      (Ok (\<lparr>rp_capacity = 256, rp_path = ''/dev/shm/7-0-1'', rp_dropped_frames = 0, rp_owns_file = True\<rparr>,
        (256, [])), {''/dev/shm/7-0-1''})"
    by (simp add: ring_create_def sample_env_def manager_new_def list_shaq_def next_power_of_two_def
        next_power_from.simps)
  have "se_eventfd sample_env = Inr 0"
    by (simp add: sample_env_def)
  note created = install_loop_created [OF free slot path ring this]
  have "upsert_shm sample_env 1000 (\<lambda>_. 1000) 1000 req ''/dev/shm'' 256 (manager_new {}) =
      install_loop sample_env (\<lambda>_. 1000) 1000 (filter_from_request first_byte_bloom req) 1 ''/dev/shm'' 256 ?m"
    by (simp add: upsert_shm_def assms manager_new_def sample_env_def)
  moreover have "replicate 10 (None :: ptr option) = None # replicate 9 None"
    by (simp add: numeral_eq_Suc)
  ultimately show ?thesis
    unfolding created
    by (simp add: install_def sample_manager_def sample_connection_def manager_new_def const_defs sink_shm_def)
qed

lemma sample_subscribed:
  "upsert_shm sample_env 1000 (\<lambda>_. 1000) 1000 sample_request ''/dev/shm'' 256 (manager_new {}) =
     Some (Ok (Created (slot_token_new 0 1) ''/dev/shm/7-0-1'' 256 0), sample_manager)"
  using sample_created [of sample_request]
  by (simp add: sample_request_def subscription_new_def) (simp add: sample_manager_def sample_connection_def sample_request_def subscription_new_def)

lemma sample_reachable: "mgr_steps sample_env (manager_new {}) sample_manager"
  by (rule r_into_rtranclp, rule step_upsert [OF _ sample_subscribed]) (simp add: manager_new_def)

lemma sample_inv: "mgr_inv sample_env sample_manager"
  using steps_keep [OF sample_env_ok inv_new sample_reachable] by blast


section \<open>Properties of the manager\<close>

text \<open>
  C14: the invariant holds in every state the sender can reach: each of the ten slots is empty or holds
  the connection made for that slot, connection ids are unique among all connections ever made,
  and every connection has a filter whose fast paths are consistent with its sets and a ring that
  holds whole frames only.
\<close>

theorem reachable_invariant:
  assumes "sender_env_ok env" and "mgr_steps env (manager_new fs) m"
  shows "mgr_inv env m"
  using steps_keep [OF assms(1) inv_new assms(2)] by blast

theorem reachable_invariant_witness: "mgr_inv sample_env sample_manager"
  using reachable_invariant [OF sample_env_ok sample_reachable] .

text \<open>
  C18: a slot token is never reused. If a token is accepted now and accepted again in any later state
  of the sender, it names the same connection, however often the slot was freed and refilled.
\<close>

theorem token_names_one_connection:
  assumes "sender_env_ok env" and "mgr_inv env m" and "mgr_steps env m m'"
    and "lookup_by_token env now m token = (Some p, m1)"
    and "lookup_by_token env now' m' token = (Some p', m1')"
  shows "p' = p"
proof -
  have inv': "mgr_inv env m'" and le: "ids m \<subseteq>\<^sub>m ids m'"
    using steps_keep [OF assms(1-3)] by blast+
  obtain e where e: "mg_heap m p = Some e" "connection_token e = token"
    by (rule lookup_by_token_Some [OF assms(2,4)])
  obtain e' where e': "mg_heap m' p' = Some e'" "connection_token e' = token"
    by (rule lookup_by_token_Some [OF inv' assms(5)])
  have "ids m p = Some (mc_connection_id e)"
    using e(1) by (simp add: ids_def)
  then have "ids m' p = Some (mc_connection_id e)"
    using le by (metis domI map_le_def)
  then obtain d where "mg_heap m' p = Some d" "mc_connection_id d = mc_connection_id e"
    by (auto simp: ids_def)
  moreover have "mc_connection_id e' = mc_connection_id e"
    using e(2) e'(2) by (auto simp: connection_token_def slot_token_new_def)
  ultimately show ?thesis
    using mgr_inv_conjuncts(4) [OF inv' e'(1)] by simp
qed

theorem token_names_one_connection_witness:
  "let m' = snd (touch_ping sample_env 2000 2500 sample_manager \<lparr>pr_slot_token = slot_token_new 0 1\<rparr>)
   in fst (lookup_by_token sample_env 1500 sample_manager (slot_token_new 0 1)) =
      fst (lookup_by_token sample_env 31000 m' (slot_token_new 0 1)) \<and>
      mg_heap m' 0 \<noteq> mg_heap sample_manager 0"
proof -
  let ?t = "slot_token_new 0 1"
  let ?m' = "set_connection sample_manager 0 (sample_connection\<lparr>mc_last_seen_ms := 2500\<rparr>)"
  have l: "lookup_by_token sample_env now sample_manager ?t = (Some 0, sample_manager)" if "now \<in> {1500, 2000}" for now
    using that by (auto simp: lookup_by_token_def maybe_cleanup_stale_slot_def is_stale_def sat_sub_def
        sample_manager_def sample_connection_def load_full_def const_defs slot_token_new_def)
  have ping: "touch_ping sample_env 2000 2500 sample_manager \<lparr>pr_slot_token = ?t\<rparr> = (True, ?m')"
    using l [of 2000] by (simp add: touch_ping_def touch_connection_def sample_manager_def)
  have l': "lookup_by_token sample_env 31000 ?m' ?t = (Some 0, ?m')"
    by (simp add: lookup_by_token_def maybe_cleanup_stale_slot_def is_stale_def sat_sub_def
        sample_manager_def sample_connection_def load_full_def const_defs slot_token_new_def)
  have "mgr_steps sample_env sample_manager ?m'"
    by (rule r_into_rtranclp) (rule step_ping [OF ping])
  from token_names_one_connection [OF sample_env_ok sample_inv this l [of 1500] l'] show ?thesis
    unfolding Let_def ping snd_conv using l [of 1500] l' by (simp add: sample_manager_def sample_connection_def)
qed

text \<open>The two ways a subscription succeeds, seen through the slots.\<close>

definition stale_during :: "u64 \<Rightarrow> (nat \<Rightarrow> u64) \<Rightarrow> ('q, 'k, 'b) managed_connection \<Rightarrow> bool" where
  "stale_during now clk e \<longleftrightarrow> is_stale now e \<or> (\<exists>i. is_stale (clk i) e)"

definition refreshes ::
  "('q, 'k, 'b) sender_env \<Rightarrow> u64 \<Rightarrow> u64 \<Rightarrow> subscription_request \<Rightarrow> slot_token \<Rightarrow>
     ('q, 'k, 'b) connection_manager \<Rightarrow> ('q, 'k, 'b) connection_manager \<Rightarrow> bool" where
  "refreshes env now1 now2 req token m m' \<longleftrightarrow>
     sr_slot_token req = Some token \<and>
     (\<exists>i e e'. connection_at m i = Some e \<and> connection_token e = token \<and> \<not> is_stale now1 e \<and>
        connection_at m' i = Some e' \<and> connection_token e' = token \<and> mc_last_seen_ms e' = now2 \<and>
        mc_sink e' = mc_sink e \<and>
        (\<forall>u. matches_account (se_bloom env) (mc_filter e') u \<longleftrightarrow>
             matches_account (se_bloom env) (mc_filter e) u \<or> wants_account req u) \<and>
        (\<forall>j. j \<noteq> i \<longrightarrow> connection_at m' j = connection_at m j))"

definition creates ::
  "('q, 'k, 'b) sender_env \<Rightarrow> u64 \<Rightarrow> (nat \<Rightarrow> u64) \<Rightarrow> u64 \<Rightarrow> subscription_request \<Rightarrow> slot_token \<Rightarrow> string \<Rightarrow>
     ('q, 'k, 'b) connection_manager \<Rightarrow> ('q, 'k, 'b) connection_manager \<Rightarrow> bool" where
  "creates env now1 clk now2 req token path m m' \<longleftrightarrow>
     (\<exists>i e. connection_at m' i = Some e \<and> connection_token e = token \<and>
        mc_connection_id e = mg_next_connection_id m \<and> mc_last_seen_ms e = now2 \<and>
        sink_rep (se_shaq env) (mc_sink e) [] \<and> rp_path (sk_ring (mc_sink e)) = path \<and>
        (\<forall>u. matches_account (se_bloom env) (mc_filter e) u \<longleftrightarrow> wants_account req u) \<and>
        (connection_at m i = None \<or> (\<exists>d. connection_at m i = Some d \<and> stale_during now1 clk d)) \<and>
        (\<forall>j. j \<noteq> i \<longrightarrow> connection_at m' j = connection_at m j \<or>
           connection_at m' j = None \<and> (\<exists>d. connection_at m j = Some d \<and> stale_during now1 clk d)))"

lemma refreshes_intro:
  assumes "bloom_ok (se_bloom env)" and "mgr_inv env m" and "mg_heap m p = Some e"
    and "load_full m (mc_slot_index e) = Some p" and "sr_slot_token req = Some (connection_token e)"
    and "\<not> is_stale now1 e"
  shows "refreshes env now1 now2 req (connection_token e) m
    (set_connection m p (apply_request (se_bloom env) (e\<lparr>mc_last_seen_ms := now2\<rparr>) req))"
proof -
  let ?e = "apply_request (se_bloom env) (e\<lparr>mc_last_seen_ms := now2\<rparr>) req"
  have other: "p \<noteq> q" if "load_full m j = Some q" "j \<noteq> mc_slot_index e" for j q
    using mgr_inv_same_slot [OF assms(2,4)] that by auto
  have at: "connection_at (set_connection m p ?e) j = connection_at m j" if "j \<noteq> mc_slot_index e" for j
    using other [OF _ that] by (auto simp: connection_at_def split: option.splits)
  have "filter_invar (se_bloom env) (mc_filter e)"
    using mgr_inv_heap(1) [OF assms(2,3)] by (simp add: conn_ok_def)
  then have "matches_account (se_bloom env) (mc_filter ?e) u \<longleftrightarrow>
      matches_account (se_bloom env) (mc_filter e) u \<or> wants_account req u" for u
    using subscription.extend_account [OF assms(1)] by (simp add: apply_request_def)
  with at assms(3-6) show ?thesis
    unfolding refreshes_def
    by (intro conjI exI [of _ "mc_slot_index e"] exI [of _ e] exI [of _ ?e])
      (simp_all add: connection_at_def, simp_all add: apply_request_def connection_token_def)
qed

lemma creates_intro:
  assumes "bloom_ok (se_bloom env)" and "mgr_inv env m1" and "load_full m1 i = None" and "i < MAX_CONNECTION_SLOTS"
    and "expires (\<lambda>_ e. is_stale now1 e \<or> (\<exists>i. is_stale (clk i) e)) m m1"
    and "mc_connection_id e = mg_next_connection_id m" and "mc_last_seen_ms e = now2"
    and "mc_filter e = filter_from_request (se_bloom env) req" and "sink_rep (se_shaq env) (mc_sink e) []"
  shows "creates env now1 clk now2 req (connection_token e) (rp_path (sk_ring (mc_sink e))) m (install m1 i e)"
proof -
  have ne: "mg_next_ptr m1 \<noteq> q" if "load_full m1 j = Some q" for j q
    using mgr_inv_conjuncts(2) [OF assms(2) that] inv_fresh_ptr [OF assms(2)] by auto
  have "i < length (mg_connections m1)"
    using assms(4) mgr_inv_conjuncts(1) [OF assms(2)] by simp
  then have at: "connection_at (install m1 i e) j = (if j = i then Some e else connection_at m1 j)" for j
    using ne [of j] by (auto simp: connection_at_def load_install split: option.splits)
  have ex: "connection_at m1 j = connection_at m j \<or>
      connection_at m1 j = None \<and> (\<exists>d. connection_at m j = Some d \<and> stale_during now1 clk d)" for j
    using assms(5) by (simp add: expires_def stale_during_def)
  have "connection_at m1 i = None"
    using assms(3) by (simp add: connection_at_def)
  with ex [of i] have "connection_at m i = None \<or> (\<exists>d. connection_at m i = Some d \<and> stale_during now1 clk d)"
    by auto
  with at ex assms(6-9) subscription.first_account [OF assms(1)] show ?thesis
    unfolding creates_def by (intro exI [of _ i] exI [of _ e]) simp
qed

text \<open>
  C17: what \<open>upsert_shm\<close> does. It always returns. A live token refreshes its connection: the timestamp
  is set and the filter now also matches what the request asks for; nothing else changes. Otherwise
  a new connection with the next id, an empty ring and a filter for exactly this request is put into a
  slot that was empty or held a stale connection. On an error no slot changes except by expiry.
\<close>

theorem upsert_shm_spec:
  assumes "sender_env_ok env" and "mgr_inv env m" and "mg_next_connection_id m \<noteq> - 1"
  shows "\<exists>r m'. upsert_shm env now1 clk now2 req dir cap m = Some (r, m') \<and> mgr_inv env m' \<and>
    (case r of
       Ok (Existing token) \<Rightarrow> refreshes env now1 now2 req token m m'
     | Ok (Created token path c p) \<Rightarrow> creates env now1 clk now2 req token path m m'
     | _ \<Rightarrow> expires (\<lambda>_. stale_during now1 clk) m m')"
proof -
  have bl: "bloom_ok (se_bloom env)"
    using assms(1) by (simp add: sender_env_ok_def)
  show ?thesis
  proof (cases rule: upsert_cases [OF assms(1-3), of now1 clk now2 req dir cap])
    case (1 p e)
    from refreshes_intro [OF bl assms(2) 1(2-5), of now2] upsert_keeps [OF assms(1-3) 1(1)] 1(1)
    show ?thesis by simp
  next
    case (2 r m0 m')
    then have "expires (\<lambda>_. stale_during now1 clk) m m'"
      by (simp add: expires_def stale_during_def)
    with 2 upsert_keeps [OF assms(1-3) 2(1)] show ?thesis
      by (cases r) simp_all
  next
    case (3 i e m0 m1 fs path)
    have "creates env now1 clk now2 req (connection_token e) (rp_path (sk_ring (mc_sink e))) m
        (install (m1\<lparr>mg_files := fs\<rparr>) i e)"
      by (rule creates_intro [OF bl inv_files [OF quiet_inv [OF 3(3)]]])
        (use 3 in \<open>simp_all add: expires_def\<close>)
    with upsert_keeps [OF assms(1-3) 3(1)] 3(1,12) show ?thesis by simp
  qed
qed

theorem upsert_shm_spec_witness:
  "creates sample_env 1000 (\<lambda>_. 1000) 1000 sample_request (slot_token_new 0 1) ''/dev/shm/7-0-1''
     (manager_new {}) sample_manager"
proof -
  have "mg_next_connection_id (manager_new {} :: (list_queue, nat, bytes list) connection_manager) \<noteq> - 1"
    by (simp add: manager_new_def)
  from upsert_shm_spec [OF sample_env_ok inv_new this, of 1000 "\<lambda>_. 1000" 1000 sample_request "''/dev/shm''" 256]
  show ?thesis
    unfolding sample_subscribed by simp
qed

lemma upsert_without_token:
  "sr_slot_token req = None \<Longrightarrow> upsert_shm env now1 clk now2 req dir cap m =
     install_loop env clk now2 (filter_from_request (se_bloom env) req) (mg_next_connection_id m) dir cap (take_id m)"
  by (simp add: upsert_shm_def Let_def)

text \<open>
  C23: a new subscription is turned away for lack of slots exactly when all ten slots hold connections
  that are not stale; stale connections never keep a subscriber out.
\<close>

theorem slots_exhausted_iff:
  assumes "mgr_inv env m" and "mg_next_connection_id m \<noteq> - 1" and "sr_slot_token req = None"
  shows "(\<exists>msg m'. upsert_shm env now1 clk now2 req dir cap m = Some (Err (ConfigError msg), m')) \<longleftrightarrow>
    (\<forall>i < MAX_CONNECTION_SLOTS. \<exists>e. connection_at m i = Some e \<and> \<not> is_stale (clk i) e)"
proof -
  let ?m = "take_id m" and ?flt = "filter_from_request (se_bloom env) req"
  let ?id = "mg_next_connection_id m"
  obtain free m1 where free: "find_free_slot env clk ?m = (free, m1)"
    by force
  have "(\<exists>msg m'. install_loop env clk now2 ?flt ?id dir cap ?m = Some (Err (ConfigError msg), m')) \<longleftrightarrow> free = None"
  proof (cases "\<exists>i ring region fs k. free = Some i \<and> se_eventfd env = Inr k \<and>
      ring_create (se_shaq env) (se_fs env) (mg_files m1)
        (path_join dir (ring_file_name (se_pid env) i ?id)) cap = (Ok (ring, region), fs)")
    case True
    then obtain i ring region fs k where c: "free = Some i" "se_eventfd env = Inr k"
        "ring_create (se_shaq env) (se_fs env) (mg_files m1)
          (path_join dir (ring_file_name (se_pid env) i ?id)) cap = (Ok (ring, region), fs)"
      by (elim exE conjE)
    have "load_full m1 i = None"
      using free c(1) find_free_from_slot [of env clk "[0..<MAX_CONNECTION_SLOTS]" ?m i m1]
      by (simp add: find_free_slot_def)
    with c free show ?thesis
      by (simp add: install_loop_created [OF free [unfolded c(1)] _ refl c(3,2)])
  next
    case False
    obtain r fs where "install_loop env clk now2 ?flt ?id dir cap ?m = Some (r, m1\<lparr>mg_files := fs\<rparr>)"
        "(\<exists>msg. r = Err (ConfigError msg)) \<longleftrightarrow> free = None"
      by (rule install_loop_failed [OF free, of dir ?id cap now2 ?flt]) (use False in blast)+
    then show ?thesis by auto
  qed
  moreover have "free = None \<longleftrightarrow>
      (\<forall>i < MAX_CONNECTION_SLOTS. \<exists>e. connection_at m i = Some e \<and> \<not> is_stale (clk i) e)"
    using find_free_from_None(1) [OF inv_take_id [OF assms(1,2)], of clk "[0..<MAX_CONNECTION_SLOTS]"] free
    by (auto simp: find_free_slot_def)
  ultimately show ?thesis
    by (simp add: upsert_without_token [OF assms(3)])
qed

theorem slots_exhausted_iff_witness:
  "\<nexists>msg m'. upsert_shm sample_env 2000 (\<lambda>_. 2000) 2000 sample_request ''/dev/shm'' 256 sample_manager =
     Some (Err (ConfigError msg), m')"
proof -
  have "mg_next_connection_id sample_manager \<noteq> - 1" "sr_slot_token sample_request = None"
    by (simp_all add: sample_manager_def sample_request_def subscription_new_def)
  note iff = slots_exhausted_iff [OF sample_inv this]
  have "connection_at sample_manager 1 = None" "(1 :: nat) < MAX_CONNECTION_SLOTS"
    by (simp_all add: connection_at_def load_full_def sample_manager_def const_defs)
  then show ?thesis
    unfolding iff by (metis option.distinct(1))
qed

end
