(* ===== verification/Dispatch.thy ===== *)
theory Dispatch
  imports Sender_Steps
begin

text \<open>
  What a dispatch pass of \<open>src/sender/mod.rs\<close> does to every connection. The pass encodes the update
  lazily and at most once and goes through the slots in order; here it is shown to be the same as
  handling each slot on its own with the encoded frame, so that a slow, stale or uninterested
  consumer has no influence on what the others receive.
\<close>

section \<open>One connection\<close>

text \<open>The reference: what happens to a connection, and whether it stays in its slot.\<close>

definition dispatch_entry ::
  "('q, 'k, 'b) sender_env \<Rightarrow> u64 \<Rightarrow> ('b subscription_filter \<Rightarrow> bool) \<Rightarrow> outbound_frame \<Rightarrow>
     ('q, 'k, 'b) managed_connection \<Rightarrow> bool \<times> ('q, 'k, 'b) managed_connection" where
  "dispatch_entry env now matches frame e =
     (if is_stale now e then (False, close_connection env e)
      else if \<not> matches (mc_filter e) then (True, e)
      else case sink_try_push (se_shaq env) (se_efd env) (mc_sink e) frame of
        (Inr _, sink) \<Rightarrow> (True, e\<lparr>mc_sink := sink\<rparr>)
      | (Inl _, sink) \<Rightarrow> (False, close_connection env (e\<lparr>mc_sink := sink\<rparr>)))"

definition visit_slot ::
  "('q, 'k, 'b) sender_env \<Rightarrow> (nat \<Rightarrow> u64) \<Rightarrow> ('b subscription_filter \<Rightarrow> bool) \<Rightarrow> outbound_frame \<Rightarrow> nat \<Rightarrow>
     ('q, 'k, 'b) connection_manager \<Rightarrow> ('q, 'k, 'b) connection_manager" where
  "visit_slot env clk matches frame i m =
     (case load_full m i of
        None \<Rightarrow> m
      | Some p \<Rightarrow>
          (case mg_heap m p of
             None \<Rightarrow> m
           | Some e \<Rightarrow>
               (case dispatch_entry env (clk i) matches frame e of
                  (keep, e') \<Rightarrow>
                    if keep then set_connection m p e' else swap_out (set_connection m p e') i p e')))"

text \<open>The part of the invariant the argument needs: a slot's connection knows its slot.\<close>

definition slots_ok :: "('q, 'k, 'b) connection_manager \<Rightarrow> bool" where
  "slots_ok m \<longleftrightarrow> (\<forall>i p. load_full m i = Some p \<longrightarrow> (\<exists>e. mg_heap m p = Some e \<and> mc_slot_index e = i))"

lemma slots_okD:
  assumes "slots_ok m" and "load_full m i = Some p"
  obtains e where "mg_heap m p = Some e" and "mc_slot_index e = i"
  using assms unfolding slots_ok_def by blast

lemma slots_ok_inj:
  "slots_ok m \<Longrightarrow> load_full m i = Some p \<Longrightarrow> load_full m j = Some p \<Longrightarrow> i = j"
  unfolding slots_ok_def by (metis option.inject)

lemma mgr_inv_slots_ok: "mgr_inv env m \<Longrightarrow> slots_ok m"
  unfolding slots_ok_def using mgr_inv_conjuncts(2) by blast

lemma dispatch_entry_slot [simp]:
  "mc_slot_index (snd (dispatch_entry env now matches frame e)) = mc_slot_index e"
  by (simp add: dispatch_entry_def split: prod.splits sum.splits)

lemma load_visit_slot:
  assumes "load_full m i = Some p" and "mg_heap m p = Some e"
  shows "load_full (visit_slot env clk matches frame i m) j =
      (if j = i \<and> \<not> fst (dispatch_entry env (clk i) matches frame e) then None else load_full m j)"
    and "mg_heap (visit_slot env clk matches frame i m) =
      (mg_heap m)(p \<mapsto> snd (dispatch_entry env (clk i) matches frame e))"
  using assms by (auto simp: visit_slot_def load_swap_out split: prod.splits)

lemma visit_empty_slot: "load_full m i = None \<Longrightarrow> visit_slot env clk matches frame i m = m"
  by (simp add: visit_slot_def)

lemma slots_ok_visit:
  assumes "slots_ok m"
  shows "slots_ok (visit_slot env clk matches frame i m)"
proof (cases "load_full m i")
  case (Some p)
  obtain e where e: "mg_heap m p = Some e" "mc_slot_index e = i"
    by (rule slots_okD [OF assms Some])
  show ?thesis
    unfolding slots_ok_def load_visit_slot [OF Some e(1)]
  proof (intro allI impI)
    fix j q
    assume "(if j = i \<and> \<not> fst (dispatch_entry env (clk i) matches frame e) then None else load_full m j) = Some q"
    then have q: "load_full m j = Some q"
      by (simp split: if_splits)
    obtain d where d: "mg_heap m q = Some d" "mc_slot_index d = j"
      using assms q by (rule slots_okD)
    show "\<exists>d. ((mg_heap m)(p \<mapsto> snd (dispatch_entry env (clk i) matches frame e))) q = Some d \<and> mc_slot_index d = j"
      using d e by (cases "q = p") auto
  qed
qed (use assms in \<open>simp add: visit_empty_slot\<close>)


section \<open>The pass handles each slot on its own\<close>

lemma sink_try_push_drop:
  assumes "sink_try_push sq ek sink frame = (r, sink')"
  shows "ring_drop (sk_ring sink') = ring_drop (sk_ring sink)"
proof -
  have "rp_path (sk_ring sink') = rp_path (sk_ring sink) \<and> rp_owns_file (sk_ring sink') = rp_owns_file (sk_ring sink)"
    using assms
    by (auto simp: sink_try_push_def ring_try_push_def Let_def split: prod.splits option.splits if_splits)
  then show ?thesis
    by (simp add: ring_drop_def fun_eq_iff)
qed

lemma swap_out_cong:
  "ring_drop (sk_ring (mc_sink e)) = ring_drop (sk_ring (mc_sink e')) \<Longrightarrow> swap_out m i p e = swap_out m i p e'"
  by (cases "load_full m i = Some p") (simp_all add: swap_out_same swap_out_other)

lemma set_connection_same: "mg_heap m p = Some e \<Longrightarrow> set_connection m p e = m"
  by (simp add: set_connection_def fun_upd_idem)

lemma set_connection_twice [simp]: "set_connection (set_connection m p e) p e' = set_connection m p e'"
  by (simp add: set_connection_def)

lemma push_to_entry_visit:
  assumes "load_full m i = Some p" and "mg_heap m p = Some e" and "mc_slot_index e = i"
    and "\<not> is_stale (clk i) e" and "matches (mc_filter e)"
  shows "fst (push_to_entry env now_us p frame (m, metrics)) = visit_slot env clk matches frame i m"
proof -
  obtain r sink where push: "sink_try_push (se_shaq env) (se_efd env) (mc_sink e) frame = (r, sink)"
    by force
  show ?thesis
  proof (cases r)
    case (Inr _)
    with assms push show ?thesis
      by (simp add: push_to_entry_def visit_slot_def dispatch_entry_def)
  next
    case (Inl _)
    let ?e = "e\<lparr>mc_sink := sink\<rparr>"
    have "swap_out (set_connection m p (close_connection env ?e)) i p ?e =
        swap_out (set_connection m p (close_connection env ?e)) i p (close_connection env ?e)"
      by (rule swap_out_cong) simp
    with assms push Inl show ?thesis
      by (simp add: push_to_entry_def cleanup_if_same_def visit_slot_def dispatch_entry_def)
  qed
qed

lemma stale_visit:
  assumes "load_full m i = Some p" and "mg_heap m p = Some e"
  shows "maybe_cleanup_stale_slot env (clk i) m i p =
    (is_stale (clk i) e, if is_stale (clk i) e then visit_slot env clk matches frame i m else m)"
  using assms swap_out_cong [of "close_connection env e" e]
  by (simp add: maybe_cleanup_live visit_slot_def dispatch_entry_def)

lemma dispatch_slots_fold:
  assumes "slots_ok (fst s)" and "encode = Ok frame" and "shared = None \<or> shared = Some frame"
  shows "fst (dispatch_slots env clk clk_us matches encode is shared s) =
    fold (visit_slot env clk matches frame) is (fst s)"
  using assms(1,3)
proof (induction "is" arbitrary: s shared)
  case (Cons i "is")
  obtain m metrics where s: "s = (m, metrics)"
    by force
  have ok: "slots_ok m"
    using Cons.prems(1) s by simp
  note IH = Cons.IH [OF _ Cons.prems(2)]
  show ?case
  proof (cases "load_full m i")
    case None
    with IH [of s] ok s show ?thesis by (simp add: visit_empty_slot)
  next
    case (Some p)
    obtain e where e: "mg_heap m p = Some e" "mc_slot_index e = i"
      by (rule slots_okD [OF ok Some])
    note stale = stale_visit [OF Some e(1), of env clk matches frame]
    have frame: "(case shared of Some frame \<Rightarrow> Ok frame | None \<Rightarrow> encode) = Ok frame"
      using Cons.prems(2) assms(2) by auto
    consider "is_stale (clk i) e" | "\<not> is_stale (clk i) e" "\<not> matches (mc_filter e)"
      | "\<not> is_stale (clk i) e" "matches (mc_filter e)"
      by blast
    then show ?thesis
    proof cases
      case 1
      with IH [of "(visit_slot env clk matches frame i m, metrics)"] slots_ok_visit [OF ok] Some s stale
      show ?thesis by simp
    next
      case 2
      then have "visit_slot env clk matches frame i m = m"
        using Some e by (simp add: visit_slot_def dispatch_entry_def set_connection_same)
      with 2 IH [of "(m, metrics)"] ok Some s stale e(1) show ?thesis by simp
    next
      case 3
      note push = push_to_entry_visit [where clk = clk and matches = matches, OF Some e 3, of env "clk_us i" frame metrics]
      have "slots_ok (fst (push_to_entry env (clk_us i) p frame (m, metrics)))"
        unfolding push by (rule slots_ok_visit [OF ok])
      from Cons.IH [OF this, of "Some frame"] push 3 Some s stale e(1) frame show ?thesis by simp
    qed
  qed
qed simp

text \<open>The visits do not interfere: the outcome for a slot is its own visit's.\<close>

lemma fold_visit_slots:
  assumes "slots_ok m" and "distinct is" and "load_full m i = Some p" and "mg_heap m p = Some e"
  shows "load_full (fold (visit_slot env clk matches frame) is m) i =
      (if i \<in> set is \<and> \<not> fst (dispatch_entry env (clk i) matches frame e) then None else Some p) \<and>
    mg_heap (fold (visit_slot env clk matches frame) is m) p =
      Some (if i \<in> set is then snd (dispatch_entry env (clk i) matches frame e) else e)"
  using assms
proof (induction "is" arbitrary: m e rule: rev_induct)
  case (snoc j "is")
  let ?m = "fold (visit_slot env clk matches frame) is m"
  have ok: "slots_ok (fold (visit_slot env clk matches frame) xs m)" for xs
    using snoc.prems(1) by (induction xs rule: rev_induct) (simp_all add: slots_ok_visit)
  have IH: "load_full ?m i = (if i \<in> set is \<and> \<not> fst (dispatch_entry env (clk i) matches frame e) then None else Some p)"
      "mg_heap ?m p = Some (if i \<in> set is then snd (dispatch_entry env (clk i) matches frame e) else e)"
    using snoc.IH [OF snoc.prems(1) _ snoc.prems(3,4)] snoc.prems(2) by auto
  show ?case
  proof (cases "load_full ?m j")
    case None
    with IH snoc.prems(2) show ?thesis
      by (auto simp: visit_empty_slot split: if_splits)
  next
    case (Some q)
    obtain d where d: "mg_heap ?m q = Some d" "mc_slot_index d = j"
      by (rule slots_okD [OF ok Some])
    note v = load_visit_slot [OF Some d(1), of env clk matches frame]
    show ?thesis
    proof (cases "j = i")
      case True
      then have "i \<notin> set is"
        using snoc.prems(2) by auto
      with IH Some d True v show ?thesis by auto
    next
      case False
      have "q \<noteq> p"
      proof
        assume "q = p"
        with d IH(2) have "mc_slot_index e = j"
          by (auto split: if_splits)
        moreover obtain d0 where "mg_heap m p = Some d0" "mc_slot_index d0 = i"
          by (rule slots_okD [OF snoc.prems(1,3)])
        moreover note snoc.prems(4)
        ultimately show False using False by simp
      qed
      with IH False v show ?thesis by simp
    qed
  qed
qed simp

lemma dispatch_with_slot:
  assumes "mgr_inv env m" and "encode = Ok frame" and "load_full m i = Some p" and "mg_heap m p = Some e"
    and "m' = fst (dispatch_with env clk clk_us start finish matches encode (m, metrics))"
  shows "load_full m' i = (if fst (dispatch_entry env (clk i) matches frame e) then Some p else None) \<and>
    mg_heap m' p = Some (snd (dispatch_entry env (clk i) matches frame e))"
proof -
  note ok = mgr_inv_slots_ok [OF assms(1)]
  have "i < MAX_CONNECTION_SLOTS"
    using load_full_range [OF assms(3)] mgr_inv_conjuncts(1) [OF assms(1)] by simp
  moreover have "m' = fold (visit_slot env clk matches frame) [0..<MAX_CONNECTION_SLOTS] m"
    using dispatch_slots_fold [OF _ assms(2), of "(m, metrics)" None] ok
    by (simp add: assms(5) dispatch_with_def split_beta)
  ultimately show ?thesis
    using fold_visit_slots [OF ok _ assms(3,4), of "[0..<MAX_CONNECTION_SLOTS]" env clk matches frame] by simp
qed


text \<open>A connection that is in no slot any more is out of reach of the dispatcher.\<close>

lemma fold_visit_removed:
  assumes "slots_ok m" and "mg_heap m p = Some e" and "load_full m (mc_slot_index e) \<noteq> Some p"
  shows "mg_heap (fold (visit_slot env clk matches frame) is m) p = Some e \<and>
    load_full (fold (visit_slot env clk matches frame) is m) (mc_slot_index e) \<noteq> Some p"
  using assms
proof (induction "is" arbitrary: m)
  case (Cons j "is")
  have "mg_heap (visit_slot env clk matches frame j m) p = Some e \<and>
      load_full (visit_slot env clk matches frame j m) (mc_slot_index e) \<noteq> Some p"
  proof (cases "load_full m j")
    case (Some q)
    obtain d where d: "mg_heap m q = Some d" "mc_slot_index d = j"
      by (rule slots_okD [OF Cons.prems(1) Some])
    then have "q \<noteq> p"
      using Cons.prems(2,3) Some by auto
    with Cons.prems(2,3) show ?thesis
      by (simp add: load_visit_slot [OF Some d(1)])
  qed (use Cons.prems in \<open>simp add: visit_empty_slot\<close>)
  with Cons.IH [OF slots_ok_visit [OF Cons.prems(1)]] show ?case by simp
qed simp

lemma dispatch_with_removed:
  assumes "mgr_inv env m" and "encode = Ok frame" and "mg_heap m p = Some e" and "load_full m (mc_slot_index e) \<noteq> Some p"
    and "m' = fst (dispatch_with env clk clk_us start finish matches encode (m, metrics))"
  shows "mg_heap m' p = Some e \<and> load_full m' (mc_slot_index e) \<noteq> Some p"
proof -
  note ok = mgr_inv_slots_ok [OF assms(1)]
  have "m' = fold (visit_slot env clk matches frame) [0..<MAX_CONNECTION_SLOTS] m"
    using dispatch_slots_fold [OF _ assms(2), of "(m, metrics)" None] ok
    by (simp add: assms(5) dispatch_with_def split_beta)
  then show ?thesis
    using fold_visit_removed [OF ok assms(3,4)] by blast
qed


section \<open>What the connections receive\<close>

text \<open>
  The outcome of a dispatch for the connection at \<open>p\<close> in slot \<open>i\<close> whose ring held \<open>items\<close>: a stale
  connection is closed and removed; one that does not match is left alone; one with room gets the
  frame behind what it had, and a wakeup; one without room is closed and removed.
\<close>

definition closed_items :: "('q, 'k) slot_sink \<Rightarrow> ring_item list \<Rightarrow> ring_item list" where
  "closed_items sink items = (if used items + 4 \<le> rp_capacity (sk_ring sink) then items @ [CloseMark] else items)"

lemma closed_items_cong:
  "closed_items (sink\<lparr>sk_ring := (sk_ring sink)\<lparr>rp_dropped_frames := d\<rparr>, sk_region := q\<rparr>) = closed_items sink"
  by (simp add: closed_items_def fun_eq_iff)

definition dispatch_outcome ::
  "('q, 'k, 'b) sender_env \<Rightarrow> u64 \<Rightarrow> ('b subscription_filter \<Rightarrow> bool) \<Rightarrow> outbound_frame \<Rightarrow>
     nat \<Rightarrow> ptr \<Rightarrow> ('q, 'k, 'b) managed_connection \<Rightarrow> ring_item list \<Rightarrow> ('q, 'k, 'b) connection_manager \<Rightarrow> bool" where
  "dispatch_outcome env now matches frame i p e items m' \<longleftrightarrow>
     (\<exists>e'. mg_heap m' p = Some e' \<and> mc_filter e' = mc_filter e \<and> mc_connection_id e' = mc_connection_id e \<and>
       mc_slot_index e' = mc_slot_index e \<and>
       (if is_stale now e then
          load_full m' i = None \<and> sink_rep (se_shaq env) (mc_sink e') (closed_items (mc_sink e) items) \<and>
          0 < ek_count (se_efd env) (sk_wakeup (mc_sink e'))
        else if \<not> matches (mc_filter e) then load_full m' i = Some p \<and> e' = e
        else if sink_fits (mc_sink e) items frame then
          load_full m' i = Some p \<and> sink_rep (se_shaq env) (mc_sink e') (items @ [Frame (frame_body frame)]) \<and>
          0 < ek_count (se_efd env) (sk_wakeup (mc_sink e'))
        else
          load_full m' i = None \<and> sink_rep (se_shaq env) (mc_sink e') (closed_items (mc_sink e) items) \<and>
          0 < ek_count (se_efd env) (sk_wakeup (mc_sink e'))))"

lemma dispatch_entry_outcome:
  assumes "sender_env_ok env" and "valid_frame frame" and "sink_rep (se_shaq env) (mc_sink e) items"
    and "load_full m' i = (if fst (dispatch_entry env now matches frame e) then Some p else None)"
    and "mg_heap m' p = Some (snd (dispatch_entry env now matches frame e))"
  shows "dispatch_outcome env now matches frame i p e items m'"
proof -
  have ek: "efd_ok (se_efd env)"
    using assms(1) by (simp add: sender_env_ok_def)
  note close = sink_close_rep(1,3) [OF _ ek, of "se_shaq env", folded closed_items_def]
  consider "is_stale now e" | "\<not> is_stale now e" "\<not> matches (mc_filter e)"
    | "\<not> is_stale now e" "matches (mc_filter e)" "sink_fits (mc_sink e) items frame"
    | "\<not> is_stale now e" "matches (mc_filter e)" "\<not> sink_fits (mc_sink e) items frame"
    by blast
  then show ?thesis
  proof cases
    case 1
    with close [OF assms(3)] assms(4,5) show ?thesis
      by (simp add: dispatch_outcome_def dispatch_entry_def) (simp add: close_connection_def)
  next
    case 2
    with assms(4,5) show ?thesis
      by (simp add: dispatch_outcome_def dispatch_entry_def)
  next
    case 3
    obtain sink where "sink_try_push (se_shaq env) (se_efd env) (mc_sink e) frame = (Inr (), sink)"
        "sink_rep (se_shaq env) sink (items @ [Frame (frame_body frame)])" "0 < ek_count (se_efd env) (sk_wakeup sink)"
      by (rule sink_try_push_fits [OF assms(3) ek assms(2) 3(3)])
    with 3 assms(4,5) show ?thesis
      by (simp add: dispatch_outcome_def dispatch_entry_def)
  next
    case 4
    obtain d q where push: "sink_try_push (se_shaq env) (se_efd env) (mc_sink e) frame =
          (Inl frame, (mc_sink e)\<lparr>sk_ring := (sk_ring (mc_sink e))\<lparr>rp_dropped_frames := d\<rparr>, sk_region := q\<rparr>)"
        and rep: "sink_rep (se_shaq env) ((mc_sink e)\<lparr>sk_ring := (sk_ring (mc_sink e))\<lparr>rp_dropped_frames := d\<rparr>, sk_region := q\<rparr>) items"
      by (rule sink_try_push_refused [OF assms(3) 4(3), of "se_efd env"])
    from close [OF rep] push 4 assms(4,5) show ?thesis
      by (simp add: dispatch_outcome_def dispatch_entry_def closed_items_cong) (simp add: close_connection_def)
  qed
qed

lemma dispatch_with_outcome:
  assumes "sender_env_ok env" and "mgr_inv env m" and "encode = Ok frame" and "valid_frame frame"
    and "load_full m i = Some p" and "mg_heap m p = Some e" and "sink_rep (se_shaq env) (mc_sink e) items"
  shows "dispatch_outcome env (clk i) matches frame i p e items
    (fst (dispatch_with env clk clk_us start finish matches encode (m, metrics)))"
  using dispatch_entry_outcome [OF assms(1,4,7)] dispatch_with_slot [OF assms(2,3,5,6) refl] by blast

lemma dispatch_with_empty:
  assumes "sender_env_ok env" and "mgr_inv env m" and "encode = Ok frame" and "valid_frame frame"
    and "load_full m i = None"
  shows "load_full (fst (dispatch_with env clk clk_us start finish matches encode (m, metrics))) i = None"
proof -
  have "\<forall>f. encode = Ok f \<longrightarrow> valid_frame f"
    using assms(3,4) by simp
  from quiet_dispatch_with [OF assms(1,2) this] assms(5) show ?thesis
    unfolding quiet_def by metis
qed

text \<open>The whole pass, for all slots.\<close>

definition dispatch_spec ::
  "('q, 'k, 'b) sender_env \<Rightarrow> (nat \<Rightarrow> u64) \<Rightarrow> ('b subscription_filter \<Rightarrow> bool) \<Rightarrow> outbound_frame \<Rightarrow>
     ('q, 'k, 'b) connection_manager \<Rightarrow> ('q, 'k, 'b) connection_manager \<Rightarrow> bool" where
  "dispatch_spec env clk matches frame m m' \<longleftrightarrow>
     (\<forall>i. load_full m i = None \<longrightarrow> load_full m' i = None) \<and>
     (\<forall>i p e items. load_full m i = Some p \<longrightarrow> mg_heap m p = Some e \<longrightarrow>
        sink_rep (se_shaq env) (mc_sink e) items \<longrightarrow> dispatch_outcome env (clk i) matches frame i p e items m')"

lemma dispatch_with_spec:
  assumes "sender_env_ok env" and "mgr_inv env m" and "encode = Ok frame" and "valid_frame frame"
  shows "dispatch_spec env clk matches frame m
    (fst (dispatch_with env clk clk_us start finish matches encode (m, metrics)))"
  unfolding dispatch_spec_def
  using dispatch_with_outcome [OF assms] dispatch_with_empty [OF assms] by blast


section \<open>Counters\<close>

definition push_result ::
  "('q, 'k, 'b) sender_env \<Rightarrow> (nat \<Rightarrow> u64) \<Rightarrow> ('b subscription_filter \<Rightarrow> bool) \<Rightarrow> outbound_frame \<Rightarrow>
     ('q, 'k, 'b) connection_manager \<Rightarrow> nat \<Rightarrow> (outbound_frame + unit) option" where
  "push_result env clk matches frame m i =
     (case connection_at m i of
        None \<Rightarrow> None
      | Some e \<Rightarrow>
          if \<not> is_stale (clk i) e \<and> matches (mc_filter e)
          then Some (fst (sink_try_push (se_shaq env) (se_efd env) (mc_sink e) frame)) else None)"

definition delivered where
  "delivered env clk matches frame m i \<longleftrightarrow> push_result env clk matches frame m i = Some (Inr ())"

definition evicted where
  "evicted env clk matches frame m i \<longleftrightarrow> (\<exists>f. push_result env clk matches frame m i = Some (Inl f))"

lemma push_result_visit_other:
  assumes "slots_ok m" and "j \<noteq> i"
  shows "push_result env clk matches frame (visit_slot env clk matches frame i m) j =
    push_result env clk matches frame m j"
proof (cases "load_full m i")
  case (Some p)
  obtain e where e: "mg_heap m p = Some e"
    by (rule slots_okD [OF assms(1) Some])
  have "q \<noteq> p" if "load_full m j = Some q" for q
    using slots_ok_inj [OF assms(1) Some, of j] that assms(2) by auto
  then have "connection_at (visit_slot env clk matches frame i m) j = connection_at m j"
    using assms(2) by (auto simp: connection_at_def load_visit_slot [OF Some e] split: option.splits)
  then show ?thesis
    by (simp add: push_result_def)
qed (simp add: visit_empty_slot)

lemma push_to_entry_metrics:
  assumes "load_full m i = Some p" and "mg_heap m p = Some e" and "\<not> is_stale (clk i) e"
    and "matches (mc_filter e)"
  shows "la_count (sm_shm_send (snd (push_to_entry env now_us p frame (m, mt)))) =
      la_count (sm_shm_send mt) + of_bool (delivered env clk matches frame m i) \<and>
    ca_value (sm_shm_ring_full (snd (push_to_entry env now_us p frame (m, mt)))) =
      ca_value (sm_shm_ring_full mt) + of_bool (evicted env clk matches frame m i) \<and>
    sm_dispatch (snd (push_to_entry env now_us p frame (m, mt))) = sm_dispatch mt"
proof -
  obtain r sink where push: "sink_try_push (se_shaq env) (se_efd env) (mc_sink e) frame = (r, sink)"
    by force
  then have r: "push_result env clk matches frame m i = Some r"
    using assms by (simp add: push_result_def connection_at_def)
  show ?thesis
    using assms push r
    by (cases r) (simp_all add: push_to_entry_def delivered_def evicted_def latency_record_def counter_inc_def)
qed

lemma not_pushed:
  assumes "push_result env clk matches frame m i = None"
  shows "\<not> delivered env clk matches frame m i" and "\<not> evicted env clk matches frame m i"
  using assms by (simp_all add: delivered_def evicted_def)

lemma dispatch_slots_metrics:
  assumes "slots_ok m" and "distinct is" and "encode = Ok frame" and "shared = None \<or> shared = Some frame"
    and "mt' = snd (dispatch_slots env clk clk_us matches encode is shared (m, mt))"
  shows "la_count (sm_shm_send mt') =
      la_count (sm_shm_send mt) + of_nat (length (filter (delivered env clk matches frame m) is)) \<and>
    ca_value (sm_shm_ring_full mt') =
      ca_value (sm_shm_ring_full mt) + of_nat (length (filter (evicted env clk matches frame m) is)) \<and>
    sm_dispatch mt' = sm_dispatch mt"
  using assms
proof (induction "is" arbitrary: m mt shared)
  case (Cons i "is")
  have i: "i \<notin> set is" and dist: "distinct is"
    using Cons.prems(2) by auto
  let ?v = "visit_slot env clk matches frame i m"
  have pr: "push_result env clk matches frame ?v j = push_result env clk matches frame m j" if "j \<in> set is" for j
    using that i by (intro push_result_visit_other [OF Cons.prems(1)]) auto
  have same: "filter (delivered env clk matches frame ?v) is = filter (delivered env clk matches frame m) is"
      "filter (evicted env clk matches frame ?v) is = filter (evicted env clk matches frame m) is"
    by (auto simp: delivered_def evicted_def pr intro!: filter_cong)
  note IH = Cons.IH [OF _ dist Cons.prems(3)]
  note ok = slots_ok_visit [OF Cons.prems(1), of env clk matches frame i]
  show ?case
  proof (cases "load_full m i")
    case None
    then have "push_result env clk matches frame m i = None"
      by (simp add: push_result_def connection_at_def)
    from not_pushed [OF this] IH [OF Cons.prems(1,4)] None Cons.prems(5) show ?thesis by simp
  next
    case (Some p)
    obtain e where e: "mg_heap m p = Some e" "mc_slot_index e = i"
      by (rule slots_okD [OF Cons.prems(1) Some])
    note stale = stale_visit [OF Some e(1), of env clk matches frame]
    show ?thesis
    proof (cases "is_stale (clk i) e \<or> \<not> matches (mc_filter e)")
      case True
      then have none: "push_result env clk matches frame m i = None"
        using Some e by (simp add: push_result_def connection_at_def)
      have "?v = m" if "\<not> is_stale (clk i) e"
        using Some e True that by (simp add: visit_slot_def dispatch_entry_def set_connection_same)
      then have "mt' = snd (dispatch_slots env clk clk_us matches encode is shared (?v, mt))"
        using Cons.prems(5) Some stale e(1) True by (cases "is_stale (clk i) e") simp_all
      from not_pushed [OF none] IH [OF ok Cons.prems(4) this] same show ?thesis by simp
    next
      case False
      then have live: "\<not> is_stale (clk i) e" "matches (mc_filter e)"
        by simp_all
      let ?s = "push_to_entry env (clk_us i) p frame (m, mt)"
      have "fst ?s = ?v"
        by (rule push_to_entry_visit [where clk = clk and matches = matches, OF Some e live])
      then have s: "?s = (?v, snd ?s)"
        by (metis prod.collapse)
      have "(case shared of Some frame \<Rightarrow> Ok frame | None \<Rightarrow> encode) = Ok frame"
        using Cons.prems(3,4) by auto
      then have "mt' = snd (dispatch_slots env clk clk_us matches encode is (Some frame) ?s)"
        using Cons.prems(5) Some stale live e(1) by simp
      then have "mt' = snd (dispatch_slots env clk clk_us matches encode is (Some frame) (?v, snd ?s))"
        using s by simp
      from IH [OF ok _ this] same push_to_entry_metrics [where clk = clk and matches = matches, OF Some e(1) live, of env "clk_us i" frame mt]
      show ?thesis by (cases "delivered env clk matches frame m i"; cases "evicted env clk matches frame m i") simp_all
    qed
  qed
qed simp


section \<open>Properties of dispatch\<close>

text \<open>
  C9: a dispatched account update reaches exactly the consumers it should. For every slot of any state
  that satisfies the invariant: a stale connection is closed and removed, a connection whose filter
  does not match is untouched, a matching one with room gets the encoded frame behind the frames it
  had and a pending wakeup, and a matching one without room is closed and removed. No connection's
  outcome depends on another's.
\<close>

theorem dispatch_account_update_spec:
  assumes "sender_env_ok env" and "mgr_inv env m" and "wf_account_update u"
  shows "\<exists>frame. encode_account_frame env instant nanos u = Ok frame \<and>
    dispatch_spec env clk (\<lambda>f. matches_account (se_bloom env) f u) frame m
      (fst (dispatch_account_update env clk clk_us t1 t2 instant nanos u (m, metrics)))"
proof -
  obtain h p where "account_encode_parts_at (se_lz4 env) u nanos = Ok (h, p)"
    using account_codec.encode_total [OF assms(3)] by blast
  then obtain frame where f: "encode_account_frame env instant nanos u = Ok frame"
    by (simp add: encode_account_frame_def)
  with dispatch_with_spec [OF assms(1,2) f valid_account_frame [OF assms(3) f]] show ?thesis
    by (simp add: dispatch_account_update_def)
qed

lemma sample_update_wf: "wf_account_update (sample_update k owner)"
  by (simp add: wf_account_update_def sample_update_def wf_pubkey_def key_of_def const_defs)

lemma sample_frame_length:
  assumes "encode_account_frame env instant nanos (sample_update k owner) = Ok frame"
  shows "length (frame_body frame) \<le> 119"
proof -
  obtain h p where e: "account_encode_parts_at (se_lz4 env) (sample_update k owner) nanos = Ok (h, p)"
      and "frame_body frame = h @ p"
    using assms by (auto simp: encode_account_frame_def bindR_eq_Ok)
  moreover have "length h = 116"
    by (rule account_encode_Ok [OF e])
      (use sample_update_wf in \<open>simp add: length_account_header wf_account_update_def const_defs\<close>)
  moreover have "length p \<le> 3"
    by (rule account_encode_Ok [OF e]) (simp add: sample_update_def)
  ultimately show ?thesis by simp
qed

lemma sample_connection_matches:
  "matches_account (se_bloom sample_env) (mc_filter sample_connection) (sample_update 1 99)"
  using subscription.first_account [OF first_byte_bloom_ok, of sample_request]
  by (simp add: sample_connection_def sample_env_def wants_account_def sample_request_def subscription_new_def sample_update_def)

lemma sample_slot:
  "load_full sample_manager 0 = Some 0" "mg_heap sample_manager 0 = Some sample_connection"
  "sink_rep (se_shaq sample_env) (mc_sink sample_connection) []"
  by (simp_all add: sample_manager_def load_full_def sample_connection_def sink_rep_def ring_rep_def sample_env_def
      list_shaq_ok) (simp add: list_shaq_def)

theorem dispatch_account_update_spec_witness:
  "\<exists>frame e'. encode_account_frame sample_env 7 8 (sample_update 1 99) = Ok frame \<and>
     mg_heap (fst (dispatch_account_update sample_env (\<lambda>_. 2000) (\<lambda>_. 9) 7 9 7 8 (sample_update 1 99)
       (sample_manager, sender_metrics_new))) 0 = Some e' \<and>
     sink_rep list_shaq (mc_sink e') [Frame (frame_body frame)] \<and> 0 < ek_count nat_efd (sk_wakeup (mc_sink e'))"
proof -
  obtain frame where f: "encode_account_frame sample_env 7 8 (sample_update 1 99) = Ok frame"
      and spec: "dispatch_spec sample_env (\<lambda>_. 2000) (\<lambda>f. matches_account (se_bloom sample_env) f (sample_update 1 99))
        frame sample_manager (fst (dispatch_account_update sample_env (\<lambda>_. 2000) (\<lambda>_. 9) 7 9 7 8 (sample_update 1 99)
          (sample_manager, sender_metrics_new)))"
    using dispatch_account_update_spec [OF sample_env_ok sample_inv sample_update_wf] by blast
  have "\<not> is_stale 2000 sample_connection"
    by (simp add: is_stale_def sat_sub_def sample_connection_def const_defs)
  moreover have "sink_fits (mc_sink sample_connection) [] frame"
    using sample_frame_length [OF f] by (simp add: sample_connection_def)
  ultimately show ?thesis
    using spec sample_slot sample_connection_matches f
    unfolding dispatch_spec_def dispatch_outcome_def by (fastforce simp: sample_env_def)
qed

text \<open>
  C27: transactions go to exactly the live connections that asked for transactions, and slot updates
  to all live connections, with the same outcomes.
\<close>

theorem dispatch_stream_updates_spec:
  assumes "sender_env_ok env" and "mgr_inv env m" and "wf_transaction_update u"
  shows "(\<exists>frame. encode_transaction_frame instant nanos u = Ok frame \<and>
      dispatch_spec env clk matches_transaction frame m
        (fst (dispatch_transaction_update env clk clk_us t1 t2 instant nanos u (m, metrics)))) \<and>
    (\<exists>frame. encode_slot_frame instant nanos v = Ok frame \<and>
      dispatch_spec env clk (\<lambda>_. True) frame m
        (fst (dispatch_slot_update env clk clk_us t1 t2 instant nanos v (m, metrics))))"
proof -
  obtain h p where "transaction_encode_parts_at u nanos = Ok (h, p)"
    using transaction_codec.encode_total [OF assms(3)] by blast
  then obtain ft where ft: "encode_transaction_frame instant nanos u = Ok ft"
    by (simp add: encode_transaction_frame_def)
  obtain fs where fs: "encode_slot_frame instant nanos v = Ok fs"
    using slot_codec.encode_total [of v nanos] by (auto simp: encode_slot_frame_def)
  from ft fs dispatch_with_spec [OF assms(1,2) ft valid_transaction_frame [OF assms(3) ft]]
    dispatch_with_spec [OF assms(1,2) fs valid_slot_frame [OF fs]] show ?thesis
    by (simp add: dispatch_transaction_update_def dispatch_slot_update_def)
qed

definition sample_transaction :: transaction_update where
  "sample_transaction = \<lparr>tu_slot = 4, tu_index = 1, tu_signature = replicate 64 3, tu_is_vote = False,
     tu_payload = TransactionPayload [1, 2]\<rparr>"

theorem dispatch_stream_updates_spec_witness:
  "load_full (fst (dispatch_transaction_update sample_env (\<lambda>_. 2000) (\<lambda>_. 9) 7 9 7 8 sample_transaction
      (sample_manager, sender_metrics_new))) 0 = Some 0"
proof -
  have "wf_transaction_update sample_transaction"
    by (simp add: wf_transaction_update_def sample_transaction_def const_defs)
  from dispatch_stream_updates_spec [OF sample_env_ok sample_inv this] obtain frame where
    "dispatch_spec sample_env (\<lambda>_. 2000) matches_transaction frame sample_manager
      (fst (dispatch_transaction_update sample_env (\<lambda>_. 2000) (\<lambda>_. 9) 7 9 7 8 sample_transaction
        (sample_manager, sender_metrics_new)))"
    by blast
  moreover have "\<not> is_stale 2000 sample_connection" "\<not> matches_transaction (mc_filter sample_connection)"
    by (simp_all add: matches_transaction_def is_stale_def sat_sub_def sample_connection_def const_defs filter_from_request_def
        sample_request_def subscription_new_def)
  ultimately show ?thesis
    using sample_slot unfolding dispatch_spec_def dispatch_outcome_def by fastforce
qed

text \<open>
  The sender's counters count what happened: a pass adds one to the dispatch samples, one
  send sample per delivered frame, and one to the ring-full counter per consumer removed because
  its ring refused the frame.
\<close>

theorem dispatch_counts:
  assumes "mgr_inv env m" and "encode = Ok frame"
    and "dispatch_with env clk clk_us start finish matches encode (m, mt) = (m', mt')"
  shows "la_count (sm_dispatch mt') = la_count (sm_dispatch mt) + 1 \<and>
    la_count (sm_shm_send mt') = la_count (sm_shm_send mt) +
      of_nat (length (filter (delivered env clk matches frame m) [0..<MAX_CONNECTION_SLOTS])) \<and>
    ca_value (sm_shm_ring_full mt') = ca_value (sm_shm_ring_full mt) +
      of_nat (length (filter (evicted env clk matches frame m) [0..<MAX_CONNECTION_SLOTS]))"
proof -
  let ?mt = "snd (dispatch_slots env clk clk_us matches encode [0..<MAX_CONNECTION_SLOTS] None (m, mt))"
  have "mt' = ?mt\<lparr>sm_dispatch := latency_record (sm_dispatch ?mt) (finish - start)\<rparr>"
    using assms(3) by (auto simp: dispatch_with_def split_beta)
  with dispatch_slots_metrics [OF mgr_inv_slots_ok [OF assms(1)] _ assms(2) _ refl, of "[0..<MAX_CONNECTION_SLOTS]" None]
  show ?thesis
    by (simp add: latency_record_def)
qed

theorem dispatch_counts_witness:
  "ca_value (sm_shm_ring_full (snd (dispatch_with sample_env (\<lambda>_. 2000) (\<lambda>_. 9) 7 9 (\<lambda>_. True)
      (Ok \<lparr>of_header = replicate 300 0, of_payload = [], of_frame_start = 7\<rparr>) (sample_manager, sender_metrics_new)))) = 1"
proof -
  let ?f = "\<lparr>of_header = replicate 300 0, of_payload = [], of_frame_start = 7\<rparr>"
  obtain m' mt' where d: "dispatch_with sample_env (\<lambda>_. 2000) (\<lambda>_. 9) 7 9 (\<lambda>_. True) (Ok ?f)
      (sample_manager, sender_metrics_new) = (m', mt')"
    by force
  have at: "connection_at sample_manager i = (if i = 0 then Some sample_connection else None)" for i
    by (auto simp: connection_at_def load_full_def sample_manager_def nth_Cons split: nat.splits)
  have "\<exists>s. sink_try_push (se_shaq sample_env) (se_efd sample_env) (mc_sink sample_connection) ?f = (Inl ?f, s)"
    by (rule sink_try_push_refused [OF sample_slot(3), of ?f "se_efd sample_env"]) (auto simp: sample_connection_def)
  then have "evicted sample_env (\<lambda>_. 2000) (\<lambda>_. True) ?f sample_manager i \<longleftrightarrow> i = 0" for i
    by (auto simp: evicted_def push_result_def at is_stale_def sat_sub_def sample_connection_def const_defs)
  then have "filter (evicted sample_env (\<lambda>_. 2000) (\<lambda>_. True) ?f sample_manager) [0..<MAX_CONNECTION_SLOTS] = [0]"
    by (simp add: const_defs upt_rec)
  with dispatch_counts [OF sample_inv refl d] d show ?thesis
    by (simp add: sender_metrics_new_def counter_default_def)
qed

end
