(* ===== verification/Framing.thy ===== *)
theory Framing
  imports Errors
begin

text \<open>
  Length-prefixed framing over a byte stream, \<open>src/wire.rs\<close>. An input stream is what the peer will
  deliver and the error that the next read returns once that is used up (\<open>UnexpectedEof\<close> when the
  peer closes). An output stream collects what was written, or fails every write when the peer is
  gone. The functions are awaited to completion, so a suspended read is not visible.
\<close>

record in_stream =
  is_bytes :: bytes
  is_end :: io_error

record out_stream =
  os_bytes :: bytes
  os_fail :: "io_error option"

definition MAX_FRAME_SIZE :: nat where [const_defs]: "MAX_FRAME_SIZE = 16 * 1024 * 1024"

text \<open>\<open>AsyncReadExt::read_exact\<close> and \<open>AsyncWriteExt::write_all\<close>.\<close>

definition read_exact :: "in_stream \<Rightarrow> nat \<Rightarrow> (bytes \<times> in_stream) qresult" where
  "read_exact s n =
     (if length (is_bytes s) < n then Err (Io (is_end s))
      else Ok (take n (is_bytes s), s\<lparr>is_bytes := drop n (is_bytes s)\<rparr>))"

definition write_all :: "out_stream \<Rightarrow> bytes \<Rightarrow> out_stream qresult" where
  "write_all s bs =
     (case os_fail s of Some e \<Rightarrow> Err (Io e) | None \<Rightarrow> Ok (s\<lparr>os_bytes := os_bytes s @ bs\<rparr>))"

definition read_framed :: "in_stream \<Rightarrow> (bytes \<times> in_stream) qresult" where
  "read_framed s =
     bindR (read_exact s 4) (\<lambda>(len, s).
       let size = unat (u32_from_le len) in
       if size > MAX_FRAME_SIZE then Err (FrameTooLarge size) else read_exact s size)"

definition write_framed :: "out_stream \<Rightarrow> bytes \<Rightarrow> out_stream qresult" where
  "write_framed s payload =
     bindR (ok_or (FrameTooLarge (length payload)) (u32_try_from (length payload))) (\<lambda>size.
     bindR (write_all s (u32_to_le size)) (\<lambda>s. write_all s payload))"

text \<open>The bytes of one frame.\<close>

definition framed :: "bytes \<Rightarrow> bytes" where
  "framed payload = u32_to_le (of_nat (length payload)) @ payload"

lemma length_framed [simp, layout_simps]: "length (framed p) = 4 + length p"
  by (simp add: framed_def)

lemma write_framed_eq:
  "length payload < 2 ^ 32 \<Longrightarrow> os_fail s = None \<Longrightarrow>
     write_framed s payload = Ok (s\<lparr>os_bytes := os_bytes s @ framed payload\<rparr>)"
  by (simp add: write_framed_def u32_try_from_def write_all_def framed_def)

lemma read_framed_eq:
  assumes "is_bytes s = framed payload @ rest" and "length payload \<le> MAX_FRAME_SIZE"
  shows "read_framed s = Ok (payload, s\<lparr>is_bytes := rest\<rparr>)"
  using assms by (simp add: read_framed_def read_exact_def framed_def MAX_FRAME_SIZE_def)

lemma read_framed_Ok:
  assumes "read_framed s = Ok (payload, s')"
  shows "is_bytes s = framed payload @ is_bytes s'" and "length payload \<le> MAX_FRAME_SIZE"
    and "is_end s' = is_end s"
proof -
  let ?b = "is_bytes s"
  let ?n = "unat (u32_from_le (take 4 ?b))"
  have len: "4 \<le> length ?b" "?n \<le> MAX_FRAME_SIZE" "4 + ?n \<le> length ?b"
    and p: "payload = take ?n (drop 4 ?b)" and s': "s' = s\<lparr>is_bytes := drop (4 + ?n) ?b\<rparr>"
    using assms by (auto simp: read_framed_def read_exact_def bindR_eq_Ok Let_def add.commute
        split: if_splits)
  have l: "length payload = ?n"
    using len p by simp
  have "framed payload = take 4 ?b @ payload"
    using len(1) by (simp add: framed_def l u32_to_from_le)
  moreover have "?b = take 4 ?b @ take ?n (drop 4 ?b) @ drop ?n (drop 4 ?b)"
    by (simp only: append_take_drop_id)
  ultimately show "?b = framed payload @ is_bytes s'"
    using p s' by (simp add: add.commute)
  show "length payload \<le> MAX_FRAME_SIZE" and "is_end s' = is_end s"
    using len l s' by simp_all
qed

lemma read_framed_shrinks:
  "read_framed s = Ok (payload, s') \<Longrightarrow> length (is_bytes s') < length (is_bytes s)"
  using read_framed_Ok(1) [of s payload s'] by simp

lemma read_framed_no_panic [simp]: "read_framed s \<noteq> Panic"
  by (auto simp: read_framed_def read_exact_def bindR_eq_Panic Let_def split: if_splits)

lemma write_framed_no_panic [simp]: "write_framed s p \<noteq> Panic"
  by (auto simp: write_framed_def write_all_def bindR_eq_Panic split: option.splits)

text \<open>Writing a sequence of frames and reading it back.\<close>

fun write_all_framed :: "out_stream \<Rightarrow> bytes list \<Rightarrow> out_stream qresult" where
  "write_all_framed s [] = Ok s"
| "write_all_framed s (p # ps) = bindR (write_framed s p) (\<lambda>s. write_all_framed s ps)"

fun read_n_framed :: "nat \<Rightarrow> in_stream \<Rightarrow> (bytes list \<times> in_stream) qresult" where
  "read_n_framed 0 s = Ok ([], s)"
| "read_n_framed (Suc n) s =
     bindR (read_framed s) (\<lambda>(p, s). bindR (read_n_framed n s) (\<lambda>(ps, s). Ok (p # ps, s)))"

lemma write_all_framed_eq:
  "\<forall>p\<in>set ps. length p < 2 ^ 32 \<Longrightarrow> os_fail s = None \<Longrightarrow>
     write_all_framed s ps = Ok (s\<lparr>os_bytes := os_bytes s @ concat (map framed ps)\<rparr>)"
  by (induction ps arbitrary: s) (simp_all add: write_framed_eq)

lemma read_n_framed_eq:
  "\<forall>p\<in>set ps. length p \<le> MAX_FRAME_SIZE \<Longrightarrow> is_bytes s = concat (map framed ps) @ rest \<Longrightarrow>
     read_n_framed (length ps) s = Ok (ps, s\<lparr>is_bytes := rest\<rparr>)"
proof (induction ps arbitrary: s)
  case (Cons p ps)
  then have "read_framed s = Ok (p, s\<lparr>is_bytes := concat (map framed ps) @ rest\<rparr>)"
    by (intro read_framed_eq) simp_all
  with Cons show ?case by simp
qed simp

text \<open>
  C20: Framing round trip. Any sequence of payloads, empty ones included, each of at most
  \<open>MAX_FRAME_SIZE\<close> bytes, written with \<open>write_framed\<close> to a connected stream, is read back by the
  same number of \<open>read_framed\<close> calls, in order, with whatever follows left unread.
\<close>

theorem framed_sequence_roundtrip:
  assumes "\<forall>p\<in>set ps. length p \<le> MAX_FRAME_SIZE"
  shows "\<exists>out. write_all_framed \<lparr>os_bytes = [], os_fail = None\<rparr> ps = Ok out \<and>
    read_n_framed (length ps) \<lparr>is_bytes = os_bytes out @ rest, is_end = e\<rparr> =
      Ok (ps, \<lparr>is_bytes = rest, is_end = e\<rparr>)"
proof -
  have "\<forall>p\<in>set ps. length p < 2 ^ 32"
    using assms by (fastforce simp: MAX_FRAME_SIZE_def)
  then show ?thesis
    using assms by (simp add: write_all_framed_eq read_n_framed_eq)
qed

theorem framed_sequence_roundtrip_witness:
  "\<exists>out. write_all_framed \<lparr>os_bytes = [], os_fail = None\<rparr> [[104, 105], []] = Ok out \<and>
    read_n_framed (length [[104, 105], [] :: bytes])
      \<lparr>is_bytes = os_bytes out @ [7], is_end = UnexpectedEof\<rparr> =
      Ok ([[104, 105], []], \<lparr>is_bytes = [7], is_end = UnexpectedEof\<rparr>)"
  by (rule framed_sequence_roundtrip) (simp add: MAX_FRAME_SIZE_def)

text \<open>
  \<open>read_framed\<close> on every input: it returns the declared number of bytes after the prefix and
  leaves exactly the rest, or reports a frame above 16 MiB without reading its body, or reports
  the stream's end when the prefix or the body is cut short; it never panics.
\<close>

theorem read_framed_cases:
  "read_framed s =
     (let b = is_bytes s; n = unat (u32_from_le (take 4 b)) in
      if length b < 4 then Err (Io (is_end s))
      else if n > 16777216 then Err (FrameTooLarge n)
      else if length b < 4 + n then Err (Io (is_end s))
      else Ok (take n (drop 4 b), s\<lparr>is_bytes := drop (4 + n) b\<rparr>))"
  by (auto simp: read_framed_def read_exact_def MAX_FRAME_SIZE_def Let_def add.commute)

end
