(* ===== verification/Uds.thy ===== *)
theory Uds
  imports Framing "HOL-Library.Multiset"
begin

text \<open>
  Passing a descriptor over the control socket, \<open>src/shm/uds.rs\<close>. A connected socket is the stream of
  bytes from the peer, the stream of bytes to the peer, and the descriptors attached to the latter
  with their offsets. The kernel's answers to \<open>sendmsg(2)\<close> and \<open>recvmsg(2)\<close> are arguments: an error text,
  or what was transferred. \<open>async_io\<close> repeats a call that would block, so the answer is the first
  other one. Descriptors are numbers, and the ones the process closed are returned.
\<close>

definition ANCILLARY_RECV_BUF :: nat where
  [const_defs]: "ANCILLARY_RECV_BUF = 1024"

record uds_stream =
  ud_in :: in_stream
  ud_out :: out_stream
  ud_attached :: "(nat \<times> nat) list"

text \<open>On Linux a no-op; elsewhere the answer of \<open>setsockopt(2)\<close> is the result.\<close>

definition set_nosigpipe :: "bool \<Rightarrow> string option \<Rightarrow> string + unit" where
  "set_nosigpipe linux setsockopt =
     (if linux then Inr () else case setsockopt of Some e \<Rightarrow> Inl e | None \<Rightarrow> Inr ())"

definition sendmsg_with_fd :: "(bytes \<Rightarrow> string + nat) \<Rightarrow> uds_stream \<Rightarrow> bytes \<Rightarrow> nat \<Rightarrow> (string + unit) \<times> uds_stream" where
  "sendmsg_with_fd sendmsg s payload fd =
     (case sendmsg payload of
        Inl e \<Rightarrow> (Inl e, s)
      | Inr n \<Rightarrow>
          (let s' = s\<lparr>ud_out := (ud_out s)\<lparr>os_bytes := os_bytes (ud_out s) @ take n payload\<rparr>,
                      ud_attached := ud_attached s @ [(length (os_bytes (ud_out s)), fd)]\<rparr>
           in if n \<noteq> length payload
              then (Inl (''partial sendmsg: '' @ show_nat n @ '' of '' @ show_nat (length payload) @ '' bytes''), s')
              else (Inr (), s')))"

definition send_frame_with_fd :: "(bytes \<Rightarrow> string + nat) \<Rightarrow> uds_stream \<Rightarrow> bytes \<Rightarrow> nat \<Rightarrow> unit qresult \<times> uds_stream" where
  "send_frame_with_fd sendmsg s payload fd =
     (if length payload > 2 ^ 32 - 1 then (Err (FrameTooLarge (length payload)), s)
      else (let buf = u32_to_le (of_nat (length payload)) @ payload
            in case sendmsg_with_fd sendmsg s buf fd of
              (Inl e, s') \<Rightarrow> (Err (UdsError (''sendmsg: '' @ e)), s')
            | (Inr _, s') \<Rightarrow> (Ok (), s')))"

text \<open>
  A received control message; \<open>SCM_RIGHTS\<close> carries at least one descriptor, and the code reads the
  first. \<open>cloexec\<close> is the answer of \<open>fcntl(F_SETFD)\<close>, which Linux does not call.
\<close>

datatype cmsg = ScmRights nat "nat list" | OtherCmsg

primrec take_fds :: "(nat \<Rightarrow> string option) \<Rightarrow> cmsg list \<Rightarrow> nat option \<Rightarrow> nat list \<Rightarrow> (string + nat option) \<times> nat list" where
  "take_fds cloexec [] out_fd closed = (Inr out_fd, closed)"
| "take_fds cloexec (cmsg # rest) out_fd closed =
     (case cmsg of
        OtherCmsg \<Rightarrow> take_fds cloexec rest out_fd closed
      | ScmRights fd _ \<Rightarrow>
          (case out_fd of
             None \<Rightarrow>
               (case cloexec fd of
                  Some e \<Rightarrow> (Inl e, closed @ [fd])
                | None \<Rightarrow> take_fds cloexec rest (Some fd) closed)
           | Some _ \<Rightarrow> take_fds cloexec rest out_fd (closed @ [fd])))"

definition recvmsg_with_fd ::
  "(nat \<Rightarrow> string option) \<Rightarrow> string + (bytes \<times> cmsg list) \<Rightarrow> (string + (bytes \<times> nat option)) \<times> nat list" where
  "recvmsg_with_fd cloexec answer =
     (case answer of
        Inl e \<Rightarrow> (Inl e, [])
      | Inr (received, cmsgs) \<Rightarrow>
          (case take_fds cloexec cmsgs None [] of
             (Inl e, closed) \<Rightarrow> (Inl e, closed)
           | (Inr out_fd, closed) \<Rightarrow> (Inr (received, out_fd), closed)))"

text \<open>
  \<open>recvmsg n\<close> answers a call with a buffer of \<open>n\<close> bytes. A descriptor received with a frame that is
  then rejected is closed when it goes out of scope.
\<close>

definition recv_frame_with_fd ::
  "(nat \<Rightarrow> string option) \<Rightarrow> (nat \<Rightarrow> string + (bytes \<times> cmsg list)) \<Rightarrow> (bytes \<times> nat option) qresult \<times> nat list" where
  "recv_frame_with_fd cloexec recvmsg =
     (case recvmsg_with_fd cloexec (recvmsg ANCILLARY_RECV_BUF) of
        (Inl e, closed) \<Rightarrow> (Err (UdsError (''recvmsg: '' @ e)), closed)
      | (Inr (received, fd), closed) \<Rightarrow>
          (let n = length received;
               dropped = closed @ (case fd of None \<Rightarrow> [] | Some f \<Rightarrow> [f])
           in if n = 0 then (Err (UdsError ''peer closed UDS before sending ready frame''), dropped)
              else if n < 4 then (Err (UdsError (''short recvmsg ('' @ show_nat n @ '' bytes)'')), dropped)
              else (let payload_len = unat (u32_from_le (take 4 received))
                    in if 4 + payload_len > n
                       then (Err (UdsError (''ancillary frame larger than buffer ('' @ show_nat (4 + payload_len) @
                               '' > '' @ show_nat n @ '')'')), dropped)
                       else (Ok (take payload_len (drop 4 received), fd), closed))))"


section \<open>Sending and receiving\<close>

lemma send_frame_complete:
  assumes "length payload < 2 ^ 32" and "sendmsg (framed payload) = Inr (length (framed payload))"
  shows "send_frame_with_fd sendmsg s payload fd =
    (Ok (), s\<lparr>ud_out := (ud_out s)\<lparr>os_bytes := os_bytes (ud_out s) @ framed payload\<rparr>,
       ud_attached := ud_attached s @ [(length (os_bytes (ud_out s)), fd)]\<rparr>)"
  using assms by (simp add: send_frame_with_fd_def sendmsg_with_fd_def framed_def)

lemma framed_not_Nil [simp]: "framed payload \<noteq> []"
  by (metis add_is_0 length_framed list.size(3) zero_neq_numeral)

lemma take_framed [simp]: "take 4 (framed payload) = u32_to_le (of_nat (length payload))"
  "drop 4 (framed payload) = payload"
  by (simp_all add: framed_def)

lemma recv_frame_complete:
  assumes "recvmsg ANCILLARY_RECV_BUF = Inr (framed payload, [ScmRights fd []])" and "cloexec fd = None"
    and "length payload < 2 ^ 32"
  shows "recv_frame_with_fd cloexec recvmsg = (Ok (payload, Some fd), [])"
  using assms by (simp add: recv_frame_with_fd_def recvmsg_with_fd_def Let_def)

text \<open>The descriptors the process is given, and those that later messages of the same control data carry.\<close>

primrec first_fds :: "cmsg list \<Rightarrow> nat list" where
  "first_fds [] = []"
| "first_fds (c # cs) = (case c of OtherCmsg \<Rightarrow> first_fds cs | ScmRights fd _ \<Rightarrow> fd # first_fds cs)"

lemma take_fds_rest:
  "take_fds cloexec cmsgs (Some f) closed = (Inr (Some f), closed @ first_fds cmsgs)"
  by (induction cmsgs arbitrary: closed) (auto split: cmsg.splits)

lemma take_fds_first:
  "take_fds cloexec cmsgs None [] =
     (case first_fds cmsgs of
        [] \<Rightarrow> (Inr None, [])
      | fd # rest \<Rightarrow> (case cloexec fd of Some e \<Rightarrow> (Inl e, [fd]) | None \<Rightarrow> (Inr (Some fd), rest)))"
  by (induction cmsgs) (auto simp: take_fds_rest split: cmsg.splits option.splits)


section \<open>Properties of the handshake transport\<close>

text \<open>
  C32: the handshake frame crosses the socket exactly when it fits the receive buffer. A frame and a
  descriptor sent in one complete \<open>sendmsg\<close> are received by a \<open>recvmsg\<close> that delivers what fits its
  buffer: the payload and the descriptor come back if the payload has at most 1020 bytes, and an
  error otherwise, in which case the descriptor is closed.
\<close>

theorem handshake_frame_limit:
  assumes "length payload < 2 ^ 32" and "sendmsg (framed payload) = Inr (length (framed payload))"
    and "cloexec fd = None" and "recvmsg = (\<lambda>n. Inr (take n (framed payload), [ScmRights fd []]))"
  shows "fst (send_frame_with_fd sendmsg s payload fd) = Ok () \<and>
    (length payload \<le> 1020 \<longrightarrow> recv_frame_with_fd cloexec recvmsg = (Ok (payload, Some fd), [])) \<and>
    (1020 < length payload \<longrightarrow> (\<exists>msg. recv_frame_with_fd cloexec recvmsg = (Err (UdsError msg), [fd])))"
proof -
  have "recv_frame_with_fd cloexec recvmsg = (Ok (payload, Some fd), [])" if "length payload \<le> 1020"
    by (rule recv_frame_complete) (use that assms in \<open>simp_all add: const_defs\<close>)
  moreover have "\<exists>msg. recv_frame_with_fd cloexec recvmsg = (Err (UdsError msg), [fd])" if "1020 < length payload"
  proof -
    have "take 4 (take 1024 (framed payload)) = u32_to_le (of_nat (length payload))"
      by (simp add: framed_def)
    moreover have "length (take 1024 (framed payload)) = 1024"
      using that by simp
    ultimately show ?thesis
      using that assms(1,3) by (simp add: recv_frame_with_fd_def recvmsg_with_fd_def assms(4) const_defs Let_def)
  qed
  ultimately show ?thesis
    using send_frame_complete [where sendmsg = sendmsg, OF assms(1,2)] by simp
qed

theorem handshake_frame_limit_witness:
  "recv_frame_with_fd (\<lambda>_. None) (\<lambda>n. Inr (take n (framed [1, 2, 3]), [ScmRights 7 []])) = (Ok ([1, 2, 3], Some 7), [])"
  using handshake_frame_limit [of "[1, 2, 3]" "\<lambda>bs. Inr (length bs)" "\<lambda>_. None" 7
      "\<lambda>n. Inr (take n (framed [1, 2, 3]), [ScmRights 7 []])"] by simp

text \<open>
  C33: what happens to received descriptors. The caller gets at most one, the first; of every further
  control message the first descriptor is closed, and if no descriptor is returned the received ones
  that were read are all closed. A second descriptor in the same control message is neither returned
  nor closed.
\<close>

theorem received_fds:
  assumes "recv_frame_with_fd cloexec recvmsg = (r, closed)" and "recvmsg ANCILLARY_RECV_BUF = Inr (bs, cmsgs)"
    and "\<forall>fd. cloexec fd = None"
  shows "(case r of
      Ok (payload, Some fd) \<Rightarrow> first_fds cmsgs = fd # closed
    | Ok (payload, None) \<Rightarrow> first_fds cmsgs = [] \<and> closed = []
    | Err e \<Rightarrow> mset closed = mset (first_fds cmsgs)
    | Panic \<Rightarrow> False)"
  using assms
  by (auto simp: recv_frame_with_fd_def recvmsg_with_fd_def take_fds_first Let_def
      split: list.splits option.splits if_splits)

theorem received_fds_witness:
  "\<exists>payload. recv_frame_with_fd (\<lambda>_. None) (\<lambda>n. Inr (take n (framed [9]), [ScmRights 3 [4], ScmRights 5 []])) =
     (Ok (payload, Some 3), [5])"
proof -
  let ?recv = "\<lambda>n. (Inr (take n (framed [9]), [ScmRights 3 [4], ScmRights 5 []]) :: string + (bytes \<times> cmsg list))"
  obtain r closed where r: "recv_frame_with_fd (\<lambda>_. None) ?recv = (r, closed)"
    by force
  have "r = Ok ([9], Some 3)"
    using r by (auto simp: recv_frame_with_fd_def recvmsg_with_fd_def const_defs framed_def Let_def)
  with received_fds [OF r refl] r show ?thesis by simp
qed

end
