(* ===== verification/Sender_Control.thy ===== *)
theory Sender_Control
  imports Dispatch Frames Uds
begin

text \<open>
  The sender's control plane, \<open>src/sender/shm.rs\<close>: the configuration checks before the socket is bound,
  the accept loop, and the handler of one control connection, which reads subscriptions and pings
  and answers on the same socket. While a handler waits for its peer the other tasks of the sender
  run; what they do to the shared state is an argument of the handler (\<open>others\<close>).
\<close>

section \<open>Configuration\<close>

definition DEFAULT_SHM_RING_CAPACITY :: nat where
  [const_defs]: "DEFAULT_SHM_RING_CAPACITY = 64 * 1024 * 1024"

record transport_config =
  tc_uds_path :: string
  tc_shm_dir :: string
  tc_ring_capacity_bytes :: nat

definition config_defaults :: "bool \<Rightarrow> string \<Rightarrow> nat \<Rightarrow> string \<Rightarrow> transport_config" where
  "config_defaults linux temp_dir pid uds_path =
     \<lparr>tc_uds_path = uds_path,
      tc_shm_dir = (if linux then ''/dev/shm/qlaster-'' @ show_nat pid else path_join temp_dir (''qlaster-'' @ show_nat pid)),
      tc_ring_capacity_bytes = DEFAULT_SHM_RING_CAPACITY\<rparr>"

text \<open>\<open>usize::is_power_of_two\<close>: exactly one bit set.\<close>

fun is_power_of_two :: "nat \<Rightarrow> bool" where
  "is_power_of_two n = (if n = 0 then False else if n = 1 then True else even n \<and> is_power_of_two (n div 2))"

declare is_power_of_two.simps [simp del]

text \<open>\<open>Path::parent\<close> of a path without dot components.\<close>

definition strip_slashes :: "string \<Rightarrow> string" where
  "strip_slashes p = rev (dropWhile (\<lambda>c. c = CHR ''/'') (rev p))"

definition path_parent :: "string \<Rightarrow> string option" where
  "path_parent p =
     (let q = strip_slashes p
      in if q = [] then None
         else (let r = rev (dropWhile (\<lambda>c. c \<noteq> CHR ''/'') (rev q))
               in Some (if r \<noteq> [] \<and> strip_slashes r = [] then ''/'' else strip_slashes r)))"

text \<open>The answers of the operating system while the socket is set up.\<close>

record listener_env =
  le_create_dir :: "string \<Rightarrow> string option"
  le_remove_fails :: "string \<Rightarrow> bool"
  le_bind :: "string \<Rightarrow> string option"

definition bind_listener ::
  "listener_env \<Rightarrow> transport_config \<Rightarrow> file_system \<Rightarrow> transport_config qresult \<times> file_system" where
  "bind_listener le cfg fs =
     (if \<not> is_power_of_two (tc_ring_capacity_bytes cfg)
      then (Err (ConfigError (''ring_capacity_bytes '' @ show_nat (tc_ring_capacity_bytes cfg) @
              '' must be a power of two'')), fs)
      else
        (case (case path_parent (tc_uds_path cfg) of
                 None \<Rightarrow> None
               | Some parent \<Rightarrow> if parent = [] then None else le_create_dir le parent) of
           Some e \<Rightarrow> (Err (UdsError (''create uds parent: '' @ e)), fs)
         | None \<Rightarrow>
             (let fs1 = (if le_remove_fails le (tc_uds_path cfg) then fs else fs - {tc_uds_path cfg})
              in case (if tc_uds_path cfg \<in> fs1 then Some ''Address already in use (os error 98)''
                       else le_bind le (tc_uds_path cfg)) of
                   Some e \<Rightarrow> (Err (UdsError (''bind '' @ tc_uds_path cfg @ '': '' @ e)), fs1)
                 | None \<Rightarrow>
                     (let fs2 = insert (tc_uds_path cfg) fs1
                      in case le_create_dir le (tc_shm_dir cfg) of
                           Some e \<Rightarrow> (Err (ShmError (''create shm dir: '' @ e)), fs2)
                         | None \<Rightarrow> (Ok cfg, fs2)))))"

lemma is_power_of_two_pow: "is_power_of_two n \<longleftrightarrow> (\<exists>k. n = 2 ^ k)"
proof (induction n rule: is_power_of_two.induct)
  case (1 n)
  show ?case
  proof (cases "n = 0 \<or> n = 1")
    case True
    then show ?thesis
      using is_power_of_two.simps [of 0] is_power_of_two.simps [of 1] by (metis power_0 power_not_zero zero_neq_numeral)
  next
    case False
    have "(\<exists>k. n = 2 ^ k) \<longleftrightarrow> even n \<and> (\<exists>k. n div 2 = 2 ^ k)"
    proof
      assume "\<exists>k. n = 2 ^ k"
      then obtain k where "n = 2 ^ k" ..
      with False show "even n \<and> (\<exists>k. n div 2 = 2 ^ k)"
        by (cases k) auto
    next
      assume "even n \<and> (\<exists>k. n div 2 = 2 ^ k)"
      then obtain k where "n = 2 * 2 ^ k"
        by (metis dvd_mult_div_cancel)
      then have "n = 2 ^ Suc k" by simp
      then show "\<exists>k. n = 2 ^ k" ..
    qed
    moreover have "is_power_of_two n \<longleftrightarrow> even n \<and> is_power_of_two (n div 2)"
      using False by (subst is_power_of_two.simps) auto
    moreover have "is_power_of_two (n div 2) \<longleftrightarrow> (\<exists>k. n div 2 = 2 ^ k)" if "even n"
      using False that by (intro 1) auto
    ultimately show ?thesis by metis
  qed
qed


section \<open>The control connection\<close>

record ('q, 'k, 'b) sender_state =
  ss_manager :: "('q, 'k, 'b) connection_manager"
  ss_bloom_updates_tx :: "bool option"
  ss_forwarded :: "(subscription_request \<times> u64) list"
  ss_metrics :: sender_metrics

text \<open>
  \<open>bloom_updates_tx\<close> is absent, or a channel whose receiver is alive or gone; what was sent through it
  is in \<open>ss_forwarded\<close>. The clock readings taken while one frame is handled:
\<close>

record control_clock =
  cc_lookup :: u64
  cc_slots :: "nat \<Rightarrow> u64"
  cc_stamp :: u64
  cc_received :: u64

definition forward_request :: "subscription_request \<Rightarrow> u64 \<Rightarrow> ('q, 'k, 'b) sender_state \<Rightarrow> ('q, 'k, 'b) sender_state" where
  "forward_request request received_at st =
     (if ss_bloom_updates_tx st = Some True
      then st\<lparr>ss_forwarded := ss_forwarded st @ [(request, received_at)]\<rparr> else st)"

text \<open>The reply: the handshake with the wakeup descriptor of the new connection, or the plain reply.\<close>

definition send_provision ::
  "wincode \<Rightarrow> (bytes \<Rightarrow> string + nat) \<Rightarrow> shm_slot_provision \<Rightarrow> uds_stream \<Rightarrow> unit qresult \<times> uds_stream" where
  "send_provision wc sendmsg provision stream =
     (case provision of
        Created token ring_path ring_capacity eventfd \<Rightarrow>
          (case ready_shm_encode wc \<lparr>ch_slot_token = token, ch_ring_path = ring_path, ch_ring_capacity = ring_capacity\<rparr> of
             Ok encoded \<Rightarrow> send_frame_with_fd sendmsg stream encoded eventfd
           | Err e \<Rightarrow> (Err e, stream)
           | Panic \<Rightarrow> (Panic, stream))
      | Existing token \<Rightarrow>
          (case bindR (ready_encode wc \<lparr>cr_slot_token = token\<rparr>) (write_framed (ud_out stream)) of
             Ok out \<Rightarrow> (Ok (), stream\<lparr>ud_out := out\<rparr>)
           | Err e \<Rightarrow> (Err e, stream)
           | Panic \<Rightarrow> (Panic, stream)))"

definition handle_client_frame ::
  "('q, 'k, 'b) sender_env \<Rightarrow> wincode \<Rightarrow> transport_config \<Rightarrow> (bytes \<Rightarrow> string + nat) \<Rightarrow> control_clock \<Rightarrow> bytes \<Rightarrow>
     uds_stream \<Rightarrow> ('q, 'k, 'b) sender_state \<Rightarrow> (unit qresult \<times> uds_stream \<times> ('q, 'k, 'b) sender_state) option" where
  "handle_client_frame env wc cfg sendmsg clk payload stream st =
     (case decode_client_frame wc payload of
        Ok (Subscription request) \<Rightarrow>
          (case upsert_shm env (cc_lookup clk) (cc_slots clk) (cc_stamp clk) request (tc_shm_dir cfg)
                  (tc_ring_capacity_bytes cfg) (ss_manager st) of
             None \<Rightarrow> None
           | Some (Ok provision, m) \<Rightarrow>
               (let st1 = st\<lparr>ss_manager := m\<rparr>
                in case send_provision wc sendmsg provision stream of
                     (Ok _, stream1) \<Rightarrow> Some (Ok (), stream1, forward_request request (cc_received clk) st1)
                   | (failed, stream1) \<Rightarrow> Some (failed, stream1, st1))
           | Some (Err e, m) \<Rightarrow> Some (Err e, stream, st\<lparr>ss_manager := m\<rparr>)
           | Some (Panic, m) \<Rightarrow> Some (Panic, stream, st\<lparr>ss_manager := m\<rparr>))
      | Ok (Ping ping) \<Rightarrow>
          (case touch_ping env (cc_lookup clk) (cc_stamp clk) (ss_manager st) ping of
             (_, m) \<Rightarrow> Some (Ok (), stream, st\<lparr>ss_manager := m\<rparr>))
      | Err e \<Rightarrow> Some (Err e, stream, st)
      | Panic \<Rightarrow> Some (Panic, stream, st))"

lemma send_frame_keeps_input: "send_frame_with_fd sendmsg s payload fd = (r, s') \<Longrightarrow> ud_in s' = ud_in s"
  by (auto simp: send_frame_with_fd_def sendmsg_with_fd_def Let_def split: if_splits sum.splits)

lemma send_provision_keeps_input: "send_provision wc sendmsg provision s = (r, s') \<Longrightarrow> ud_in s' = ud_in s"
  by (auto simp: send_provision_def split: shm_slot_provision.splits result.splits dest: send_frame_keeps_input)

lemma handle_keeps_input:
  "handle_client_frame env wc cfg sendmsg clk payload s st = Some (r, s', st') \<Longrightarrow> ud_in s' = ud_in s"
  by (auto simp: handle_client_frame_def Let_def
      split: result.splits client_frame.splits option.splits prod.splits dest: send_provision_keeps_input)

text \<open>The whole handler. \<open>others n\<close> is what the other tasks do while it waits for its \<open>n\<close>-th frame.\<close>

function handle_uds_connection ::
  "('q, 'k, 'b) sender_env \<Rightarrow> wincode \<Rightarrow> transport_config \<Rightarrow> (bytes \<Rightarrow> string + nat) \<Rightarrow> (nat \<Rightarrow> control_clock) \<Rightarrow>
     (nat \<Rightarrow> ('q, 'k, 'b) sender_state \<Rightarrow> ('q, 'k, 'b) sender_state) \<Rightarrow> nat \<Rightarrow> uds_stream \<Rightarrow> ('q, 'k, 'b) sender_state \<Rightarrow>
     (unit qresult \<times> uds_stream \<times> ('q, 'k, 'b) sender_state) option" where
  "handle_uds_connection env wc cfg sendmsg clk others n stream st =
     (case read_framed (ud_in stream) of
        Ok (payload, input) \<Rightarrow>
          (case handle_client_frame env wc cfg sendmsg (clk n) payload (stream\<lparr>ud_in := input\<rparr>) (others n st) of
             Some (Ok _, stream1, st1) \<Rightarrow> handle_uds_connection env wc cfg sendmsg clk others (Suc n) stream1 st1
           | failed \<Rightarrow> failed)
      | Err e \<Rightarrow> Some (if e = Io UnexpectedEof then Ok () else Err e, stream, others n st)
      | Panic \<Rightarrow> Some (Panic, stream, others n st))"
  by pat_completeness auto

termination handle_uds_connection
  by (relation "measure (\<lambda>(_, _, _, _, _, _, _, stream, _). length (is_bytes (ud_in stream)))")
    (auto dest!: handle_keeps_input read_framed_shrinks)

declare handle_uds_connection.simps [simp del]

text \<open>
  The accept loop. An accepted stream that cannot be protected from \<open>SIGPIPE\<close> is dropped; every other
  one gets a handler task of its own. The list is what the listener delivers until \<open>accept\<close> fails.
\<close>

primrec run_listener :: "(string + 's \<times> (string + unit)) list \<Rightarrow> 's list \<times> unit qresult option" where
  "run_listener [] = ([], None)"
| "run_listener (accepted # rest) =
     (case accepted of
        Inl e \<Rightarrow> ([], Some (Err (UdsError (''accept: '' @ e))))
      | Inr (stream, nosigpipe) \<Rightarrow>
          (case run_listener rest of
             (spawned, r) \<Rightarrow> (if nosigpipe = Inr () then stream # spawned else spawned, r)))"


section \<open>The handler and the step relation\<close>

text \<open>
  While the handler waits the other tasks make steps, at most \<open>b\<close> of them subscriptions; the connection
  ids last for the run if there are enough of them for the number of frames the client can still send.
\<close>

definition others_ok ::
  "('q, 'k, 'b) sender_env \<Rightarrow> nat \<Rightarrow> (nat \<Rightarrow> ('q, 'k, 'b) sender_state \<Rightarrow> ('q, 'k, 'b) sender_state) \<Rightarrow> bool" where
  "others_ok env b others \<longleftrightarrow> (\<forall>n st. mgr_steps env (ss_manager st) (ss_manager (others n st)) \<and>
     unat (mg_next_connection_id (ss_manager (others n st))) \<le> unat (mg_next_connection_id (ss_manager st)) + b)"

definition ids_left :: "nat \<Rightarrow> uds_stream \<Rightarrow> ('q, 'k, 'b) sender_state \<Rightarrow> bool" where
  "ids_left b s st \<longleftrightarrow>
     unat (mg_next_connection_id (ss_manager st)) + (b + 1) * Suc (length (is_bytes (ud_in s))) < 2 ^ 64 - 1"

lemma max_id: "unat (w :: u64) < 2 ^ 64 - 1 \<Longrightarrow> w \<noteq> - 1"
  by (auto simp: unsigned_minus_1_eq_mask mask_eq_exp_minus_1)

lemma unat_succ_le: "unat ((w :: u64) + 1) \<le> unat w + 1"
  by (simp add: unat_word_ariths)

lemma quiet_next_id: "quiet env m m' \<Longrightarrow> mg_next_connection_id m' = mg_next_connection_id m"
  by (simp add: quiet_def same_identity_def)

lemma upsert_next_id:
  assumes "sender_env_ok env" and "mgr_inv env m" and "mg_next_connection_id m \<noteq> - 1"
    and "upsert_shm env now1 clk now2 req dir cap m = Some (r, m')"
  shows "unat (mg_next_connection_id m') \<le> unat (mg_next_connection_id m) + 1"
proof (cases rule: upsert_cases [OF assms(1-3), of now1 clk now2 req dir cap])
  case (2 r' m0 m'')
  with assms(4) quiet_next_id [OF 2(2)] quiet_next_id [OF 2(3)] unat_succ_le show ?thesis by simp
next
  case (3 i e m0 m1 fs path)
  then have "m' = install (m1\<lparr>mg_files := fs\<rparr>) i e"
    using assms(4) by simp
  with quiet_next_id [OF 3(2)] quiet_next_id [OF 3(3)] unat_succ_le show ?thesis by simp
qed (use assms(4) in \<open>simp add: set_connection_def\<close>)

lemma forward_request_manager [simp]: "ss_manager (forward_request r t st) = ss_manager st"
  by (simp add: forward_request_def)

text \<open>A configuration the handler can serve: its ring size is valid and its paths fit a handshake.\<close>

definition config_ok :: "('q, 'k, 'b) sender_env \<Rightarrow> wincode \<Rightarrow> transport_config \<Rightarrow> bool" where
  "config_ok env wc cfg \<longleftrightarrow> 0 < tc_ring_capacity_bytes cfg \<and> tc_ring_capacity_bytes cfg \<le> 2 ^ 63 \<and>
     (\<forall>i < MAX_CONNECTION_SLOTS. \<forall>cid. length (path_join (tc_shm_dir cfg) (ring_file_name (se_pid env) i cid)) \<le> wc_seq_limit wc)"

lemma ready_shm_encode_total:
  assumes "wincode_ok wc" and "length (ch_ring_path r) \<le> wc_seq_limit wc"
  shows "\<exists>bs. ready_shm_encode wc r = Ok bs"
proof -
  have "\<exists>bs. wc_ser_ready_shm wc w = Inr bs" if "length (wh_ring_path w) \<le> wc_seq_limit wc" for w
    using assms(1) that unfolding wincode_ok_def by blast
  with assms(2) show ?thesis
    by (simp add: ready_shm_encode_def)
qed

lemma ready_encode_total: "wincode_ok wc \<Longrightarrow> \<exists>bs. ready_encode wc r = Ok bs"
  unfolding ready_encode_def serialize_wire_Ok wincode_ok_def Let_def by blast

lemma send_frame_no_panic: "fst (send_frame_with_fd sendmsg s payload fd) \<noteq> Panic"
  by (auto simp: send_frame_with_fd_def Let_def split: sum.splits prod.splits)

lemma send_provision_no_panic:
  assumes "wincode_ok wc" and "\<forall>t path c p. provision = Created t path c p \<longrightarrow> length path \<le> wc_seq_limit wc"
  shows "fst (send_provision wc sendmsg provision s) \<noteq> Panic"
proof (cases provision)
  case (Existing t)
  obtain bs where "ready_encode wc \<lparr>cr_slot_token = t\<rparr> = Ok bs"
    using ready_encode_total [OF assms(1)] by blast
  with Existing show ?thesis
    by (simp add: send_provision_def split: result.splits)
next
  case (Created t path c p)
  obtain bs where "ready_shm_encode wc \<lparr>ch_slot_token = t, ch_ring_path = path, ch_ring_capacity = c\<rparr> = Ok bs"
    using ready_shm_encode_total [OF assms(1), of "\<lparr>ch_slot_token = t, ch_ring_path = path, ch_ring_capacity = c\<rparr>"]
      assms(2) Created by auto
  with Created show ?thesis
    by (simp add: send_provision_def send_frame_no_panic)
qed

lemma handle_frame_steps:
  assumes "sender_env_ok env" and "mgr_inv env (ss_manager st)" and "mg_next_connection_id (ss_manager st) \<noteq> - 1"
    and "wincode_ok wc" and "config_ok env wc cfg"
  shows "\<exists>r s' st'. handle_client_frame env wc cfg sendmsg clk payload s st = Some (r, s', st') \<and> r \<noteq> Panic \<and>
    mgr_steps env (ss_manager st) (ss_manager st') \<and>
    unat (mg_next_connection_id (ss_manager st')) \<le> unat (mg_next_connection_id (ss_manager st)) + 1"
proof (cases "decode_client_frame wc payload")
  case (Ok frame)
  show ?thesis
  proof (cases frame)
    case (Subscription request)
    obtain r m where u: "upsert_shm env (cc_lookup clk) (cc_slots clk) (cc_stamp clk) request (tc_shm_dir cfg)
          (tc_ring_capacity_bytes cfg) (ss_manager st) = Some (r, m)" and np: "r \<noteq> Panic"
        and path: "\<forall>t path c p. r = Ok (Created t path c p) \<longrightarrow> length path \<le> wc_seq_limit wc"
      by (rule upsert_cases [OF assms(1-3), of "cc_lookup clk" "cc_slots clk" "cc_stamp clk" request "tc_shm_dir cfg"
            "tc_ring_capacity_bytes cfg"])
        (use assms(5) in \<open>auto simp: config_ok_def\<close>)
    have step: "mgr_steps env (ss_manager st) m"
      by (rule r_into_rtranclp) (rule step_upsert [OF assms(3) u])
    note next_id = upsert_next_id [OF assms(1-3) u]
    show ?thesis
    proof (cases r)
      case r: (Ok provision)
      obtain q s' where q: "send_provision wc sendmsg provision s = (q, s')"
        by force
      have "q \<noteq> Panic"
        using send_provision_no_panic [OF assms(4), of provision sendmsg s] path r q by simp
      with Ok Subscription u r q step next_id show ?thesis
        by (cases q) (simp_all add: handle_client_frame_def)
    qed (use Ok Subscription u np step next_id in \<open>simp_all add: handle_client_frame_def\<close>)
  next
    case (Ping ping)
    obtain b m where p: "touch_ping env (cc_lookup clk) (cc_stamp clk) (ss_manager st) ping = (b, m)"
      by force
    have "mgr_steps env (ss_manager st) m"
      by (rule r_into_rtranclp) (rule step_ping [OF p])
    moreover have "mg_next_connection_id m = mg_next_connection_id (ss_manager st)"
      using quiet_next_id [OF quiet_touch_ping [OF assms(1,2) p]] .
    ultimately show ?thesis
      using Ok Ping p by (simp add: handle_client_frame_def)
  qed
next
  case Panic
  with routers_no_panic show ?thesis by blast
qed (simp add: handle_client_frame_def)


lemma control_handler_steps:
  assumes "sender_env_ok env" and "wincode_ok wc" and "config_ok env wc cfg" and "others_ok env b others"
    and "mgr_inv env (ss_manager st)" and "ids_left b s st"
  shows "\<exists>r s' st'. handle_uds_connection env wc cfg sendmsg clk others n s st = Some (r, s', st') \<and>
    r \<noteq> Panic \<and> mgr_steps env (ss_manager st) (ss_manager st')"
  using assms
proof (induction env wc cfg sendmsg clk others n s st rule: handle_uds_connection.induct)
  case (1 env wc cfg sendmsg clk others n s st)
  let ?id = "\<lambda>st. unat (mg_next_connection_id (ss_manager st))"
  have oth: "mgr_steps env (ss_manager st) (ss_manager (others n st))" "?id (others n st) \<le> ?id st + b"
    using 1(5) by (simp_all add: others_ok_def)
  show ?case
  proof (cases "read_framed (ud_in s)")
    case (Ok x)
    then obtain payload input where x: "read_framed (ud_in s) = Ok (payload, input)"
      by (cases x) simp
    have inv: "mgr_inv env (ss_manager (others n st))"
      using steps_keep [OF 1(2,6) oth(1)] by blast
    have "mg_next_connection_id (ss_manager (others n st)) \<noteq> - 1"
      using 1(7) oth(2) unfolding ids_left_def by (intro max_id) simp
    from handle_frame_steps [OF 1(2) inv this 1(3,4)] obtain r s1 st1 where
      h: "handle_client_frame env wc cfg sendmsg (clk n) payload (s\<lparr>ud_in := input\<rparr>) (others n st) = Some (r, s1, st1)"
        "r \<noteq> Panic" "mgr_steps env (ss_manager (others n st)) (ss_manager st1)" "?id st1 \<le> ?id (others n st) + 1"
      by blast
    have st1: "mgr_steps env (ss_manager st) (ss_manager st1)"
      using oth(1) h(3) by (rule rtranclp_trans)
    show ?thesis
    proof (cases r)
      case r: (Ok u)
      have inv1: "mgr_inv env (ss_manager st1)"
        using steps_keep [OF 1(2,6) st1] by blast
      have len: "Suc (length (is_bytes (ud_in s1))) \<le> length (is_bytes (ud_in s))"
        using read_framed_shrinks [OF x] handle_keeps_input [OF h(1)] by simp
      have "ids_left b s1 st1"
        using mult_le_mono2 [OF len, of "b + 1"] 1(7) oth(2) h(4) by (simp add: ids_left_def)
      with 1(1) [OF x refl h(1) refl r refl 1(2-5) inv1] obtain r' s' st' where
        "handle_uds_connection env wc cfg sendmsg clk others (Suc n) s1 st1 = Some (r', s', st')" "r' \<noteq> Panic"
        "mgr_steps env (ss_manager st1) (ss_manager st')"
        by blast
      with x h(1) r st1 show ?thesis
        by (subst handle_uds_connection.simps) (auto intro: rtranclp_trans)
    next
      case (Err e)
      with x h st1 show ?thesis
        by (subst handle_uds_connection.simps) simp
    qed (use h(2) in simp)
  next
    case (Err e)
    with oth show ?thesis
      by (subst handle_uds_connection.simps) simp
  qed simp
qed


section \<open>Properties of the control plane\<close>

text \<open>
  C13: the control handler always returns, never panics, and does nothing to the connections that a
  sequence of the manager's own operations could not do, whatever bytes the client sends and
  whatever the other tasks do in between. So every safety property of the manager holds of a sender
  that serves arbitrary clients, as long as the 64-bit connection ids do not run out.
\<close>

theorem control_handler_refines:
  assumes "sender_env_ok env" and "wincode_ok wc" and "config_ok env wc cfg" and "others_ok env b others"
    and "mgr_inv env (ss_manager st)" and "ids_left b s st"
  shows "\<exists>r s' st'. handle_uds_connection env wc cfg sendmsg clk others n s st = Some (r, s', st') \<and>
    r \<noteq> Panic \<and> mgr_steps env (ss_manager st) (ss_manager st') \<and> mgr_inv env (ss_manager st')"
  using control_handler_steps [OF assms] steps_keep [OF assms(1,5)] by blast

definition sample_config :: transport_config where
  "sample_config = \<lparr>tc_uds_path = ''/run/q.sock'', tc_shm_dir = ''/dev/shm'', tc_ring_capacity_bytes = 256\<rparr>"

lemma length_show_nat: "n < 10 ^ Suc k \<Longrightarrow> length (show_nat n) \<le> Suc k"
proof (induction k arbitrary: n)
  case (Suc k)
  show ?case
  proof (cases "n < 10")
    case False
    have "n div 10 < 10 ^ Suc k"
      using Suc.prems by (simp add: less_mult_imp_div_less mult.commute)
    from Suc.IH [OF this] False show ?thesis
      by (subst show_nat.simps) simp
  qed (subst show_nat.simps, simp)
qed (subst show_nat.simps, simp)

lemma sample_config_ok: "config_ok sample_env plain_wincode sample_config"
proof -
  have "length (show_nat 7 @ ''-'' @ show_nat i @ ''-'' @ show_nat (unat (cid :: u64))) \<le> 24"
    if "i < MAX_CONNECTION_SLOTS" for i cid
  proof -
    have "length (show_nat (unat cid)) \<le> Suc 19"
      by (intro length_show_nat, rule less_trans [OF unat_u64_less]) simp
    moreover have "length (show_nat i) \<le> Suc 0"
      using that by (intro length_show_nat) (simp add: const_defs)
    moreover have "length (show_nat 7) \<le> Suc 0"
      by (intro length_show_nat) simp
    ultimately show ?thesis by simp
  qed
  then have "length (''/dev/shm/'' @ show_nat 7 @ ''-'' @ show_nat i @ ''-'' @ show_nat (unat (cid :: u64))) \<le> 4194304"
    if "i < MAX_CONNECTION_SLOTS" for i cid
    using that by (fastforce intro: order_trans)
  then show ?thesis
    by (simp add: config_ok_def sample_config_def path_join_def ring_file_name_def sample_env_def plain_wincode_def)
qed

definition sample_state :: "(list_queue, nat, bytes list) sender_state" where
  "sample_state = \<lparr>ss_manager = sample_manager, ss_bloom_updates_tx = Some True, ss_forwarded = [],
     ss_metrics = sender_metrics_new\<rparr>"

theorem control_handler_refines_witness:
  "\<exists>r s' st'. handle_uds_connection sample_env plain_wincode sample_config (\<lambda>bs. Inr (length bs))
      (\<lambda>_. \<lparr>cc_lookup = 2000, cc_slots = \<lambda>_. 2000, cc_stamp = 2000, cc_received = 0\<rparr>) (\<lambda>_ st. st) 0
      \<lparr>ud_in = \<lparr>is_bytes = [2, 0, 0, 0, 9, 1], is_end = UnexpectedEof\<rparr>, ud_out = \<lparr>os_bytes = [], os_fail = None\<rparr>,
       ud_attached = []\<rparr> sample_state = Some (r, s', st') \<and> r \<noteq> Panic"
proof -
  have "mgr_inv sample_env (ss_manager sample_state)"
    using sample_inv by (simp add: sample_state_def)
  moreover have "others_ok sample_env 0 (\<lambda>_ st. st)"
    by (simp add: others_ok_def)
  moreover have "ids_left 0 \<lparr>ud_in = \<lparr>is_bytes = [2, 0, 0, 0, 9, 1], is_end = UnexpectedEof\<rparr>,
      ud_out = \<lparr>os_bytes = [], os_fail = None\<rparr>, ud_attached = []\<rparr> sample_state"
    by (simp add: ids_left_def sample_state_def sample_manager_def)
  ultimately show ?thesis
    using control_handler_refines [OF sample_env_ok plain_wincode_ok sample_config_ok] by blast
qed

text \<open>
  C35: a ping keeps its connection alive for thirty seconds. It is acknowledged exactly when its token
  names a connection that is in its slot and not stale; that connection then becomes stale only
  when the clock has moved more than 30000 ms past the ping, and no other connection changes.
\<close>

theorem ping_keeps_alive:
  assumes "mgr_inv env m" and "touch_ping env now1 now2 m ping = (acknowledged, m')"
  shows "acknowledged = (\<exists>i e. connection_at m i = Some e \<and> connection_token e = pr_slot_token ping \<and> \<not> is_stale now1 e) \<and>
    (acknowledged \<longrightarrow> (\<exists>i e. connection_at m' i = Some e \<and> connection_token e = pr_slot_token ping \<and>
       (\<forall>now. is_stale now e \<longleftrightarrow> unat now2 + 30000 < unat now) \<and>
       (\<forall>j. j \<noteq> i \<longrightarrow> connection_at m' j = connection_at m j)))"
proof -
  obtain r m1 where l: "lookup_by_token env now1 m (pr_slot_token ping) = (r, m1)"
    by force
  show ?thesis
  proof (cases r)
    case None
    with lookup_by_token_None [OF assms(1)] l assms(2) show ?thesis
      by (auto simp: touch_ping_def)
  next
    case (Some p)
    obtain e where e: "mg_heap m p = Some e" "load_full m (mc_slot_index e) = Some p"
        "connection_token e = pr_slot_token ping" "\<not> is_stale now1 e" "m1 = m"
      by (rule lookup_by_token_Some [OF assms(1) l [unfolded Some]])
    let ?e = "e\<lparr>mc_last_seen_ms := now2\<rparr>"
    have m': "acknowledged" "m' = set_connection m p ?e"
      using assms(2) l Some e(1,5) by (simp_all add: touch_ping_def touch_connection_def)
    have "q \<noteq> p" if "load_full m j = Some q" "j \<noteq> mc_slot_index e" for j q
      using mgr_inv_same_slot [OF assms(1) e(2)] that by auto
    then have "connection_at m' j = (if j = mc_slot_index e then Some ?e else connection_at m j)" for j
      using e(2) by (auto simp: m' connection_at_def split: option.splits)
    moreover have "is_stale now ?e \<longleftrightarrow> unat now2 + 30000 < unat now" for now
      by (auto simp: is_stale_def sat_sub_def const_defs word_less_nat_alt word_le_nat_alt unat_sub)
    moreover have "connection_token ?e = pr_slot_token ping"
      using e(3) by (simp add: connection_token_def)
    moreover have "connection_at m (mc_slot_index e) = Some e"
      using e by (simp add: connection_at_def)
    ultimately show ?thesis
      using m'(1) e(3,4) by metis
  qed
qed

theorem ping_keeps_alive_witness:
  "\<exists>i e. connection_at (snd (touch_ping sample_env 2000 3000 sample_manager \<lparr>pr_slot_token = slot_token_new 0 1\<rparr>)) i = Some e \<and>
     \<not> is_stale 33000 e \<and> is_stale 33001 e"
proof -
  obtain a m' where p: "touch_ping sample_env 2000 3000 sample_manager \<lparr>pr_slot_token = slot_token_new 0 1\<rparr> = (a, m')"
    by force
  have "connection_at sample_manager 0 = Some sample_connection" "connection_token sample_connection = slot_token_new 0 1"
      "\<not> is_stale 2000 sample_connection"
    by (simp_all add: connection_at_def load_full_def sample_manager_def connection_token_def is_stale_def sat_sub_def
        sample_connection_def const_defs)
  with ping_keeps_alive [OF sample_inv p] obtain i e where "connection_at m' i = Some e"
      "\<forall>now. is_stale now e \<longleftrightarrow> unat (3000 :: u64) + 30000 < unat now"
    by fastforce
  with p show ?thesis
    by (intro exI [of _ i] exI [of _ e]) simp
qed

lemma next_power_of_two_pow: "next_power_of_two (2 ^ k) = 2 ^ k"
proof -
  obtain j where j: "next_power_of_two (2 ^ k) = 2 ^ j" "(2 :: nat) ^ k \<le> 2 ^ j" "1 < (2 :: nat) ^ k \<longrightarrow> (2 :: nat) ^ j < 2 * 2 ^ k"
    by (rule next_power_of_two_bounds [of "2 ^ k"])
  show ?thesis
  proof (cases k)
    case 0
    then show ?thesis
      by (simp add: next_power_of_two_def next_power_from.simps)
  next
    case (Suc l)
    have "1 < (2 :: nat) ^ k"
      using Suc by (intro one_less_power) simp_all
    then have "(2 :: nat) ^ j < 2 ^ Suc k"
      using j(3) by simp
    then have "j < Suc k" and "k \<le> j"
      using j(2) by (simp_all only: power_strict_increasing_iff power_increasing_iff one_less_numeral_iff semiring_norm)
    with j(1) show ?thesis by simp
  qed
qed


end
