(* ===== verification/Array_Queue_Param.thy ===== *)
theory Array_Queue_Param
  imports Prelude
begin

text \<open>
  The bounded queue of the third-party crate \<open>crossbeam_queue\<close> (\<open>ArrayQueue\<close>) as a parameter: the
  functions \<open>src/consumer/shm.rs\<close> calls, over an abstract state \<open>'s\<close>. The last two fields observe the
  state for specifications only. \<open>array_queue_ok\<close> is its documented behaviour: a queue of a positive
  capacity is empty at first, \<open>force_push\<close> appends and, when the queue is full, first removes and
  returns the oldest element, and \<open>pop\<close> takes the oldest element. \<open>list_array_queue\<close> is a concrete
  instance.
\<close>

record ('s, 'a) array_queue =
  aq_new :: "nat \<Rightarrow> 's"
  aq_force_push :: "'s \<Rightarrow> 'a \<Rightarrow> 'a option \<times> 's"
  aq_pop :: "'s \<Rightarrow> 'a option \<times> 's"
  aq_contents :: "'s \<Rightarrow> 'a list"
  aq_capacity :: "'s \<Rightarrow> nat"

definition array_queue_ok :: "('s, 'a) array_queue \<Rightarrow> bool" where
  "array_queue_ok aq \<longleftrightarrow>
     (\<forall>n. 0 < n \<longrightarrow> aq_contents aq (aq_new aq n) = [] \<and> aq_capacity aq (aq_new aq n) = n) \<and>
     (\<forall>s. length (aq_contents aq s) \<le> aq_capacity aq s \<and> 0 < aq_capacity aq s) \<and>
     (\<forall>s x r s'. aq_force_push aq s x = (r, s') \<longrightarrow>
        aq_capacity aq s' = aq_capacity aq s \<and>
        (if length (aq_contents aq s) < aq_capacity aq s
         then r = None \<and> aq_contents aq s' = aq_contents aq s @ [x]
         else r = Some (hd (aq_contents aq s)) \<and> aq_contents aq s' = tl (aq_contents aq s) @ [x])) \<and>
     (\<forall>s r s'. aq_pop aq s = (r, s') \<longrightarrow>
        aq_capacity aq s' = aq_capacity aq s \<and>
        (case aq_contents aq s of
           [] \<Rightarrow> r = None \<and> aq_contents aq s' = []
         | x # xs \<Rightarrow> r = Some x \<and> aq_contents aq s' = xs))"

text \<open>The newest elements of a list, as many as fit.\<close>

definition newest :: "nat \<Rightarrow> 'a list \<Rightarrow> 'a list" where
  "newest n xs = drop (length xs - n) xs"

lemma newest_all: "length xs \<le> n \<Longrightarrow> newest n xs = xs"
  by (simp add: newest_def)

lemma newest_append: "newest n (newest n xs @ ys) = newest n (xs @ ys)"
  by (cases "n \<le> length xs") (auto simp: newest_def add.commute)

lemma array_queue_new:
  assumes "array_queue_ok aq" and "0 < n"
  shows "aq_contents aq (aq_new aq n) = []" and "aq_capacity aq (aq_new aq n) = n"
  using assms unfolding array_queue_ok_def by blast+

lemma array_queue_bounds:
  assumes "array_queue_ok aq"
  shows "length (aq_contents aq s) \<le> aq_capacity aq s" and "0 < aq_capacity aq s"
  using assms unfolding array_queue_ok_def by blast+

lemma array_queue_force_push:
  assumes "array_queue_ok aq"
  shows "aq_contents aq (snd (aq_force_push aq s x)) = newest (aq_capacity aq s) (aq_contents aq s @ [x])"
    and "aq_capacity aq (snd (aq_force_push aq s x)) = aq_capacity aq s"
proof -
  obtain r s' where p: "aq_force_push aq s x = (r, s')"
    by force
  have step: "aq_capacity aq s' = aq_capacity aq s \<and>
      (if length (aq_contents aq s) < aq_capacity aq s then r = None \<and> aq_contents aq s' = aq_contents aq s @ [x]
       else r = Some (hd (aq_contents aq s)) \<and> aq_contents aq s' = tl (aq_contents aq s) @ [x])"
    using assms p unfolding array_queue_ok_def by blast
  have "length (aq_contents aq s) \<le> aq_capacity aq s" "0 < aq_capacity aq s"
    using array_queue_bounds [OF assms] .
  then have "tl (aq_contents aq s) @ [x] = newest (aq_capacity aq s) (aq_contents aq s @ [x])"
    if "\<not> length (aq_contents aq s) < aq_capacity aq s"
    using that by (auto simp: newest_def drop_Suc Suc_diff_le)
  with step p show "aq_contents aq (snd (aq_force_push aq s x)) = newest (aq_capacity aq s) (aq_contents aq s @ [x])"
      and "aq_capacity aq (snd (aq_force_push aq s x)) = aq_capacity aq s"
    by (auto simp: newest_all split: if_splits)
qed

lemma array_queue_pop:
  assumes "array_queue_ok aq" and "aq_pop aq s = (r, s')"
  shows "case aq_contents aq s of [] \<Rightarrow> r = None \<and> aq_contents aq s' = [] | x # xs \<Rightarrow> r = Some x \<and> aq_contents aq s' = xs"
  using assms unfolding array_queue_ok_def by blast


section \<open>A concrete instance\<close>

text \<open>The contents and the capacity, kept consistent.\<close>

definition lq_contents :: "nat \<times> 'a list \<Rightarrow> 'a list" where
  "lq_contents s = take (max 1 (fst s)) (snd s)"

definition list_array_queue :: "(nat \<times> 'a list, 'a) array_queue" where
  "list_array_queue =
     \<lparr>aq_new = (\<lambda>n. (n, [])),
      aq_force_push = (\<lambda>s x. if length (lq_contents s) < max 1 (fst s) then (None, (fst s, lq_contents s @ [x]))
        else (Some (hd (lq_contents s)), (fst s, tl (lq_contents s) @ [x]))),
      aq_pop = (\<lambda>s. case lq_contents s of [] \<Rightarrow> (None, s) | x # xs \<Rightarrow> (Some x, (fst s, xs))),
      aq_contents = lq_contents, aq_capacity = (\<lambda>s. max 1 (fst s))\<rparr>"

lemma list_array_queue_ok: "array_queue_ok list_array_queue"
proof -
  have "length xs \<le> max 1 n" if "lq_contents (n, ys) = x # xs" for n ys x and xs :: "'a list"
    using that length_take [of "max 1 n" ys] unfolding lq_contents_def
    by (metis fst_conv le_SucI length_Cons min.cobounded2 nat_le_linear not_less_eq_eq snd_conv)
  then show ?thesis
    unfolding array_queue_ok_def list_array_queue_def
    by (auto simp: lq_contents_def split: list.splits if_splits)
qed

end
