(* ===== verification/Reader.thy ===== *)
theory Reader
  imports Frames Metrics Transport Array_Queue_Param
begin

text \<open>
  The reader task of \<open>src/consumer/shm.rs\<close>: it drains the ring, decodes every frame, puts the update into
  the queue of its kind, records the timings, and then waits for the next wakeup. The queues are
  \<open>Array_Queue_Param\<close>s, one type each. Clock readings are arguments.
\<close>

section \<open>Source definitions\<close>

definition CONSUMER_UPDATE_QUEUE_CAPACITY :: nat where
  [const_defs]: "CONSUMER_UPDATE_QUEUE_CAPACITY = 2048"

record ('q, 'u, 't, 's) consumer_env =
  ce_shaq :: "'q shaq"
  ce_lz4 :: lz4
  ce_wincode :: wincode
  ce_updates :: "('u, account_update) array_queue"
  ce_transactions :: "('t, transaction_update) array_queue"
  ce_slots :: "('s, slot_update) array_queue"

text \<open>The state the reader task and the consumer handle share.\<close>

record ('u, 't, 's) reader =
  rd_ring :: ring_consumer
  rd_updates :: 'u
  rd_transactions :: 't
  rd_slots :: 's
  rd_metrics :: consumer_metrics

text \<open>The readings for one frame: three elapsed times in microseconds and the wall clock in nanoseconds.\<close>

record reader_clock =
  rk_read :: u64
  rk_decode :: u64
  rk_enqueue :: u64
  rk_now :: int

definition record_decode_and_enqueue :: "reader_clock \<Rightarrow> u64 \<Rightarrow> consumer_metrics \<Rightarrow> consumer_metrics" where
  "record_decode_and_enqueue clk created_at metrics =
     metrics\<lparr>cm_read := latency_record (cm_read metrics) (rk_read clk),
             cm_decode := latency_record (cm_decode metrics) (rk_decode clk),
             cm_enqueue := latency_record (cm_enqueue metrics) (rk_enqueue clk),
             cm_full_read := latency_record (cm_full_read metrics)
               (elapsed_since_unix_time_nanos_us (rk_now clk) created_at)\<rparr>"

text \<open>
  The arms of the reader's match. A frame of another kind and a frame that does not decode are
  logged and skipped; the decoder does not panic.
\<close>

definition handle_ring_frame ::
  "('q, 'u, 't, 's) consumer_env \<Rightarrow> reader_clock \<Rightarrow> bytes \<Rightarrow> ('u, 't, 's) reader \<Rightarrow> ('u, 't, 's) reader" where
  "handle_ring_frame ce clk bs rd =
     (case decode_server_frame_owned_with_meta (ce_lz4 ce) (ce_wincode ce) bs of
        Ok (SM_AccountUpdate update meta) \<Rightarrow>
          rd\<lparr>rd_updates := snd (aq_force_push (ce_updates ce) (rd_updates rd) update),
             rd_metrics := record_decode_and_enqueue clk (sender_created_at_unix_nanos meta) (rd_metrics rd)\<rparr>
      | Ok (SM_TransactionUpdate update meta) \<Rightarrow>
          rd\<lparr>rd_transactions := snd (aq_force_push (ce_transactions ce) (rd_transactions rd) update),
             rd_metrics := record_decode_and_enqueue clk (sender_created_at_unix_nanos meta) (rd_metrics rd)\<rparr>
      | Ok (SM_SlotUpdate update meta) \<Rightarrow>
          rd\<lparr>rd_slots := snd (aq_force_push (ce_slots ce) (rd_slots rd) update),
             rd_metrics := record_decode_and_enqueue clk (sender_created_at_unix_nanos meta) (rd_metrics rd)\<rparr>
      | _ \<Rightarrow> rd)"

text \<open>The inner loop; \<open>n\<close> counts the frames, for the clock.\<close>

partial_function (option) drain_ring ::
  "('q, 'u, 't, 's) consumer_env \<Rightarrow> (nat \<Rightarrow> reader_clock) \<Rightarrow> nat \<Rightarrow> ('u, 't, 's) reader \<Rightarrow> 'q \<Rightarrow>
     (('u, 't, 's) reader \<times> 'q \<times> nat) option" where
  "drain_ring ce clk n rd region =
     (case ring_try_pop (ce_shaq ce) (rd_ring rd) region of
        (Some bs, ring, region') \<Rightarrow>
          drain_ring ce clk (Suc n) (handle_ring_frame ce (clk n) bs (rd\<lparr>rd_ring := ring\<rparr>)) region'
      | (None, ring, region') \<Rightarrow> Some (rd\<lparr>rd_ring := ring\<rparr>, region', n))"

text \<open>
  The outer loop. Between the rounds the reader is suspended in \<open>AsyncEventFd::wait\<close>, while the producer
  and the file system move on; \<open>readable\<close> gives the state of the world when it is resumed. \<open>wakeup\<close> is
  the answer of \<open>AsyncEventFd::new\<close>.
\<close>

record ('q, 'k, 'u, 't, 's) reader_world =
  rw_reader :: "('u, 't, 's) reader"
  rw_region :: 'q
  rw_wakeup :: 'k
  rw_files :: file_system

definition world_drain ::
  "'k efd_kernel \<Rightarrow> ('q, 'k, 'u, 't, 's) reader_world \<Rightarrow> ((io_error + u64) \<times> ('q, 'k, 'u, 't, 's) reader_world) option" where
  "world_drain ek w = (case efd_drain ek (rw_wakeup w) of (r, k) \<Rightarrow> Some (r, w\<lparr>rw_wakeup := k\<rparr>))"

partial_function (option) reader_loop ::
  "('q, 'u, 't, 's) consumer_env \<Rightarrow> 'k efd_kernel \<Rightarrow> (('q, 'k, 'u, 't, 's) reader_world \<Rightarrow> io_error + ('q, 'k, 'u, 't, 's) reader_world) \<Rightarrow>
     (nat \<Rightarrow> reader_clock) \<Rightarrow> nat \<Rightarrow> ('q, 'k, 'u, 't, 's) reader_world \<Rightarrow> ('q, 'k, 'u, 't, 's) reader_world option" where
  "reader_loop ce ek readable clk n w =
     (case drain_ring ce clk n (rw_reader w) (rw_region w) of
        None \<Rightarrow> None
      | Some (rd, region, n') \<Rightarrow>
          (let w1 = w\<lparr>rw_reader := rd, rw_region := region\<rparr>
           in if ring_is_closed (rd_ring rd) (rw_files w1) then Some w1
              else (case async_wait readable (world_drain ek) w1 of
                      None \<Rightarrow> None
                    | Some (Inl e, w2) \<Rightarrow> Some w2
                    | Some (Inr _, w2) \<Rightarrow> reader_loop ce ek readable clk n' w2)))"

definition run_reader ::
  "('q, 'u, 't, 's) consumer_env \<Rightarrow> 'k efd_kernel \<Rightarrow> io_error + unit \<Rightarrow>
     (('q, 'k, 'u, 't, 's) reader_world \<Rightarrow> io_error + ('q, 'k, 'u, 't, 's) reader_world) \<Rightarrow>
     (nat \<Rightarrow> reader_clock) \<Rightarrow> ('q, 'k, 'u, 't, 's) reader_world \<Rightarrow> ('q, 'k, 'u, 't, 's) reader_world option" where
  "run_reader ce ek async_efd readable clk w =
     (case async_efd of Inl e \<Rightarrow> Some w | Inr _ \<Rightarrow> reader_loop ce ek readable clk 0 w)"


section \<open>Draining\<close>

text \<open>The frames up to the first close mark, and what is left behind it.\<close>

fun open_frames :: "ring_item list \<Rightarrow> bytes list" where
  "open_frames (Frame b # items) = b # open_frames items"
| "open_frames _ = []"

fun after_close :: "ring_item list \<Rightarrow> ring_item list" where
  "after_close (Frame b # items) = after_close items"
| "after_close (CloseMark # items) = items"
| "after_close [] = []"

primrec handle_frames ::
  "('q, 'u, 't, 's) consumer_env \<Rightarrow> (nat \<Rightarrow> reader_clock) \<Rightarrow> nat \<Rightarrow> bytes list \<Rightarrow> ('u, 't, 's) reader \<Rightarrow> ('u, 't, 's) reader" where
  "handle_frames ce clk n [] rd = rd"
| "handle_frames ce clk n (b # bs) rd = handle_frames ce clk (Suc n) bs (handle_ring_frame ce (clk n) b rd)"

lemma handle_ring_frame_ring [simp]: "rd_ring (handle_ring_frame ce clk b rd) = rd_ring rd"
  by (simp add: handle_ring_frame_def split: result.splits server_frame_with_meta.splits)

lemma handle_ring_frame_set_ring:
  "handle_ring_frame ce clk b (rd\<lparr>rd_ring := c\<rparr>) = (handle_ring_frame ce clk b rd)\<lparr>rd_ring := c\<rparr>"
  by (simp add: handle_ring_frame_def split: result.splits server_frame_with_meta.splits)

lemma handle_frames_ring [simp]: "rd_ring (handle_frames ce clk n bs rd) = rd_ring rd"
  by (induction bs arbitrary: n rd) simp_all

text \<open>
  Draining a ring that holds whole items returns, and handles exactly the frames in front of the first
  close mark, in order. The close mark, if there is one, sets the flag.
\<close>

lemma drain_ring_items:
  assumes "ring_rep (ce_shaq ce) (p, c, region) items" and "rd_ring rd = c"
  shows "\<exists>c' region'. drain_ring ce clk n rd region =
      Some ((handle_frames ce clk n (open_frames items) rd)\<lparr>rd_ring := c'\<rparr>, region', n + length (open_frames items)) \<and>
    ring_rep (ce_shaq ce) (p, c', region') (after_close items) \<and> rc_path c' = rc_path c \<and>
    rc_closed c' = (rc_closed c \<or> CloseMark \<in> set items)"
  using assms
proof (induction items arbitrary: c region rd n)
  case Nil
  then have "ring_try_pop (ce_shaq ce) c region = (None, c, region)"
    using ring_repD(1,2) [OF Nil(1)] by (simp add: ring_try_pop_empty)
  with Nil show ?case
    by (subst drain_ring.simps) (auto intro!: exI [of _ c])
next
  case (Cons item items)
  note rep = ring_repD [OF Cons.prems(1)]
  show ?case
  proof (cases item)
    case (Frame b)
    have "length b < 2 ^ 32 - 1"
      using rep(5) Frame by simp
    then obtain q where q: "ring_try_pop (ce_shaq ce) c region = (Some b, c, q)"
        "sq_contents (ce_shaq ce) q = concat (map item_bytes items)"
        "sq_room (ce_shaq ce) q = sq_room (ce_shaq ce) region"
      using ring_try_pop_frame [OF rep(1), of region b "concat (map item_bytes items)" c] rep(2) Frame by auto
    have "ring_rep (ce_shaq ce) (p, c, q) items"
      using rep q by (simp add: ring_rep_def)
    moreover have "handle_ring_frame ce (clk n) b (rd\<lparr>rd_ring := c\<rparr>) = handle_ring_frame ce (clk n) b rd"
      using Cons.prems(2) by (intro arg_cong [where f = "handle_ring_frame ce (clk n) b"]) auto
    ultimately show ?thesis
      using Cons.IH [of c q "handle_ring_frame ce (clk n) b rd" "Suc n"] Cons.prems(2) q(1) Frame
      by (subst drain_ring.simps) simp
  next
    case CloseMark
    obtain q where q: "ring_try_pop (ce_shaq ce) c region = (None, c\<lparr>rc_closed := True\<rparr>, q)"
        "sq_contents (ce_shaq ce) q = concat (map item_bytes items)"
        "sq_room (ce_shaq ce) q = sq_room (ce_shaq ce) region"
      using ring_try_pop_close [OF rep(1), of region "concat (map item_bytes items)" c] rep(2) CloseMark by auto
    have "ring_rep (ce_shaq ce) (p, c\<lparr>rc_closed := True\<rparr>, q) items"
      using rep q by (simp add: ring_rep_def)
    with q(1) CloseMark Cons.prems(2) show ?thesis
      by (subst drain_ring.simps) (auto intro!: exI [of _ "c\<lparr>rc_closed := True\<rparr>"])
  qed
qed


section \<open>The queues\<close>

text \<open>The updates of each kind among the frames, in order.\<close>

definition frame_of :: "('q, 'u, 't, 's) consumer_env \<Rightarrow> bytes \<Rightarrow> server_frame_with_meta option" where
  "frame_of ce b = (case decode_server_frame_owned_with_meta (ce_lz4 ce) (ce_wincode ce) b of Ok f \<Rightarrow> Some f | _ \<Rightarrow> None)"

fun account_of :: "server_frame_with_meta \<Rightarrow> account_update option" where
  "account_of (SM_AccountUpdate u _) = Some u"
| "account_of _ = None"

fun transaction_of :: "server_frame_with_meta \<Rightarrow> transaction_update option" where
  "transaction_of (SM_TransactionUpdate u _) = Some u"
| "transaction_of _ = None"

fun slot_of :: "server_frame_with_meta \<Rightarrow> slot_update option" where
  "slot_of (SM_SlotUpdate u _) = Some u"
| "slot_of _ = None"

definition frames_of :: "('q, 'u, 't, 's) consumer_env \<Rightarrow> bytes list \<Rightarrow> server_frame_with_meta list" where
  "frames_of ce bs = List.map_filter (frame_of ce) bs"

definition consumer_env_ok :: "('q, 'u, 't, 's) consumer_env \<Rightarrow> bool" where
  "consumer_env_ok ce \<longleftrightarrow> array_queue_ok (ce_updates ce) \<and> array_queue_ok (ce_transactions ce) \<and> array_queue_ok (ce_slots ce)"

text \<open>What the three queues hold.\<close>

definition queues :: "('q, 'u, 't, 's) consumer_env \<Rightarrow> ('u, 't, 's) reader \<Rightarrow>
    account_update list \<times> transaction_update list \<times> slot_update list" where
  "queues ce rd = (aq_contents (ce_updates ce) (rd_updates rd), aq_contents (ce_transactions ce) (rd_transactions rd),
     aq_contents (ce_slots ce) (rd_slots rd))"

definition capacities :: "('q, 'u, 't, 's) consumer_env \<Rightarrow> ('u, 't, 's) reader \<Rightarrow> nat \<Rightarrow> bool" where
  "capacities ce rd n \<longleftrightarrow> aq_capacity (ce_updates ce) (rd_updates rd) = n \<and>
     aq_capacity (ce_transactions ce) (rd_transactions rd) = n \<and> aq_capacity (ce_slots ce) (rd_slots rd) = n"

text \<open>The reference: a queue receives the updates of its kind and keeps the newest.\<close>

definition enqueue_all ::
  "nat \<Rightarrow> server_frame_with_meta list \<Rightarrow> account_update list \<times> transaction_update list \<times> slot_update list \<Rightarrow>
     account_update list \<times> transaction_update list \<times> slot_update list" where
  "enqueue_all n fs = (\<lambda>(us, ts, ss).
     (newest n (us @ List.map_filter account_of fs), newest n (ts @ List.map_filter transaction_of fs),
      newest n (ss @ List.map_filter slot_of fs)))"

lemma queues_bounded:
  assumes "consumer_env_ok ce" and "capacities ce rd n" and "queues ce rd = (us, ts, ss)"
  shows "length us \<le> n" and "length ts \<le> n" and "length ss \<le> n"
  using assms array_queue_bounds(1) [of "ce_updates ce" "rd_updates rd"]
    array_queue_bounds(1) [of "ce_transactions ce" "rd_transactions rd"] array_queue_bounds(1) [of "ce_slots ce" "rd_slots rd"]
  unfolding consumer_env_ok_def capacities_def queues_def by auto

lemma enqueue_all_Nil:
  assumes "consumer_env_ok ce" and "capacities ce rd n"
  shows "enqueue_all n [] (queues ce rd) = queues ce rd"
  using queues_bounded [OF assms] by (cases "queues ce rd") (simp add: enqueue_all_def newest_all)

lemma enqueue_all_Cons: "enqueue_all n fs (enqueue_all n [f] q) = enqueue_all n (f # fs) q"
  by (cases q; cases f) (simp_all add: enqueue_all_def newest_append List.map_filter_def)

lemma handle_ring_frame_queues:
  assumes "consumer_env_ok ce" and "capacities ce rd n"
  shows "queues ce (handle_ring_frame ce clk b rd) = enqueue_all n (frames_of ce [b]) (queues ce rd)"
    and "capacities ce (handle_ring_frame ce clk b rd) n"
proof -
  note q = queues_bounded [OF assms]
  note push = array_queue_force_push [of "ce_updates ce"] array_queue_force_push [of "ce_transactions ce"]
    array_queue_force_push [of "ce_slots ce"]
  show "queues ce (handle_ring_frame ce clk b rd) = enqueue_all n (frames_of ce [b]) (queues ce rd)"
    using assms q unfolding consumer_env_ok_def capacities_def
    by (auto simp: handle_ring_frame_def frames_of_def frame_of_def List.map_filter_def queues_def enqueue_all_def push newest_all
        split: result.splits server_frame_with_meta.splits)
  show "capacities ce (handle_ring_frame ce clk b rd) n"
    using assms unfolding consumer_env_ok_def capacities_def
    by (auto simp: handle_ring_frame_def push split: result.splits server_frame_with_meta.splits)
qed

lemma handle_frames_queues:
  assumes "consumer_env_ok ce" and "capacities ce rd n"
  shows "queues ce (handle_frames ce clk k bs rd) = enqueue_all n (frames_of ce bs) (queues ce rd) \<and>
    capacities ce (handle_frames ce clk k bs rd) n"
  using assms(2)
proof (induction bs arbitrary: k rd)
  case Nil
  then show ?case
    using enqueue_all_Nil [OF assms(1)] by (simp add: frames_of_def List.map_filter_def)
next
  case (Cons b bs)
  note step = handle_ring_frame_queues [OF assms(1) Cons.prems, of "clk k" b]
  have "enqueue_all n (frames_of ce bs) (enqueue_all n (frames_of ce [b]) (queues ce rd)) =
      enqueue_all n (frames_of ce (b # bs)) (queues ce rd)"
    using enqueue_all_Nil [OF assms(1) Cons.prems] enqueue_all_Cons
    by (cases "frame_of ce b") (simp_all add: frames_of_def List.map_filter_def)
  with Cons.IH [OF step(2)] step(1) show ?case by simp
qed

text \<open>Every update put into a queue is one sample of each of the four latencies.\<close>

definition enqueued :: "server_frame_with_meta list \<Rightarrow> nat" where
  "enqueued fs = length (List.map_filter account_of fs) + length (List.map_filter transaction_of fs) +
     length (List.map_filter slot_of fs)"

definition samples :: "('u, 't, 's) reader \<Rightarrow> u64 list" where
  "samples rd = map la_count [cm_read (rd_metrics rd), cm_decode (rd_metrics rd), cm_enqueue (rd_metrics rd),
     cm_full_read (rd_metrics rd)]"

lemma handle_ring_frame_samples:
  "samples (handle_ring_frame ce clk b rd) = map ((+) (of_nat (enqueued (frames_of ce [b])))) (samples rd)"
  by (auto simp: samples_def enqueued_def handle_ring_frame_def frames_of_def frame_of_def List.map_filter_def
      record_decode_and_enqueue_def latency_record_def add.commute
      split: result.splits server_frame_with_meta.splits)

lemma handle_frames_samples:
  "samples (handle_frames ce clk k bs rd) = map ((+) (of_nat (enqueued (frames_of ce bs)))) (samples rd)"
proof (induction bs arbitrary: k rd)
  case Nil
  show ?case
    by (simp add: frames_of_def enqueued_def List.map_filter_def)
next
  case (Cons b bs)
  have "enqueued (frames_of ce (b # bs)) = enqueued (frames_of ce bs) + enqueued (frames_of ce [b])"
    by (auto simp: frames_of_def enqueued_def List.map_filter_def)
  then show ?case
    by (simp add: Cons.IH handle_ring_frame_samples comp_def add.assoc)
qed


section \<open>Properties of the reader\<close>

text \<open>
  C11: the reader's drain returns and delivers. Whatever items the ring holds, all frames in front of the
  first close mark are decoded and the updates among them appended to the queue of their kind, in the
  order they were pushed; a full queue loses its oldest entries. Frames that do not decode are
  skipped, every delivered update is one sample of each latency, and the closed flag is set exactly by a close mark.
\<close>

theorem reader_delivers:
  assumes "ring_rep (ce_shaq ce) (p, rd_ring rd, region) items" and "consumer_env_ok ce" and "capacities ce rd n"
  shows "\<exists>rd' region' k. drain_ring ce clk i rd region = Some (rd', region', k) \<and>
    queues ce rd' = enqueue_all n (frames_of ce (open_frames items)) (queues ce rd) \<and> capacities ce rd' n \<and>
    samples rd' = map ((+) (of_nat (enqueued (frames_of ce (open_frames items))))) (samples rd) \<and>
    ring_rep (ce_shaq ce) (p, rd_ring rd', region') (after_close items) \<and>
    rc_closed (rd_ring rd') = (rc_closed (rd_ring rd) \<or> CloseMark \<in> set items)"
proof -
  obtain c' region' where d: "drain_ring ce clk i rd region =
        Some ((handle_frames ce clk i (open_frames items) rd)\<lparr>rd_ring := c'\<rparr>, region', i + length (open_frames items))"
      and "ring_rep (ce_shaq ce) (p, c', region') (after_close items)"
        "rc_closed c' = (rc_closed (rd_ring rd) \<or> CloseMark \<in> set items)"
    using drain_ring_items [OF assms(1) refl] by blast
  moreover have "queues ce (r\<lparr>rd_ring := c'\<rparr>) = queues ce r" "capacities ce (r\<lparr>rd_ring := c'\<rparr>) n = capacities ce r n"
      "samples (r\<lparr>rd_ring := c'\<rparr>) = samples r" for r
    by (simp_all add: queues_def capacities_def samples_def)
  ultimately show ?thesis
    using handle_frames_queues [OF assms(2,3), of clk i "open_frames items"]
      handle_frames_samples [of ce clk i "open_frames items" rd] by simp
qed

definition sample_consumer_env ::
  "(list_queue, nat \<times> account_update list, nat \<times> transaction_update list, nat \<times> slot_update list) consumer_env" where
  "sample_consumer_env = \<lparr>ce_shaq = list_shaq, ce_lz4 = run_length_lz4, ce_wincode = plain_wincode,
     ce_updates = list_array_queue, ce_transactions = list_array_queue, ce_slots = list_array_queue\<rparr>"

definition sample_reader :: "(nat \<times> account_update list, nat \<times> transaction_update list, nat \<times> slot_update list) reader" where
  "sample_reader = \<lparr>rd_ring = \<lparr>rc_capacity = 256, rc_path = ''r'', rc_closed = False\<rparr>, rd_updates = (2048, []),
     rd_transactions = (2048, []), rd_slots = (2048, []), rd_metrics = consumer_metrics_new\<rparr>"

definition slot_frame :: "nat \<Rightarrow> bytes" where
  "slot_frame n = [WIRE_VERSION, SLOT_UPDATE_TAG] @ u64_to_le 5 @ u64_to_le (of_nat n)"

definition two_slots :: list_queue where
  "two_slots = (256, concat (map item_bytes [Frame (slot_frame 1), Frame (slot_frame 2), CloseMark]))"

lemma sample_consumer:
  "consumer_env_ok sample_consumer_env" "capacities sample_consumer_env sample_reader 2048"
  by (simp_all add: consumer_env_ok_def sample_consumer_env_def list_array_queue_ok capacities_def sample_reader_def)
    (simp add: list_array_queue_def)

lemma two_slots_rep:
  "ring_rep (ce_shaq sample_consumer_env) (\<lparr>rp_capacity = 256, rp_path = ''r'', rp_dropped_frames = 0, rp_owns_file = True\<rparr>,
     rd_ring sample_reader, two_slots) [Frame (slot_frame 1), Frame (slot_frame 2), CloseMark]"
  by (simp add: ring_rep_def sample_consumer_env_def list_shaq_ok two_slots_def slot_frame_def) (simp add: list_shaq_def)

lemma slot_frame_decodes:
  "frame_of sample_consumer_env (slot_frame n) =
     Some (SM_SlotUpdate \<lparr>su_slot = of_nat n\<rparr> \<lparr>sender_created_at_unix_nanos = 5\<rparr>)"
  using slot_decode_frame [of 5 "\<lparr>su_slot = of_nat n\<rparr>"]
  by (simp add: frame_of_def slot_frame_def sample_consumer_env_def route_slot)

theorem reader_delivers_witness:
  "\<exists>rd' region' k. drain_ring sample_consumer_env (\<lambda>_. \<lparr>rk_read = 1, rk_decode = 1, rk_enqueue = 1, rk_now = 9000\<rparr>) 0
       sample_reader two_slots = Some (rd', region', k) \<and>
     queues sample_consumer_env rd' = ([], [], [\<lparr>su_slot = 1\<rparr>, \<lparr>su_slot = 2\<rparr>]) \<and> rc_closed (rd_ring rd')"
proof -
  have "queues sample_consumer_env sample_reader = ([], [], [])"
    by (simp add: queues_def sample_consumer_env_def sample_reader_def list_array_queue_def lq_contents_def)
  moreover have "frames_of sample_consumer_env [slot_frame 1, slot_frame 2] =
      [SM_SlotUpdate \<lparr>su_slot = 1\<rparr> \<lparr>sender_created_at_unix_nanos = 5\<rparr>, SM_SlotUpdate \<lparr>su_slot = 2\<rparr> \<lparr>sender_created_at_unix_nanos = 5\<rparr>]"
    using slot_frame_decodes [of 1] slot_frame_decodes [of 2] by (simp add: frames_of_def List.map_filter_def)
  ultimately show ?thesis
    using reader_delivers [OF two_slots_rep sample_consumer, of "\<lambda>_. \<lparr>rk_read = 1, rk_decode = 1, rk_enqueue = 1, rk_now = 9000\<rparr>" 0]
    by (fastforce simp: enqueue_all_def List.map_filter_def newest_def)
qed

text \<open>
  A round of the reader. It drains the ring; if a close mark was read or the ring's file is gone it
  returns; otherwise it sleeps, and when a wakeup is pending at the time it is resumed it goes on with
  the next round from there. A wakeup that arrived before the reader went to sleep counts, so
  nothing published before a notification is left lying in the ring.
\<close>

theorem reader_round:
  assumes "ring_rep (ce_shaq ce) (p, rd_ring (rw_reader w), rw_region w) items" and "\<not> rc_closed (rd_ring (rw_reader w))"
    and "efd_ok ek"
  shows "\<exists>rd region k. drain_ring ce clk i (rw_reader w) (rw_region w) = Some (rd, region, k) \<and>
    (let w1 = w\<lparr>rw_reader := rd, rw_region := region\<rparr>
     in if CloseMark \<in> set items \<or> rc_path (rd_ring (rw_reader w)) \<notin> rw_files w
        then reader_loop ce ek readable clk i w = Some w1
        else \<forall>w2. readable w1 = Inr w2 \<longrightarrow> 0 < ek_count ek (rw_wakeup w2) \<longrightarrow>
          (\<exists>idle. ek_count ek idle = 0 \<and>
             reader_loop ce ek readable clk i w = reader_loop ce ek readable clk k (w2\<lparr>rw_wakeup := idle\<rparr>)))"
proof -
  let ?rd = "rw_reader w"
  obtain rd region k where d: "drain_ring ce clk i ?rd (rw_region w) = Some (rd, region, k)"
      and c: "rc_path (rd_ring rd) = rc_path (rd_ring ?rd)" "rc_closed (rd_ring rd) = (CloseMark \<in> set items)"
    using drain_ring_items [OF assms(1) refl, of clk i] assms(2) by auto
  let ?w = "w\<lparr>rw_reader := rd, rw_region := region\<rparr>"
  have closed: "ring_is_closed (rd_ring rd) (rw_files w) \<longleftrightarrow> CloseMark \<in> set items \<or> rc_path (rd_ring ?rd) \<notin> rw_files w"
    using c by (simp add: ring_is_closed_def)
  have "\<exists>idle. ek_count ek idle = 0 \<and>
      reader_loop ce ek readable clk i w = reader_loop ce ek readable clk k (w2\<lparr>rw_wakeup := idle\<rparr>)"
    if "\<not> ring_is_closed (rd_ring rd) (rw_files w)" "readable ?w = Inr w2" "0 < ek_count ek (rw_wakeup w2)" for w2
  proof -
    obtain r idle where e: "efd_drain ek (rw_wakeup w2) = (r, idle)"
      by force
    note ok = efd_drain_ok [OF assms(3) e]
    have "unat (of_nat (ek_count ek (rw_wakeup w2)) :: u64) = ek_count ek (rw_wakeup w2)"
      using efd_max_bounds(2) [OF ok(3)] by (simp add: unat_of_nat take_bit_nat_eq_self)
    then have "(of_nat (ek_count ek (rw_wakeup w2)) :: u64) \<noteq> 0"
      using that(3) by (metis less_irrefl unsigned_0)
    then have "async_wait readable (world_drain ek) ?w =
        Some (Inr (of_nat (ek_count ek (rw_wakeup w2))), w2\<lparr>rw_wakeup := idle\<rparr>)"
      using that(2) ok(1) e by (subst async_wait.simps) (simp add: world_drain_def)
    then have "reader_loop ce ek readable clk i w = reader_loop ce ek readable clk k (w2\<lparr>rw_wakeup := idle\<rparr>)"
      using d that(1) by (subst reader_loop.simps) simp
    with ok(2) show ?thesis by blast
  qed
  moreover have "reader_loop ce ek readable clk i w = Some ?w" if "ring_is_closed (rd_ring rd) (rw_files w)"
    using d that by (subst reader_loop.simps) simp
  ultimately show ?thesis
    using d closed by (auto simp: Let_def)
qed

theorem reader_round_witness:
  "\<exists>w'. reader_loop sample_consumer_env nat_efd Inr (\<lambda>_. \<lparr>rk_read = 1, rk_decode = 1, rk_enqueue = 1, rk_now = 9000\<rparr>) 0
     \<lparr>rw_reader = sample_reader, rw_region = two_slots, rw_wakeup = 1, rw_files = {''r''}\<rparr> = Some w'"
proof -
  let ?w = "\<lparr>rw_reader = sample_reader, rw_region = two_slots, rw_wakeup = 1, rw_files = {''r''}\<rparr>"
  have rep: "ring_rep (ce_shaq sample_consumer_env) (\<lparr>rp_capacity = 256, rp_path = ''r'', rp_dropped_frames = 0, rp_owns_file = True\<rparr>,
      rd_ring (rw_reader ?w), rw_region ?w) [Frame (slot_frame 1), Frame (slot_frame 2), CloseMark]"
    using two_slots_rep by simp
  have "\<not> rc_closed (rd_ring (rw_reader ?w))"
    by (simp add: sample_reader_def)
  from reader_round [OF rep this nat_efd_ok, of "\<lambda>_. \<lparr>rk_read = 1, rk_decode = 1, rk_enqueue = 1, rk_now = 9000\<rparr>" 0 Inr]
  show ?thesis
    by (auto simp: Let_def)
qed

end
