(* ===== verification/Consumer.thy ===== *)
theory Consumer
  imports Reader Uds
begin

text \<open>
  The consumer handle of \<open>src/consumer/shm.rs\<close>: connecting to a sender, the handshake that yields the
  ring and the wakeup descriptor, further subscriptions and pings on the control socket, and taking
  updates from the queues. The operating system's answers are arguments.
\<close>

section \<open>Source definitions\<close>

record ('u, 't, 's) shm_consumer =
  sc_stream :: uds_stream
  sc_slot_token_index :: u8
  sc_slot_token_generation :: u64
  sc_reader :: "('u, 't, 's) reader"

text \<open>
  What happens while the consumer connects: the connected stream, \<open>SO_NOSIGPIPE\<close>, the received
  handshake, and the ring's file: whether it can be opened, what \<open>shaq\<close> finds in it, and its length. \<open>cn_debug\<close> is the
  derived \<open>Debug\<close> rendering of a frame, which an error message quotes.
\<close>

record 'q connect_env =
  cn_connect :: "string + uds_stream"
  cn_nosigpipe :: "string + unit"
  cn_cloexec :: "nat \<Rightarrow> string option"
  cn_recvmsg :: "nat \<Rightarrow> string + (bytes \<times> cmsg list)"
  cn_fs :: fs_env
  cn_files :: file_system
  cn_join :: "string \<Rightarrow> string + 'q"
  cn_file_len :: "string \<Rightarrow> nat option"
  cn_debug :: "server_frame \<Rightarrow> string"

definition consumer_slot_token :: "('u, 't, 's) shm_consumer \<Rightarrow> slot_token option" where
  "consumer_slot_token sc =
     (if sc_slot_token_index sc = UNSET_SLOT_INDEX then None
      else Some (slot_token_new (sc_slot_token_index sc) (sc_slot_token_generation sc)))"

text \<open>The second half of the setup, once the handshake frame and the descriptor are there.\<close>

definition open_ready ::
  "('q, 'u, 't, 's) consumer_env \<Rightarrow> 'q connect_env \<Rightarrow> consumer_metrics \<Rightarrow> uds_stream \<Rightarrow> bytes \<Rightarrow> nat option \<Rightarrow>
     (('u, 't, 's) shm_consumer \<times> 'q \<times> nat) qresult" where
  "open_ready ce cn metrics stream ready_bytes fd_opt =
     bindR (decode_server_frame (ce_lz4 ce) (ce_wincode ce) ready_bytes) (\<lambda>frame.
     bindR (case frame of
              SF_ConnectionReadyShm r \<Rightarrow> Ok r
            | other \<Rightarrow> Err (UdsError (''expected ConnectionReadyShm, got '' @ cn_debug cn other))) (\<lambda>ready.
     bindR (ok_or (UdsError ''ConnectionReadyShm missing eventfd'') fd_opt) (\<lambda>fd.
     bindR (ring_open (cn_fs cn) (cn_files cn) (cn_join cn (ch_ring_path ready)) (cn_file_len cn (ch_ring_path ready))
              (ch_ring_path ready)) (\<lambda>(ring, region).
       Ok (\<lparr>sc_stream = stream,
            sc_slot_token_index = st_slot_index (ch_slot_token ready),
            sc_slot_token_generation = st_generation (ch_slot_token ready),
            sc_reader = \<lparr>rd_ring = ring,
              rd_updates = aq_new (ce_updates ce) CONSUMER_UPDATE_QUEUE_CAPACITY,
              rd_transactions = aq_new (ce_transactions ce) CONSUMER_UPDATE_QUEUE_CAPACITY,
              rd_slots = aq_new (ce_slots ce) CONSUMER_UPDATE_QUEUE_CAPACITY,
              rd_metrics = metrics\<rparr>\<rparr>, region, fd)))))"

definition setup_shm_consumer_with_metrics ::
  "('q, 'u, 't, 's) consumer_env \<Rightarrow> 'q connect_env \<Rightarrow> consumer_metrics \<Rightarrow> (('u, 't, 's) shm_consumer \<times> 'q \<times> nat) qresult" where
  "setup_shm_consumer_with_metrics ce cn metrics =
     (case cn_connect cn of
        Inl e \<Rightarrow> Err (UdsError (''connect: '' @ e))
      | Inr stream \<Rightarrow>
          (case cn_nosigpipe cn of
             Inl e \<Rightarrow> Err (UdsError (''set SO_NOSIGPIPE: '' @ e))
           | Inr _ \<Rightarrow>
               bindR (subscription_encode (ce_wincode ce) (subscription_new [] [])) (\<lambda>bootstrap.
               bindR (write_framed (ud_out stream) bootstrap) (\<lambda>out.
               bindR (fst (recv_frame_with_fd (cn_cloexec cn) (cn_recvmsg cn))) (\<lambda>(ready_bytes, fd_opt).
                 open_ready ce cn metrics (stream\<lparr>ud_out := out\<rparr>) ready_bytes fd_opt)))))"

definition setup_shm_consumer ::
  "('q, 'u, 't, 's) consumer_env \<Rightarrow> 'q connect_env \<Rightarrow> (('u, 't, 's) shm_consumer \<times> 'q \<times> nat) qresult" where
  "setup_shm_consumer ce cn = setup_shm_consumer_with_metrics ce cn consumer_metrics_new"

text \<open>An error after the request was written leaves the handle's stream where the call stopped.\<close>

definition send_subscription ::
  "('q, 'u, 't, 's) consumer_env \<Rightarrow> ('u, 't, 's) shm_consumer \<Rightarrow> subscription_request \<Rightarrow> unit qresult \<times> ('u, 't, 's) shm_consumer" where
  "send_subscription ce sc request =
     (case bindR (subscription_encode (ce_wincode ce) request) (write_framed (ud_out (sc_stream sc))) of
        Err e \<Rightarrow> (Err e, sc)
      | Panic \<Rightarrow> (Panic, sc)
      | Ok out \<Rightarrow>
          (let sc1 = sc\<lparr>sc_stream := (sc_stream sc)\<lparr>ud_out := out\<rparr>\<rparr>
           in case read_framed (ud_in (sc_stream sc)) of
                Err e \<Rightarrow> (Err e, sc1)
              | Panic \<Rightarrow> (Panic, sc1)
              | Ok (reply, input) \<Rightarrow>
                  (let sc2 = sc1\<lparr>sc_stream := (sc_stream sc1)\<lparr>ud_in := input\<rparr>\<rparr>
                   in case decode_server_frame_owned (ce_lz4 ce) (ce_wincode ce) reply of
                        Err e \<Rightarrow> (Err e, sc2)
                      | Panic \<Rightarrow> (Panic, sc2)
                      | Ok (SF_ConnectionReady ready) \<Rightarrow>
                          (Ok (), sc2\<lparr>sc_slot_token_index := st_slot_index (cr_slot_token ready),
                                      sc_slot_token_generation := st_generation (cr_slot_token ready)\<rparr>)
                      | Ok (SF_ConnectionReadyShm _) \<Rightarrow>
                          (Err (UdsError ''unexpected ConnectionReadyShm on re-subscribe''), sc2)
                      | Ok (SF_AccountUpdate _) \<Rightarrow> (Err (UdsError ''AccountUpdate on UDS control channel''), sc2)
                      | Ok (SF_TransactionUpdate _) \<Rightarrow> (Err (UdsError ''TransactionUpdate on UDS control channel''), sc2)
                      | Ok (SF_SlotUpdate _) \<Rightarrow> (Err (UdsError ''SlotUpdate on UDS control channel''), sc2))))"

definition subscribe ::
  "('q, 'u, 't, 's) consumer_env \<Rightarrow> ('u, 't, 's) shm_consumer \<Rightarrow> pubkey list \<Rightarrow> pubkey list \<Rightarrow> unit qresult \<times> ('u, 't, 's) shm_consumer" where
  "subscribe ce sc account_pubkeys account_owners =
     send_subscription ce sc (with_slot_token (subscription_new account_pubkeys account_owners) (consumer_slot_token sc))"

definition subscribe_transactions ::
  "('q, 'u, 't, 's) consumer_env \<Rightarrow> ('u, 't, 's) shm_consumer \<Rightarrow> unit qresult \<times> ('u, 't, 's) shm_consumer" where
  "subscribe_transactions ce sc = send_subscription ce sc (with_slot_token subscription_transactions (consumer_slot_token sc))"

definition send_ping ::
  "('q, 'u, 't, 's) consumer_env \<Rightarrow> ('u, 't, 's) shm_consumer \<Rightarrow> unit qresult \<times> ('u, 't, 's) shm_consumer" where
  "send_ping ce sc =
     (case consumer_slot_token sc of
        None \<Rightarrow> (Err (MalformedPayload ''cannot send ping before slot token is assigned''), sc)
      | Some token \<Rightarrow>
          (case bindR (ping_encode (ce_wincode ce) \<lparr>pr_slot_token = token\<rparr>) (write_framed (ud_out (sc_stream sc))) of
             Err e \<Rightarrow> (Err e, sc)
           | Panic \<Rightarrow> (Panic, sc)
           | Ok out \<Rightarrow> (Ok (), sc\<lparr>sc_stream := (sc_stream sc)\<lparr>ud_out := out\<rparr>\<rparr>)))"

definition try_next_update ::
  "('q, 'u, 't, 's) consumer_env \<Rightarrow> ('u, 't, 's) shm_consumer \<Rightarrow> account_update option \<times> ('u, 't, 's) shm_consumer" where
  "try_next_update ce sc =
     (case aq_pop (ce_updates ce) (rd_updates (sc_reader sc)) of
        (r, q) \<Rightarrow> (r, sc\<lparr>sc_reader := (sc_reader sc)\<lparr>rd_updates := q\<rparr>\<rparr>))"

definition try_next_transaction ::
  "('q, 'u, 't, 's) consumer_env \<Rightarrow> ('u, 't, 's) shm_consumer \<Rightarrow> transaction_update option \<times> ('u, 't, 's) shm_consumer" where
  "try_next_transaction ce sc =
     (case aq_pop (ce_transactions ce) (rd_transactions (sc_reader sc)) of
        (r, q) \<Rightarrow> (r, sc\<lparr>sc_reader := (sc_reader sc)\<lparr>rd_transactions := q\<rparr>\<rparr>))"

definition try_next_slot ::
  "('q, 'u, 't, 's) consumer_env \<Rightarrow> ('u, 't, 's) shm_consumer \<Rightarrow> slot_update option \<times> ('u, 't, 's) shm_consumer" where
  "try_next_slot ce sc =
     (case aq_pop (ce_slots ce) (rd_slots (sc_reader sc)) of
        (r, q) \<Rightarrow> (r, sc\<lparr>sc_reader := (sc_reader sc)\<lparr>rd_slots := q\<rparr>\<rparr>))"

end
