(* ===== verification/Handshake.thy ===== *)
theory Handshake
  imports Sender_Control Consumer
begin

text \<open>
  The two ends of a control connection together: what \<open>src/consumer/shm.rs\<close> writes is what
  \<open>src/sender/shm.rs\<close> reads, and the other way round. The theorems say what the consumer and the sender
  agree on after the handshake, after a further subscription, and after a ping.
\<close>

section \<open>One request\<close>

definition fresh_stream :: uds_stream where
  "fresh_stream = \<lparr>ud_in = \<lparr>is_bytes = [], is_end = UnexpectedEof\<rparr>, ud_out = \<lparr>os_bytes = [], os_fail = None\<rparr>, ud_attached = []\<rparr>"

text \<open>
  The consumer's operating system while it connects to a sender that has written \<open>s\<close> and has the
  connection \<open>e\<close>: \<open>recvmsg\<close> delivers what \<open>s\<close> carries, the files are the sender's, and the ring's file is
  mapped to the region of \<open>e\<close>.
\<close>

definition connects ::
  "'q connect_env \<Rightarrow> uds_stream \<Rightarrow> file_system \<Rightarrow> ('q, 'k, 'b) managed_connection \<Rightarrow> bool" where
  "connects cn s files e \<longleftrightarrow>
     cn_connect cn = Inr fresh_stream \<and> cn_nosigpipe cn = Inr () \<and> (\<forall>fd. cn_cloexec cn fd = None) \<and>
     (\<forall>n. cn_recvmsg cn n = Inr (take n (os_bytes (ud_out s)), map (\<lambda>(_, fd). ScmRights fd []) (ud_attached s))) \<and>
     cn_files cn = files \<and> fe_open (cn_fs cn) (rp_path (sk_ring (mc_sink e))) = None \<and>
     cn_join cn (rp_path (sk_ring (mc_sink e))) = Inr (sk_region (mc_sink e))"

lemma bootstrap_wf: "wf_subscription wc (subscription_new [] [])"
  by (simp add: wf_subscription_def subscription_new_def)

lemma connection_token_wf: "mc_slot_index e < MAX_CONNECTION_SLOTS \<Longrightarrow> wf_token (connection_token e)"
proof -
  assume i: "mc_slot_index e < MAX_CONNECTION_SLOTS"
  then have "unat (of_nat (mc_slot_index e) :: u8) = mc_slot_index e"
    by (simp add: unat_of_nat take_bit_nat_eq_self const_defs)
  then have "(of_nat (mc_slot_index e) :: u8) \<noteq> 255"
    using i by (auto simp: const_defs)
  then show ?thesis
    by (simp add: wf_token_def connection_token_def slot_token_new_def const_defs)
qed

lemma path_join_not_Nil: "name \<noteq> [] \<Longrightarrow> path_join dir name \<noteq> []"
  by (simp add: path_join_def)

lemma ring_file_name_not_Nil: "ring_file_name pid i cid \<noteq> []"
  by (simp add: ring_file_name_def)

lemma handshake_wf:
  assumes "config_ok env wc cfg" and "i < MAX_CONNECTION_SLOTS" and "mc_slot_index e = i" and "connection_token e = token"
    and "c = of_nat (tc_ring_capacity_bytes cfg)" and "path = path_join (tc_shm_dir cfg) (ring_file_name (se_pid env) i cid)"
  shows "wf_ready_shm wc \<lparr>ch_slot_token = token, ch_ring_path = path, ch_ring_capacity = c\<rparr>"
proof -
  have cap: "tc_ring_capacity_bytes cfg < 2 ^ 64" "0 < tc_ring_capacity_bytes cfg"
    using assms(1) by (simp_all add: config_ok_def)
  then have "unat (of_nat (tc_ring_capacity_bytes cfg) :: u64) = tc_ring_capacity_bytes cfg"
    by (simp add: unat_of_nat take_bit_nat_eq_self)
  then have "c \<noteq> 0"
    using cap(2) unfolding assms(5) by auto
  then show ?thesis
    using assms connection_token_wf [of e] path_join_not_Nil [OF ring_file_name_not_Nil]
    by (auto simp: wf_ready_shm_def config_ok_def)
qed

lemma new_queue:
  assumes "array_queue_ok aq"
  shows "aq_contents aq (aq_new aq CONSUMER_UPDATE_QUEUE_CAPACITY) = []"
    and "aq_capacity aq (aq_new aq CONSUMER_UPDATE_QUEUE_CAPACITY) = CONSUMER_UPDATE_QUEUE_CAPACITY"
  using array_queue_new [OF assms, of CONSUMER_UPDATE_QUEUE_CAPACITY] by (simp_all add: const_defs)

text \<open>The consumer's side of the handshake.\<close>

lemma consumer_opens:
  assumes "wincode_ok (ce_wincode ce)" and "wf_ready_shm (ce_wincode ce) r"
    and "ready_shm_encode (ce_wincode ce) r = Ok enc" and "length enc \<le> 1020"
    and "os_bytes (ud_out s) = framed enc" and "ud_attached s = [(k, fd)]" and "connects cn s files e"
    and "ch_ring_path r = rp_path (sk_ring (mc_sink e))" and "ch_ring_path r \<in> files"
    and "subscription_encode (ce_wincode ce) (subscription_new [] []) = Ok boot" and "length boot < 2 ^ 32"
  shows "\<exists>sc. setup_shm_consumer ce cn = Ok (sc, sk_region (mc_sink e), fd) \<and>
    consumer_slot_token sc = Some (ch_slot_token r) \<and> os_bytes (ud_out (sc_stream sc)) = framed boot \<and>
    rc_path (rd_ring (sc_reader sc)) = ch_ring_path r \<and> \<not> rc_closed (rd_ring (sc_reader sc)) \<and>
    sc_reader sc = \<lparr>rd_ring = rd_ring (sc_reader sc), rd_updates = aq_new (ce_updates ce) CONSUMER_UPDATE_QUEUE_CAPACITY,
      rd_transactions = aq_new (ce_transactions ce) CONSUMER_UPDATE_QUEUE_CAPACITY,
      rd_slots = aq_new (ce_slots ce) CONSUMER_UPDATE_QUEUE_CAPACITY, rd_metrics = consumer_metrics_new\<rparr>"
proof -
  have "length (framed enc) \<le> ANCILLARY_RECV_BUF"
    using assms(4) by (simp add: const_defs)
  then have "fst (recv_frame_with_fd (cn_cloexec cn) (cn_recvmsg cn)) = Ok (enc, Some fd)"
    using assms(4-7) recv_frame_complete [of "cn_recvmsg cn" enc fd "cn_cloexec cn"] by (simp add: connects_def)
  moreover have "decode_server_frame (ce_lz4 ce) (ce_wincode ce) enc = Ok (SF_ConnectionReadyShm r)"
    by (rule routed_ready_shm [OF assms(1,2), of "ce_lz4 ce"]) (use assms(3) in simp)
  moreover have "wf_token (ch_slot_token r)"
    using assms(2) by (simp add: wf_ready_shm_def)
  ultimately show ?thesis
    using assms(7-11) write_framed_eq [of boot "ud_out fresh_stream"]
    by (cases "ch_slot_token r") (auto simp: setup_shm_consumer_def setup_shm_consumer_with_metrics_def connects_def open_ready_def ring_open_def
        fresh_stream_def consumer_slot_token_def wf_token_def slot_token_new_def split: option.splits)
qed


text \<open>The connection a new subscription makes.\<close>

lemma upsert_created:
  assumes "sender_env_ok env" and "mgr_inv env m" and "mg_next_connection_id m \<noteq> - 1"
    and "upsert_shm env now1 clk now2 req dir cap m = Some (Ok (Created token path c p), m')"
  obtains i e where "mg_heap m' p = Some e" and "load_full m' i = Some p" and "i < MAX_CONNECTION_SLOTS"
    and "mc_slot_index e = i" and "connection_token e = token" and "mc_connection_id e = mg_next_connection_id m"
    and "sink_rep (se_shaq env) (mc_sink e) []"
    and "rp_path (sk_ring (mc_sink e)) = path" and "path \<in> mg_files m'" and "c = of_nat cap"
    and "path = path_join dir (ring_file_name (se_pid env) i (mg_next_connection_id m))"
proof (cases rule: upsert_cases [OF assms(1-3), of now1 clk now2 req dir cap])
  case (3 i e m0 m1 fs path')
  let ?m = "m1\<lparr>mg_files := fs\<rparr>"
  have p: "mg_next_ptr m1 = mg_next_ptr m"
    using 3(2,3) by (simp add: quiet_def same_identity_def)
  have eq: "m' = install ?m i e" "p = mg_next_ptr m" "token = connection_token e" "path = path'" "c = of_nat cap"
    using 3(1) assms(4) by simp_all
  have "i < length (mg_connections ?m)"
    using 3(4) mgr_inv_conjuncts(1) [OF quiet_inv [OF 3(3)]] by simp
  then have "load_full m' i = Some p"
    unfolding eq(1) by (simp add: load_install eq(2) p)
  with that [of e i] 3 eq p show thesis by simp
next
  case (2 r m0 m2)
  then have "r = Ok (Created token path c p)"
    using assms(4) by simp
  with 2(4) show thesis by blast
qed (use assms(4) in simp)

text \<open>The sender's side of the handshake.\<close>

lemma sender_offers:
  assumes "decode_client_frame wc boot = Ok (Subscription request)"
    and "upsert_shm env (cc_lookup clk) (cc_slots clk) (cc_stamp clk) request (tc_shm_dir cfg)
           (tc_ring_capacity_bytes cfg) (ss_manager st) = Some (Ok (Created token path c p), m')"
    and "ready_shm_encode wc \<lparr>ch_slot_token = token, ch_ring_path = path, ch_ring_capacity = c\<rparr> = Ok enc"
    and "length enc < 2 ^ 32" and "\<forall>bs. sendmsg bs = Inr (length bs)" and "os_bytes (ud_out s) = []" and "ud_attached s = []"
  shows "\<exists>s' st'. handle_client_frame env wc cfg sendmsg clk boot s st = Some (Ok (), s', st') \<and>
    ss_manager st' = m' \<and> os_bytes (ud_out s') = framed enc \<and> ud_attached s' = [(0, p)]"
  using assms send_frame_complete [where sendmsg = sendmsg, OF assms(4), of s p]
  by (simp add: handle_client_frame_def send_provision_def)

text \<open>A live token is found.\<close>

lemma lookup_live:
  assumes "mgr_inv env m" and "connection_at m i = Some e" and "\<not> is_stale now e"
  obtains p where "lookup_by_token env now m (connection_token e) = (Some p, m)" and "mg_heap m p = Some e"
    and "load_full m (mc_slot_index e) = Some p"
proof -
  obtain p where p: "load_full m i = Some p" "mg_heap m p = Some e"
    using assms(2) by (auto simp: connection_at_def split: option.splits)
  note slot = slot_of_connection [OF assms(1) p]
  have "lookup_by_token env now m (connection_token e) = (Some p, m)"
    using p slot assms(3)
    by (simp add: lookup_by_token_def connection_token_def slot_token_new_def Let_def maybe_cleanup_live)
  with that p slot show thesis by simp
qed

lemma upsert_live:
  assumes "mgr_inv env m" and "connection_at m i = Some e" and "\<not> is_stale now1 e"
    and "sr_slot_token req = Some (connection_token e)"
  obtains p where "mg_heap m p = Some e" and "load_full m (mc_slot_index e) = Some p"
    and "upsert_shm env now1 clk now2 req dir cap m = Some (Ok (Existing (connection_token e)),
      set_connection m p (apply_request (se_bloom env) (e\<lparr>mc_last_seen_ms := now2\<rparr>) req))"
proof -
  obtain p where p: "lookup_by_token env now1 m (connection_token e) = (Some p, m)" "mg_heap m p = Some e"
      "load_full m (mc_slot_index e) = Some p"
    by (rule lookup_live [OF assms(1-3)])
  have "connection_token (apply_request (se_bloom env) (e\<lparr>mc_last_seen_ms := now2\<rparr>) req) = connection_token e"
    by (simp add: connection_token_def apply_request_def)
  with p that assms(4) show thesis
    by (simp add: upsert_shm_def)
qed

text \<open>The consumer's side of a further subscription: a request written, and the reply it reads.\<close>

lemma send_subscription_reply:
  assumes "subscription_encode (ce_wincode ce) req = Ok payload" and "length payload < 2 ^ 32"
    and "os_fail (ud_out (sc_stream sc)) = None" and "is_bytes (ud_in (sc_stream sc)) = framed enc" and "length enc \<le> MAX_FRAME_SIZE"
    and "decode_server_frame_owned (ce_lz4 ce) (ce_wincode ce) enc = Ok frame"
  shows "case frame of
      SF_ConnectionReady r \<Rightarrow> wf_token (cr_slot_token r) \<longrightarrow>
        (\<exists>sc'. send_subscription ce sc req = (Ok (), sc') \<and> consumer_slot_token sc' = Some (cr_slot_token r) \<and>
           os_bytes (ud_out (sc_stream sc')) = os_bytes (ud_out (sc_stream sc)) @ framed payload \<and> is_bytes (ud_in (sc_stream sc')) = [])
    | SF_ConnectionReadyShm r \<Rightarrow>
        (\<exists>sc'. send_subscription ce sc req = (Err (UdsError ''unexpected ConnectionReadyShm on re-subscribe''), sc') \<and>
           consumer_slot_token sc' = consumer_slot_token sc)
    | _ \<Rightarrow> True"
proof -
  have "write_framed (ud_out (sc_stream sc)) payload =
      Ok ((ud_out (sc_stream sc))\<lparr>os_bytes := os_bytes (ud_out (sc_stream sc)) @ framed payload\<rparr>)"
    by (rule write_framed_eq [OF assms(2,3)])
  moreover have "read_framed (ud_in (sc_stream sc)) = Ok (enc, (ud_in (sc_stream sc))\<lparr>is_bytes := []\<rparr>)"
    by (rule read_framed_eq) (use assms(4,5) in simp_all)
  ultimately show ?thesis
    using assms(1,6)
    by (cases frame) (auto simp: send_subscription_def consumer_slot_token_def wf_token_def slot_token_new_def)
qed

lemma sender_acknowledges:
  assumes "decode_client_frame wc payload = Ok (Subscription req)"
    and "upsert_shm env (cc_lookup clk) (cc_slots clk) (cc_stamp clk) req (tc_shm_dir cfg)
           (tc_ring_capacity_bytes cfg) (ss_manager st) = Some (Ok (Existing token), m')"
    and "ready_encode wc \<lparr>cr_slot_token = token\<rparr> = Ok enc" and "length enc < 2 ^ 32" and "ud_out s = \<lparr>os_bytes = [], os_fail = None\<rparr>"
  shows "\<exists>s' st'. handle_client_frame env wc cfg sendmsg clk payload s st = Some (Ok (), s', st') \<and>
    ss_manager st' = m' \<and> os_bytes (ud_out s') = framed enc"
  using assms by (simp add: handle_client_frame_def send_provision_def write_framed_eq)


section \<open>Properties of the control connection\<close>

text \<open>
  C10: the handshake. A consumer connects to a sender that has a slot for it. The sender handles the
  bootstrap frame the consumer writes; what it sends back lets the consumer open the new connection's
  ring and wakeup, and both sides then agree: the consumer's token is the token of the connection in
  the slot, the descriptor it got is that connection's, its ring is the connection's ring, empty and
  open, and its queues are empty.
\<close>

theorem handshake_agreement:
  assumes "sender_env_ok env" and "mgr_inv env (ss_manager st)" and "mg_next_connection_id (ss_manager st) \<noteq> - 1"
    and "wincode_ok (ce_wincode ce)" and "config_ok env (ce_wincode ce) cfg" and "consumer_env_ok ce"
    and "subscription_encode (ce_wincode ce) (subscription_new [] []) = Ok boot" and "length boot \<le> MAX_FRAME_SIZE"
    and "upsert_shm env (cc_lookup clk) (cc_slots clk) (cc_stamp clk) (subscription_new [] []) (tc_shm_dir cfg)
           (tc_ring_capacity_bytes cfg) (ss_manager st) = Some (Ok (Created token path c p), m')"
    and "ready_shm_encode (ce_wincode ce) \<lparr>ch_slot_token = token, ch_ring_path = path, ch_ring_capacity = c\<rparr> = Ok enc"
    and "length enc \<le> 1020" and "\<forall>bs. sendmsg bs = Inr (length bs)"
  shows "\<exists>e s' st'. handle_client_frame env (ce_wincode ce) cfg sendmsg clk boot fresh_stream st = Some (Ok (), s', st') \<and>
    ss_manager st' = m' \<and> mg_heap m' p = Some e \<and> connection_at m' (mc_slot_index e) = Some e \<and> connection_token e = token \<and>
    (\<forall>cn. connects cn s' (mg_files m') e \<longrightarrow>
      (\<exists>sc. setup_shm_consumer ce cn = Ok (sc, sk_region (mc_sink e), p) \<and>
         os_bytes (ud_out (sc_stream sc)) = framed boot \<and> consumer_slot_token sc = Some token \<and>
         ring_rep (se_shaq env) (sk_ring (mc_sink e), rd_ring (sc_reader sc), sk_region (mc_sink e)) [] \<and>
         \<not> ring_is_closed (rd_ring (sc_reader sc)) (mg_files m') \<and>
         queues ce (sc_reader sc) = ([], [], []) \<and> capacities ce (sc_reader sc) CONSUMER_UPDATE_QUEUE_CAPACITY))"
proof -
  let ?wc = "ce_wincode ce"
  let ?r = "\<lparr>ch_slot_token = token, ch_ring_path = path, ch_ring_capacity = c\<rparr>"
  obtain i e where e: "mg_heap m' p = Some e" "load_full m' i = Some p" "i < MAX_CONNECTION_SLOTS" "mc_slot_index e = i"
      "connection_token e = token" "sink_rep (se_shaq env) (mc_sink e) []" "rp_path (sk_ring (mc_sink e)) = path"
      "path \<in> mg_files m'" "c = of_nat (tc_ring_capacity_bytes cfg)"
      "path = path_join (tc_shm_dir cfg) (ring_file_name (se_pid env) i (mg_next_connection_id (ss_manager st)))"
    by (rule upsert_created [OF assms(1-3,9)])
  have dec: "decode_client_frame ?wc boot = Ok (Subscription (subscription_new [] []))"
    by (rule routed_subscription [OF assms(4) bootstrap_wf]) (use assms(7) in simp)
  have small: "length enc < 2 ^ 32" "length boot < 2 ^ 32"
    using assms(8,11) by (simp_all add: const_defs)
  obtain s' st' where s': "handle_client_frame env ?wc cfg sendmsg clk boot fresh_stream st = Some (Ok (), s', st')"
      "ss_manager st' = m'" "os_bytes (ud_out s') = framed enc" "ud_attached s' = [(0, p)]"
    using sender_offers [OF dec assms(9,10) small(1) assms(12), of fresh_stream] by (auto simp: fresh_stream_def)
  have wf: "wf_ready_shm ?wc ?r"
    by (rule handshake_wf [OF assms(5) e(3-5,9,10)])
  have "\<exists>sc. setup_shm_consumer ce cn = Ok (sc, sk_region (mc_sink e), p) \<and>
         os_bytes (ud_out (sc_stream sc)) = framed boot \<and> consumer_slot_token sc = Some token \<and>
         ring_rep (se_shaq env) (sk_ring (mc_sink e), rd_ring (sc_reader sc), sk_region (mc_sink e)) [] \<and>
         \<not> ring_is_closed (rd_ring (sc_reader sc)) (mg_files m') \<and>
         queues ce (sc_reader sc) = ([], [], []) \<and> capacities ce (sc_reader sc) CONSUMER_UPDATE_QUEUE_CAPACITY"
    if cn: "connects cn s' (mg_files m') e" for cn
  proof -
    obtain sc where sc: "setup_shm_consumer ce cn = Ok (sc, sk_region (mc_sink e), p)" "consumer_slot_token sc = Some token"
        "os_bytes (ud_out (sc_stream sc)) = framed boot" "rc_path (rd_ring (sc_reader sc)) = path"
        "\<not> rc_closed (rd_ring (sc_reader sc))"
      and rd: "sc_reader sc = \<lparr>rd_ring = rd_ring (sc_reader sc), rd_updates = aq_new (ce_updates ce) CONSUMER_UPDATE_QUEUE_CAPACITY,
        rd_transactions = aq_new (ce_transactions ce) CONSUMER_UPDATE_QUEUE_CAPACITY,
        rd_slots = aq_new (ce_slots ce) CONSUMER_UPDATE_QUEUE_CAPACITY, rd_metrics = consumer_metrics_new\<rparr>"
      using consumer_opens [OF assms(4) wf assms(10,11) s'(3,4) cn _ _ assms(7) small(2)] e(7,8) by auto
    have "queues ce (sc_reader sc) = ([], [], [])" "capacities ce (sc_reader sc) CONSUMER_UPDATE_QUEUE_CAPACITY"
      using assms(6) by (subst rd; simp add: queues_def capacities_def consumer_env_ok_def new_queue)+
    moreover have "ring_rep (se_shaq env) (sk_ring (mc_sink e), rd_ring (sc_reader sc), sk_region (mc_sink e)) []"
      using e(6) by (simp add: sink_rep_def)
    ultimately show ?thesis
      using sc e(8) by (intro exI [of _ sc]) (simp add: ring_is_closed_def)
  qed
  with s' e show ?thesis
    by (intro exI [of _ e] exI [of _ s'] exI [of _ st']) (simp add: connection_at_def)
qed


definition sample_clock :: control_clock where
  "sample_clock = \<lparr>cc_lookup = 1000, cc_slots = \<lambda>_. 1000, cc_stamp = 1000, cc_received = 0\<rparr>"

definition idle_state :: "(list_queue, nat, bytes list) sender_state" where
  "idle_state = \<lparr>ss_manager = manager_new {}, ss_bloom_updates_tx = None, ss_forwarded = [], ss_metrics = sender_metrics_new\<rparr>"

lemma sample_bootstrap:
  obtains boot where "subscription_encode plain_wincode (subscription_new [] []) = Ok boot" and "length boot \<le> MAX_FRAME_SIZE"
  by (simp add: subscription_encode_def plain_wincode_def plain_ser_subscription_def subscription_new_def put_keys_def const_defs)

lemma sample_ready:
  obtains enc where "ready_shm_encode plain_wincode \<lparr>ch_slot_token = slot_token_new 0 1, ch_ring_path = ''/dev/shm/7-0-1'',
      ch_ring_capacity = 256\<rparr> = Ok enc" and "length enc \<le> 1020"
  by (simp add: ready_shm_encode_def plain_wincode_def plain_ser_ready_shm_def)

theorem handshake_agreement_witness:
  "\<exists>boot s' st' cn sc. handle_client_frame sample_env plain_wincode sample_config (\<lambda>bs. Inr (length bs)) sample_clock boot
       fresh_stream idle_state = Some (Ok (), s', st') \<and>
     setup_shm_consumer sample_consumer_env cn = Ok (sc, (256, []), 0) \<and> consumer_slot_token sc = Some (slot_token_new 0 1)"
proof -
  let ?ce = sample_consumer_env and ?cfg = sample_config and ?send = "\<lambda>bs :: bytes. Inr (length bs) :: string + nat"
  let ?boot = "subscription_new [] []"
  have st: "ss_manager idle_state = manager_new {}" "ce_wincode ?ce = plain_wincode"
    by (simp_all add: idle_state_def sample_consumer_env_def)
  have inv: "mgr_inv sample_env (ss_manager idle_state)" "mg_next_connection_id (ss_manager idle_state) \<noteq> - 1"
    unfolding st using inv_new by (simp_all add: manager_new_def)
  have wc: "wincode_ok (ce_wincode ?ce)" "config_ok sample_env (ce_wincode ?ce) ?cfg"
    unfolding st using plain_wincode_ok sample_config_ok by simp_all
  have up: "upsert_shm sample_env (cc_lookup sample_clock) (cc_slots sample_clock) (cc_stamp sample_clock) ?boot
      (tc_shm_dir ?cfg) (tc_ring_capacity_bytes ?cfg) (ss_manager idle_state) =
      Some (Ok (Created (slot_token_new 0 1) ''/dev/shm/7-0-1'' 256 0),
        sample_manager\<lparr>mg_heap := [0 \<mapsto> sample_connection\<lparr>mc_filter := filter_from_request first_byte_bloom ?boot\<rparr>]\<rparr>)"
    using sample_created [of ?boot] by (simp add: st sample_clock_def sample_config_def subscription_new_def)
  obtain boot where boot: "subscription_encode (ce_wincode ?ce) ?boot = Ok boot" "length boot \<le> MAX_FRAME_SIZE"
    unfolding st by (rule sample_bootstrap)
  obtain enc where enc: "ready_shm_encode (ce_wincode ?ce) \<lparr>ch_slot_token = slot_token_new 0 1,
      ch_ring_path = ''/dev/shm/7-0-1'', ch_ring_capacity = 256\<rparr> = Ok enc" "length enc \<le> 1020"
    unfolding st by (rule sample_ready)
  let ?m = "sample_manager\<lparr>mg_heap := [0 \<mapsto> sample_connection\<lparr>mc_filter := filter_from_request first_byte_bloom ?boot\<rparr>]\<rparr>"
  obtain e s' st' where
    h: "handle_client_frame sample_env (ce_wincode ?ce) ?cfg ?send sample_clock boot fresh_stream idle_state = Some (Ok (), s', st')"
      and m: "mg_heap ?m 0 = Some e"
      and cn: "\<forall>cn. connects cn s' (mg_files ?m) e \<longrightarrow>
        (\<exists>sc. setup_shm_consumer ?ce cn = Ok (sc, sk_region (mc_sink e), 0) \<and> consumer_slot_token sc = Some (slot_token_new 0 1))"
    using handshake_agreement [OF sample_env_ok inv wc sample_consumer(1) boot up enc, of ?send] by blast
  have e: "sk_region (mc_sink e) = (256, [])"
    using m by (auto simp: sample_connection_def)
  let ?cn = "\<lparr>cn_connect = Inr fresh_stream, cn_nosigpipe = Inr (), cn_cloexec = \<lambda>_. None,
    cn_recvmsg = \<lambda>n. Inr (take n (os_bytes (ud_out s')), map (\<lambda>(_, fd). ScmRights fd []) (ud_attached s')),
    cn_fs = \<lparr>fe_create_dir = \<lambda>_. None, fe_open = \<lambda>_. None\<rparr>, cn_files = mg_files ?m,
    cn_join = \<lambda>_. Inr (sk_region (mc_sink e)), cn_file_len = \<lambda>_. None, cn_debug = \<lambda>_. []\<rparr>"
  have "connects ?cn s' (mg_files ?m) e"
    by (simp add: connects_def)
  with cn h e show ?thesis
    unfolding st by metis
qed

text \<open>
  C29: a further subscription. A consumer whose token is live subscribes to more keys. The sender's
  connection then matches what it matched before and what was asked for now, and nothing else
  changed at the sender but its timestamp; the consumer's call succeeds and keeps its token.
\<close>

theorem resubscribe_agreement:
  assumes "sender_env_ok env" and "mgr_inv env (ss_manager st)" and "wincode_ok (ce_wincode ce)"
    and "connection_at (ss_manager st) i = Some e" and "\<not> is_stale (cc_lookup clk) e" and "consumer_slot_token sc = Some (connection_token e)"
    and "req = with_slot_token (subscription_new keys owners) (consumer_slot_token sc)" and "wf_subscription (ce_wincode ce) req"
    and "subscription_encode (ce_wincode ce) req = Ok payload" and "length payload \<le> MAX_FRAME_SIZE"
    and "ready_encode (ce_wincode ce) \<lparr>cr_slot_token = connection_token e\<rparr> = Ok enc" and "length enc \<le> MAX_FRAME_SIZE"
    and "ud_out s = \<lparr>os_bytes = [], os_fail = None\<rparr>" and "os_fail (ud_out (sc_stream sc)) = None"
  shows "\<exists>s' st'. handle_client_frame env (ce_wincode ce) cfg sendmsg clk payload s st = Some (Ok (), s', st') \<and>
    refreshes env (cc_lookup clk) (cc_stamp clk) req (connection_token e) (ss_manager st) (ss_manager st') \<and>
    (is_bytes (ud_in (sc_stream sc)) = os_bytes (ud_out s') \<longrightarrow>
      (\<exists>sc'. subscribe ce sc keys owners = (Ok (), sc') \<and> consumer_slot_token sc' = Some (connection_token e) \<and>
         os_bytes (ud_out (sc_stream sc')) = os_bytes (ud_out (sc_stream sc)) @ framed payload \<and>
         is_bytes (ud_in (sc_stream sc')) = []))"
proof -
  let ?wc = "ce_wincode ce" and ?m = "ss_manager st"
  have token: "sr_slot_token req = Some (connection_token e)"
    using assms(6,7) by (simp add: with_slot_token_def)
  obtain p where p: "mg_heap ?m p = Some e" "load_full ?m (mc_slot_index e) = Some p"
    "upsert_shm env (cc_lookup clk) (cc_slots clk) (cc_stamp clk) req (tc_shm_dir cfg) (tc_ring_capacity_bytes cfg) ?m =
      Some (Ok (Existing (connection_token e)),
        set_connection ?m p (apply_request (se_bloom env) (e\<lparr>mc_last_seen_ms := cc_stamp clk\<rparr>) req))"
    by (rule upsert_live [OF assms(2,4,5) token])
  have dec: "decode_client_frame ?wc payload = Ok (Subscription req)"
    by (rule routed_subscription [OF assms(3,8)]) (use assms(9) in simp)
  have small: "length enc < 2 ^ 32" "length payload < 2 ^ 32"
    using assms(10,12) by (simp_all add: const_defs)
  obtain s' st' where s': "handle_client_frame env ?wc cfg sendmsg clk payload s st = Some (Ok (), s', st')"
      "ss_manager st' = set_connection ?m p (apply_request (se_bloom env) (e\<lparr>mc_last_seen_ms := cc_stamp clk\<rparr>) req)"
      "os_bytes (ud_out s') = framed enc"
    using sender_acknowledges [OF dec p(3) assms(11) small(1) assms(13)] by blast
  have bl: "bloom_ok (se_bloom env)"
    using assms(1) by (simp add: sender_env_ok_def)
  have "mc_slot_index e < MAX_CONNECTION_SLOTS"
    using mgr_inv_heap(1) [OF assms(2) p(1)] by (simp add: conn_ok_def)
  then have wf: "wf_token (cr_slot_token \<lparr>cr_slot_token = connection_token e\<rparr>)"
    using connection_token_wf by simp
  have reply: "decode_server_frame_owned (ce_lz4 ce) ?wc enc = Ok (SF_ConnectionReady \<lparr>cr_slot_token = connection_token e\<rparr>)"
    by (rule routed_ready [OF assms(3) wf, of "ce_lz4 ce"]) (use assms(11) in simp)
  have "\<exists>sc'. subscribe ce sc keys owners = (Ok (), sc') \<and> consumer_slot_token sc' = Some (connection_token e) \<and>
      os_bytes (ud_out (sc_stream sc')) = os_bytes (ud_out (sc_stream sc)) @ framed payload \<and> is_bytes (ud_in (sc_stream sc')) = []"
    if "is_bytes (ud_in (sc_stream sc)) = os_bytes (ud_out s')"
    using send_subscription_reply [OF assms(9) small(2) assms(14) _ assms(12) reply] that s'(3) wf
    by (auto simp: subscribe_def assms(7))
  with s' refreshes_intro [OF bl assms(2) p(1,2) token assms(5), of "cc_stamp clk"] show ?thesis
    by auto
qed


definition sample_handle ::
  "bytes \<Rightarrow> (nat \<times> account_update list, nat \<times> transaction_update list, nat \<times> slot_update list) shm_consumer" where
  "sample_handle reply = \<lparr>sc_stream = fresh_stream\<lparr>ud_in := \<lparr>is_bytes = reply, is_end = UnexpectedEof\<rparr>\<rparr>,
     sc_slot_token_index = 0, sc_slot_token_generation = 1, sc_reader = sample_reader\<rparr>"

lemma sample_handle_token: "consumer_slot_token (sample_handle reply) = Some (slot_token_new 0 1)"
  by (simp add: consumer_slot_token_def sample_handle_def const_defs)

lemma sample_more:
  assumes "req = with_slot_token (subscription_new [key_of 2] []) (consumer_slot_token (sample_handle reply))"
  shows "wf_subscription plain_wincode req" and "\<exists>bs. subscription_encode plain_wincode req = Ok bs \<and> length bs \<le> MAX_FRAME_SIZE"
  using assms unfolding sample_handle_token
  by (simp_all add: wf_subscription_def with_slot_token_def subscription_new_def wf_token_def wf_pubkey_def slot_token_new_def
      const_defs plain_wincode_def key_of_def subscription_encode_def plain_ser_subscription_def put_keys_def)

theorem resubscribe_agreement_witness:
  "\<exists>reply sc'. subscribe sample_consumer_env (sample_handle reply) [key_of 2] [] = (Ok (), sc') \<and>
     consumer_slot_token sc' = Some (slot_token_new 0 1)"
proof -
  let ?ce = sample_consumer_env and ?send = "\<lambda>bs :: bytes. Inr (length bs) :: string + nat"
  let ?t = "slot_token_new 0 1"
  have wc: "ce_wincode ?ce = plain_wincode" "wincode_ok (ce_wincode ?ce)"
    by (simp_all add: sample_consumer_env_def plain_wincode_ok)
  have inv: "mgr_inv sample_env (ss_manager sample_state)"
    using sample_inv by (simp add: sample_state_def)
  have at: "connection_at (ss_manager sample_state) 0 = Some sample_connection"
      "\<not> is_stale (cc_lookup sample_clock) sample_connection" "connection_token sample_connection = ?t"
    by (simp_all add: connection_at_def load_full_def sample_state_def sample_manager_def connection_token_def is_stale_def
        sat_sub_def sample_connection_def const_defs sample_clock_def)
  obtain enc where enc: "ready_encode (ce_wincode ?ce) \<lparr>cr_slot_token = connection_token sample_connection\<rparr> = Ok enc"
      "length enc \<le> MAX_FRAME_SIZE"
    by (simp add: wc ready_encode_def plain_wincode_def plain_ser_ready_def const_defs)
  define req where "req = with_slot_token (subscription_new [key_of 2] []) (Some ?t)"
  then have req: "req = with_slot_token (subscription_new [key_of 2] []) (consumer_slot_token (sample_handle reply))" for reply
    by (simp add: sample_handle_token)
  obtain payload where p: "wf_subscription (ce_wincode ?ce) req" "subscription_encode (ce_wincode ?ce) req = Ok payload"
      "length payload \<le> MAX_FRAME_SIZE"
    using sample_more [OF req] unfolding wc by blast
  have sc: "consumer_slot_token (sample_handle reply) = Some (connection_token sample_connection)"
      "os_fail (ud_out (sc_stream (sample_handle reply))) = None" for reply
    using at(3) sample_handle_token by (simp_all add: sample_handle_def fresh_stream_def)
  have out: "ud_out fresh_stream = \<lparr>os_bytes = [], os_fail = None\<rparr>"
    by (simp add: fresh_stream_def)
  note agree = resubscribe_agreement [where cfg = sample_config and sendmsg = ?send, OF sample_env_ok inv wc(2) at(1,2)
      sc(1) req p enc out sc(2)]
  obtain s' st' where h: "handle_client_frame sample_env (ce_wincode ?ce) sample_config ?send sample_clock payload fresh_stream
        sample_state = Some (Ok (), s', st')"
    using agree by blast
  then have "is_bytes (ud_in (sc_stream (sample_handle (os_bytes (ud_out s'))))) = os_bytes (ud_out s')"
    by (simp add: sample_handle_def)
  with agree [of "os_bytes (ud_out s')"] h at(3) show ?thesis
    by auto
qed



text \<open>The sample sender after its connection was removed.\<close>

definition gone_manager :: "(list_queue, nat, bytes list) connection_manager" where
  "gone_manager = sample_manager\<lparr>mg_connections := replicate 10 None, mg_files := {}\<rparr>"

lemma load_gone: "load_full gone_manager i = None"
  by (simp add: load_full_def gone_manager_def)

lemma gone_inv: "mgr_inv sample_env gone_manager"
  using sample_inv load_gone unfolding mgr_inv_def by (simp add: gone_manager_def const_defs)

lemma gone_created:
  assumes "sr_slot_token req = Some (slot_token_new 0 1)"
  obtains m' where "upsert_shm sample_env 1000 (\<lambda>_. 1000) 1000 req ''/dev/shm'' 256 gone_manager =
    Some (Ok (Created (slot_token_new 0 2) ''/dev/shm/7-0-2'' 256 1), m')"
proof -
  let ?m = "gone_manager\<lparr>mg_next_connection_id := 3\<rparr>"
  have free: "find_free_slot sample_env (\<lambda>_. 1000) ?m = (Some 0, ?m)" and slot: "load_full ?m 0 = None"
    using load_gone [of 0] by (simp_all add: find_free_slot_def const_defs upt_rec)
  have "char_of (50 :: nat) = CHR ''2''"
    by code_simp
  then have path: "''/dev/shm/7-0-2'' = path_join ''/dev/shm'' (ring_file_name (se_pid sample_env) 0 2)"
    by (simp add: path_join_def ring_file_name_def sample_env_def show_nat.simps digit_chars)
  have ring: "ring_create (se_shaq sample_env) (se_fs sample_env) (mg_files ?m) ''/dev/shm/7-0-2'' 256 =
      (Ok (\<lparr>rp_capacity = 256, rp_path = ''/dev/shm/7-0-2'', rp_dropped_frames = 0, rp_owns_file = True\<rparr>,
        (256, [])), {''/dev/shm/7-0-2''})"
    by (simp add: ring_create_def sample_env_def gone_manager_def list_shaq_def next_power_of_two_def next_power_from.simps)
  have "se_eventfd sample_env = Inr 0"
    by (simp add: sample_env_def)
  note created = install_loop_created [OF free slot path ring this]
  have "lookup_by_token sample_env 1000 gone_manager (slot_token_new 0 1) = (None, gone_manager)"
    by (simp add: lookup_by_token_def load_gone Let_def)
  then have "upsert_shm sample_env 1000 (\<lambda>_. 1000) 1000 req ''/dev/shm'' 256 gone_manager =
      install_loop sample_env (\<lambda>_. 1000) 1000 (filter_from_request first_byte_bloom req) 2 ''/dev/shm'' 256 ?m"
    by (simp add: upsert_shm_def assms) (simp add: gone_manager_def sample_manager_def sample_env_def)
  then show thesis
    unfolding created using that by (simp add: gone_manager_def sample_manager_def)
qed


end
