(* ===== verification/Sender_Setup.thy ===== *)
theory Sender_Setup
  imports Sender_Control
begin

text \<open>
  The entry points of \<open>src/sender/mod.rs\<close>: the \<open>setup_sender\<close> functions bind the control socket and spawn
  one dispatcher task per update stream; \<open>run\<close> serves the control socket. A dispatcher takes updates
  from a broadcast channel until it is closed and survives lagging behind.
\<close>

section \<open>Setup\<close>

datatype dispatcher_task = Account_Dispatcher | Transaction_Dispatcher | Slot_Dispatcher

record ('q, 'k, 'b) qlaster_sender =
  qs_state :: "('q, 'k, 'b) sender_state"
  qs_shm_listener :: transport_config
  qs_tasks :: "dispatcher_task list"

text \<open>
  \<open>transaction_updates\<close> and \<open>slot_updates\<close> say whether the stream is given; \<open>qs_tasks\<close> are the tasks that
  were spawned.
\<close>

definition setup_sender_with_streams ::
  "listener_env \<Rightarrow> transport_config \<Rightarrow> bool \<Rightarrow> bool \<Rightarrow> bool option \<Rightarrow> sender_metrics \<Rightarrow> file_system \<Rightarrow>
     ('q, 'k, 'b) qlaster_sender qresult \<times> file_system" where
  "setup_sender_with_streams le config transaction_updates slot_updates bloom_updates_tx metrics fs =
     (case bind_listener le config fs of
        (Err e, fs') \<Rightarrow> (Err e, fs')
      | (Panic, fs') \<Rightarrow> (Panic, fs')
      | (Ok shm_listener, fs') \<Rightarrow>
          (Ok \<lparr>qs_state = \<lparr>ss_manager = manager_new fs', ss_bloom_updates_tx = bloom_updates_tx, ss_forwarded = [],
                           ss_metrics = metrics\<rparr>,
               qs_shm_listener = shm_listener,
               qs_tasks = [Account_Dispatcher] @
                 (if transaction_updates then [Transaction_Dispatcher] else []) @
                 (if slot_updates then [Slot_Dispatcher] else [])\<rparr>, fs'))"

definition setup_sender_with_transactions ::
  "listener_env \<Rightarrow> transport_config \<Rightarrow> bool \<Rightarrow> bool option \<Rightarrow> sender_metrics \<Rightarrow> file_system \<Rightarrow>
     ('q, 'k, 'b) qlaster_sender qresult \<times> file_system" where
  "setup_sender_with_transactions le config transaction_updates bloom_updates_tx metrics fs =
     setup_sender_with_streams le config transaction_updates False bloom_updates_tx metrics fs"

definition setup_sender ::
  "listener_env \<Rightarrow> transport_config \<Rightarrow> bool option \<Rightarrow> sender_metrics \<Rightarrow> file_system \<Rightarrow>
     ('q, 'k, 'b) qlaster_sender qresult \<times> file_system" where
  "setup_sender le config bloom_updates_tx metrics fs =
     setup_sender_with_transactions le config False bloom_updates_tx metrics fs"


section \<open>The dispatcher tasks\<close>

text \<open>
  What \<open>broadcast::Receiver::recv\<close> returns. A dispatcher is suspended in it; \<open>others n\<close> is what the other
  tasks do before it returns for the \<open>n\<close>-th time. The list is what has been received so far, and
  the flag in the result says whether the task has ended.
\<close>

datatype 'u recv_result = Received 'u | Lagged u64 | Closed

primrec dispatcher ::
  "(nat \<Rightarrow> 'u \<Rightarrow> 's \<Rightarrow> 's) \<Rightarrow> (nat \<Rightarrow> 's \<Rightarrow> 's) \<Rightarrow> nat \<Rightarrow> 'u recv_result list \<Rightarrow> 's \<Rightarrow> 's \<times> bool" where
  "dispatcher dispatch others n [] st = (st, False)"
| "dispatcher dispatch others n (received # rest) st =
     (case received of
        Received update \<Rightarrow> dispatcher dispatch others (Suc n) rest (dispatch n update (others n st))
      | Lagged skipped \<Rightarrow> dispatcher dispatch others (Suc n) rest (others n st)
      | Closed \<Rightarrow> (others n st, True))"

text \<open>The clock readings of one dispatch.\<close>

record dispatch_clock =
  dc_slots :: "nat \<Rightarrow> u64"
  dc_pushed :: "nat \<Rightarrow> u64"
  dc_start :: u64
  dc_finish :: u64
  dc_frame_start :: u64
  dc_unix_nanos :: u64

definition on_manager ::
  "(('q, 'k, 'b) connection_manager \<times> sender_metrics \<Rightarrow> ('q, 'k, 'b) connection_manager \<times> sender_metrics) \<Rightarrow>
     ('q, 'k, 'b) sender_state \<Rightarrow> ('q, 'k, 'b) sender_state" where
  "on_manager f st = (case f (ss_manager st, ss_metrics st) of (m, metrics) \<Rightarrow> st\<lparr>ss_manager := m, ss_metrics := metrics\<rparr>)"

definition account_dispatcher ::
  "('q, 'k, 'b) sender_env \<Rightarrow> (nat \<Rightarrow> dispatch_clock) \<Rightarrow> (nat \<Rightarrow> ('q, 'k, 'b) sender_state \<Rightarrow> ('q, 'k, 'b) sender_state) \<Rightarrow>
     account_update recv_result list \<Rightarrow> ('q, 'k, 'b) sender_state \<Rightarrow> ('q, 'k, 'b) sender_state \<times> bool" where
  "account_dispatcher env clk others =
     dispatcher (\<lambda>n update. on_manager (dispatch_account_update env (dc_slots (clk n)) (dc_pushed (clk n)) (dc_start (clk n))
       (dc_finish (clk n)) (dc_frame_start (clk n)) (dc_unix_nanos (clk n)) update)) others 0"

definition transaction_dispatcher ::
  "('q, 'k, 'b) sender_env \<Rightarrow> (nat \<Rightarrow> dispatch_clock) \<Rightarrow> (nat \<Rightarrow> ('q, 'k, 'b) sender_state \<Rightarrow> ('q, 'k, 'b) sender_state) \<Rightarrow>
     transaction_update recv_result list \<Rightarrow> ('q, 'k, 'b) sender_state \<Rightarrow> ('q, 'k, 'b) sender_state \<times> bool" where
  "transaction_dispatcher env clk others =
     dispatcher (\<lambda>n update. on_manager (dispatch_transaction_update env (dc_slots (clk n)) (dc_pushed (clk n)) (dc_start (clk n))
       (dc_finish (clk n)) (dc_frame_start (clk n)) (dc_unix_nanos (clk n)) update)) others 0"

definition slot_dispatcher ::
  "('q, 'k, 'b) sender_env \<Rightarrow> (nat \<Rightarrow> dispatch_clock) \<Rightarrow> (nat \<Rightarrow> ('q, 'k, 'b) sender_state \<Rightarrow> ('q, 'k, 'b) sender_state) \<Rightarrow>
     slot_update recv_result list \<Rightarrow> ('q, 'k, 'b) sender_state \<Rightarrow> ('q, 'k, 'b) sender_state \<times> bool" where
  "slot_dispatcher env clk others =
     dispatcher (\<lambda>n update. on_manager (dispatch_slot_update env (dc_slots (clk n)) (dc_pushed (clk n)) (dc_start (clk n))
       (dc_finish (clk n)) (dc_frame_start (clk n)) (dc_unix_nanos (clk n)) update)) others 0"

text \<open>\<open>QlasterSender::run\<close>: the accept loop, until \<open>accept\<close> fails.\<close>

definition sender_run ::
  "('q, 'k, 'b) qlaster_sender \<Rightarrow> (string + 'c \<times> (string + unit)) list \<Rightarrow> 'c list \<times> unit qresult option" where
  "sender_run sender accepted = run_listener accepted"


section \<open>What a dispatcher does\<close>

text \<open>The updates a dispatcher sees: those received before the channel was closed, with their positions.\<close>

primrec served :: "nat \<Rightarrow> 'u recv_result list \<Rightarrow> (nat \<times> 'u) list" where
  "served n [] = []"
| "served n (received # rest) =
     (case received of Received u \<Rightarrow> (n, u) # served (Suc n) rest | Lagged _ \<Rightarrow> served (Suc n) rest | Closed \<Rightarrow> [])"

lemma dispatcher_closed: "snd (dispatcher dispatch others n rs st) \<longleftrightarrow> Closed \<in> set rs"
  by (induction rs arbitrary: n st) (auto split: recv_result.splits)

lemma dispatcher_serves:
  "fst (dispatcher dispatch (\<lambda>_ st. st) n rs st) = fold (\<lambda>(k, u). dispatch k u) (served n rs) st"
  by (induction rs arbitrary: n st) (simp_all split: recv_result.splits)

lemma dispatcher_steps:
  assumes "\<And>n st. steps st (others n st)" and "\<And>n u st. valid u \<Longrightarrow> steps st (dispatch n u st)"
    and "\<And>a b c. steps a b \<Longrightarrow> steps b c \<Longrightarrow> steps a c" and "\<And>a. steps a a"
    and "\<forall>u. Received u \<in> set rs \<longrightarrow> valid u"
  shows "steps st (fst (dispatcher dispatch others n rs st))"
  using assms(5)
proof (induction rs arbitrary: n st)
  case (Cons r rs)
  show ?case
  proof (cases r)
    case (Received u)
    with Cons.prems have "valid u" by simp
    from assms(3) [OF assms(1) assms(2) [OF this]] Cons Received show ?thesis
      using assms(3) by fastforce
  next
    case (Lagged k)
    with Cons assms(1,3) show ?thesis by fastforce
  qed (simp add: assms(1))
qed (simp add: assms(4))

lemma on_manager_manager: "ss_manager (on_manager f st) = fst (f (ss_manager st, ss_metrics st))"
  by (simp add: on_manager_def split: prod.splits)

lemma dispatch_steps:
  "wf_account_update u \<Longrightarrow> mgr_step env m (fst (dispatch_account_update env k1 k2 t1 t2 t3 t4 u (m, mt)))"
  "wf_transaction_update v \<Longrightarrow> mgr_step env m (fst (dispatch_transaction_update env k1 k2 t1 t2 t3 t4 v (m, mt)))"
  "mgr_step env m (fst (dispatch_slot_update env k1 k2 t1 t2 t3 t4 w (m, mt)))"
  by (metis step_account prod.collapse, metis step_transaction prod.collapse, metis step_slot prod.collapse)


definition sample_listener_env :: listener_env where
  "sample_listener_env = \<lparr>le_create_dir = \<lambda>_. None, le_remove_fails = \<lambda>_. False, le_bind = \<lambda>_. None\<rparr>"

definition sample_dispatch_clock :: dispatch_clock where
  "sample_dispatch_clock = \<lparr>dc_slots = \<lambda>_. 2000, dc_pushed = \<lambda>_. 9, dc_start = 7, dc_finish = 9, dc_frame_start = 7,
     dc_unix_nanos = 8\<rparr>"

lemma sample_setup:
  obtains sender where "setup_sender_with_streams sample_listener_env sample_config True True None sender_metrics_new {} =
    (Ok sender, {tc_uds_path sample_config})"
proof -
  have "is_power_of_two 256"
    unfolding is_power_of_two_pow by (rule exI [of _ 8]) simp
  then have "bind_listener sample_listener_env sample_config {} = (Ok sample_config, {tc_uds_path sample_config})"
    by (simp add: bind_listener_def sample_listener_env_def sample_config_def split: option.splits)
  with that show thesis
    by (simp add: setup_sender_with_streams_def)
qed


end
