(* ===== verification/Delivery.thy ===== *)
theory Delivery
  imports Dispatch Reader
begin

text \<open>
  The sender and one consumer together: the dispatchers and the control connections of
  \<open>src/sender/mod.rs\<close> on one side of a shared-memory ring, the reader task of \<open>src/consumer/shm.rs\<close> on
  the other, running in any interleaving. The theorems say what the consumer gets of what was
  dispatched, and that it is never asleep while something is waiting for it.
\<close>

section \<open>The system\<close>

text \<open>
  The reader is draining its ring, suspended in \<open>AsyncEventFd::wait\<close>, or has returned. The log is a
  history variable: the updates dispatched to the connection so far.
\<close>

datatype phase = Draining | Waiting | Stopped

record ('q, 'k, 'b, 'u, 't, 's) delivery =
  dl_manager :: "('q, 'k, 'b) connection_manager"
  dl_reader :: "('u, 't, 's) reader"
  dl_phase :: phase
  dl_log :: "server_frame_with_meta list"

text \<open>An update is due to a connection that holds its slot, is not stale, and asked for it.\<close>

definition due ::
  "(nat \<Rightarrow> u64) \<Rightarrow> ('b subscription_filter \<Rightarrow> bool) \<Rightarrow> ('q, 'k, 'b) connection_manager \<Rightarrow> ptr \<Rightarrow> bool" where
  "due clk matches m p \<longleftrightarrow>
     (case mg_heap m p of
        None \<Rightarrow> False
      | Some e \<Rightarrow> load_full m (mc_slot_index e) = Some p \<and> \<not> is_stale (clk (mc_slot_index e)) e \<and> matches (mc_filter e))"

abbreviation log_if :: "bool \<Rightarrow> server_frame_with_meta \<Rightarrow> server_frame_with_meta list" where
  "log_if b f \<equiv> if b then [f] else []"

text \<open>The tasks of the sender process, and the readers of the other connections.\<close>

inductive sender_step ::
  "('q, 'k, 'b) sender_env \<Rightarrow> ptr \<Rightarrow> ('q, 'k, 'b, 'u, 't, 's) delivery \<Rightarrow> ('q, 'k, 'b, 'u, 't, 's) delivery \<Rightarrow> bool"
  for env p where
  send_account: "wf_account_update u \<Longrightarrow>
    dispatch_account_update env clk clk_us t1 t2 instant nanos u (dl_manager s, metrics) = (m', metrics') \<Longrightarrow>
    sender_step env p s (s\<lparr>dl_manager := m', dl_log := dl_log s @
      log_if (due clk (\<lambda>f. matches_account (se_bloom env) f u) (dl_manager s) p)
        (SM_AccountUpdate u \<lparr>sender_created_at_unix_nanos = nanos\<rparr>)\<rparr>)"
| send_transaction: "wf_transaction_update u \<Longrightarrow>
    dispatch_transaction_update env clk clk_us t1 t2 instant nanos u (dl_manager s, metrics) = (m', metrics') \<Longrightarrow>
    sender_step env p s (s\<lparr>dl_manager := m', dl_log := dl_log s @
      log_if (due clk matches_transaction (dl_manager s) p)
        (SM_TransactionUpdate u \<lparr>sender_created_at_unix_nanos = nanos\<rparr>)\<rparr>)"
| send_slot:
    "dispatch_slot_update env clk clk_us t1 t2 instant nanos u (dl_manager s, metrics) = (m', metrics') \<Longrightarrow>
    sender_step env p s (s\<lparr>dl_manager := m', dl_log := dl_log s @
      log_if (due clk (\<lambda>_. True) (dl_manager s) p) (SM_SlotUpdate u \<lparr>sender_created_at_unix_nanos = nanos\<rparr>)\<rparr>)"
| send_upsert: "mg_next_connection_id (dl_manager s) \<noteq> - 1 \<Longrightarrow>
    upsert_shm env now1 clk now2 request dir cap (dl_manager s) = Some (r, m') \<Longrightarrow>
    sender_step env p s (s\<lparr>dl_manager := m'\<rparr>)"
| send_ping: "touch_ping env now1 now2 (dl_manager s) ping = (b, m') \<Longrightarrow> sender_step env p s (s\<lparr>dl_manager := m'\<rparr>)"
| other_read: "q \<noteq> p \<Longrightarrow> mg_heap (dl_manager s) q = Some e \<Longrightarrow>
    ring_try_pop (se_shaq env) c (sk_region (mc_sink e)) = (r, c', region) \<Longrightarrow>
    sender_step env p s
      (s\<lparr>dl_manager := set_connection (dl_manager s) q (e\<lparr>mc_sink := (mc_sink e)\<lparr>sk_region := region\<rparr>\<rparr>)\<rparr>)"
| other_drain: "q \<noteq> p \<Longrightarrow> mg_heap (dl_manager s) q = Some e \<Longrightarrow>
    efd_drain (se_efd env) (sk_wakeup (mc_sink e)) = (r, k) \<Longrightarrow>
    sender_step env p s
      (s\<lparr>dl_manager := set_connection (dl_manager s) q (e\<lparr>mc_sink := (mc_sink e)\<lparr>sk_wakeup := k\<rparr>\<rparr>)\<rparr>)"

text \<open>
  The steps of the reader task of the connection at \<open>p\<close>: one iteration of its inner loop, the end of the
  loop with the test for a closed ring, and a wait that returns.
\<close>

inductive reader_step ::
  "('q, 'k, 'b) sender_env \<Rightarrow> ('q, 'u, 't, 's) consumer_env \<Rightarrow> ptr \<Rightarrow>
     ('q, 'k, 'b, 'u, 't, 's) delivery \<Rightarrow> ('q, 'k, 'b, 'u, 't, 's) delivery \<Rightarrow> bool"
  for env ce p where
  read_frame: "dl_phase s = Draining \<Longrightarrow> mg_heap (dl_manager s) p = Some e \<Longrightarrow>
    ring_try_pop (ce_shaq ce) (rd_ring (dl_reader s)) (sk_region (mc_sink e)) = (Some bs, ring, region) \<Longrightarrow>
    reader_step env ce p s
      (s\<lparr>dl_manager := set_connection (dl_manager s) p (e\<lparr>mc_sink := (mc_sink e)\<lparr>sk_region := region\<rparr>\<rparr>),
         dl_reader := handle_ring_frame ce clk bs ((dl_reader s)\<lparr>rd_ring := ring\<rparr>)\<rparr>)"
| read_end: "dl_phase s = Draining \<Longrightarrow> mg_heap (dl_manager s) p = Some e \<Longrightarrow>
    ring_try_pop (ce_shaq ce) (rd_ring (dl_reader s)) (sk_region (mc_sink e)) = (None, ring, region) \<Longrightarrow>
    reader_step env ce p s
      (s\<lparr>dl_manager := set_connection (dl_manager s) p (e\<lparr>mc_sink := (mc_sink e)\<lparr>sk_region := region\<rparr>\<rparr>),
         dl_reader := (dl_reader s)\<lparr>rd_ring := ring\<rparr>,
         dl_phase := (if ring_is_closed ring (mg_files (dl_manager s)) then Stopped else Waiting)\<rparr>)"
| read_wake: "dl_phase s = Waiting \<Longrightarrow> mg_heap (dl_manager s) p = Some e \<Longrightarrow>
    efd_drain (se_efd env) (sk_wakeup (mc_sink e)) = (Inr n, k) \<Longrightarrow> n \<noteq> 0 \<Longrightarrow>
    reader_step env ce p s
      (s\<lparr>dl_manager := set_connection (dl_manager s) p (e\<lparr>mc_sink := (mc_sink e)\<lparr>sk_wakeup := k\<rparr>\<rparr>),
         dl_phase := Draining\<rparr>)"

inductive_cases sender_stepE: "sender_step env p s s'"
inductive_cases reader_stepE: "reader_step env ce p s s'"

definition system_step ::
  "('q, 'k, 'b) sender_env \<Rightarrow> ('q, 'u, 't, 's) consumer_env \<Rightarrow> ptr \<Rightarrow>
     ('q, 'k, 'b, 'u, 't, 's) delivery \<Rightarrow> ('q, 'k, 'b, 'u, 't, 's) delivery \<Rightarrow> bool" where
  "system_step env ce p s s' \<longleftrightarrow> sender_step env p s s' \<or> reader_step env ce p s s'"


section \<open>What the control operations leave alone\<close>

text \<open>
  Subscriptions and pings do not touch the ring of a connection, except that they close it when they
  find the connection stale and take it out of its slot. A connection never comes back.
\<close>

definition undisturbed ::
  "('q, 'k, 'b) sender_env \<Rightarrow> ptr \<Rightarrow> ('q, 'k, 'b) connection_manager \<Rightarrow> ('q, 'k, 'b) connection_manager \<Rightarrow> bool" where
  "undisturbed env p m m' \<longleftrightarrow>
     (\<exists>e e'. mg_heap m p = Some e \<and> mg_heap m' p = Some e' \<and> mc_slot_index e' = mc_slot_index e \<and>
       (load_full m' (mc_slot_index e) = Some p \<longrightarrow> load_full m (mc_slot_index e) = Some p) \<and>
       mc_sink e' =
         (if load_full m (mc_slot_index e) = Some p \<and> load_full m' (mc_slot_index e) \<noteq> Some p
          then sink_close (se_shaq env) (se_efd env) (mc_sink e) else mc_sink e))"

lemma undisturbed_refl: "mg_heap m p = Some e \<Longrightarrow> undisturbed env p m m"
  by (simp add: undisturbed_def)

lemma undisturbed_heap: "undisturbed env p m m' \<Longrightarrow> \<exists>e. mg_heap m' p = Some e"
  by (auto simp: undisturbed_def)

lemma undisturbed_trans:
  assumes "undisturbed env p m m'" and "undisturbed env p m' m''"
  shows "undisturbed env p m m''"
proof -
  obtain e e' where e: "mg_heap m p = Some e" "mg_heap m' p = Some e'" "mc_slot_index e' = mc_slot_index e"
      "load_full m' (mc_slot_index e) = Some p \<longrightarrow> load_full m (mc_slot_index e) = Some p"
      "mc_sink e' = (if load_full m (mc_slot_index e) = Some p \<and> load_full m' (mc_slot_index e) \<noteq> Some p
        then sink_close (se_shaq env) (se_efd env) (mc_sink e) else mc_sink e)"
    using assms(1) unfolding undisturbed_def by blast
  obtain e'' where "mg_heap m'' p = Some e''" "mc_slot_index e'' = mc_slot_index e"
      "load_full m'' (mc_slot_index e) = Some p \<longrightarrow> load_full m' (mc_slot_index e) = Some p"
      "mc_sink e'' = (if load_full m' (mc_slot_index e) = Some p \<and> load_full m'' (mc_slot_index e) \<noteq> Some p
        then sink_close (se_shaq env) (se_efd env) (mc_sink e') else mc_sink e')"
    using assms(2) e(2,3) unfolding undisturbed_def by (metis option.inject)
  with e show ?thesis
    unfolding undisturbed_def
    by (intro exI [of _ e] exI [of _ e'']) (cases "load_full m' (mc_slot_index e) = Some p"; simp)
qed

lemma undisturbed_update:
  assumes "mg_heap m p = Some e" and "mg_heap m q = Some d" and "mc_slot_index d' = mc_slot_index d" and "mc_sink d' = mc_sink d"
  shows "undisturbed env p m (set_connection m q d')"
  using assms by (auto simp: undisturbed_def)

lemma undisturbed_same:
  assumes "mg_heap m p = Some e" and "mg_heap m' p = Some e" and "\<And>i. load_full m' i = Some p \<longleftrightarrow> load_full m i = Some p"
  shows "undisturbed env p m m'"
  using assms by (simp add: undisturbed_def)

lemma undisturbed_maybe_cleanup:
  assumes "mgr_inv env m" and "mg_heap m p = Some e" and "load_full m j = Some q"
    and "maybe_cleanup_stale_slot env now m j q = (b, m')"
  shows "undisturbed env p m m'"
proof -
  obtain d where d: "mg_heap m q = Some d" "mc_slot_index d = j"
    by (rule slots_okD [OF mgr_inv_slots_ok [OF assms(1)] assms(3)])
  have "undisturbed env p m (swap_out (set_connection m q (close_connection env d)) j q d)"
  proof (cases "q = p")
    case True
    with assms(2,3) d show ?thesis
      by (simp add: undisturbed_def load_swap_out close_connection_def)
  next
    case False
    with assms(2,3) show ?thesis
      by (intro undisturbed_same [OF assms(2)]) (auto simp: load_swap_out)
  qed
  with assms(2,4) d show ?thesis
    by (auto simp: maybe_cleanup_stale_slot_def undisturbed_refl split: if_splits)
qed

lemma undisturbed_lookup:
  assumes "mgr_inv env m" and "mg_heap m p = Some e" and "lookup_by_token env now m token = (r, m')"
  shows "undisturbed env p m m'"
proof -
  have "m' = m \<or> (\<exists>j q b. load_full m j = Some q \<and> maybe_cleanup_stale_slot env now m j q = (b, m'))"
    using assms(3)
    by (simp add: lookup_by_token_def Let_def split: option.splits if_splits prod.splits bool.splits) metis+
  then show ?thesis
    using undisturbed_refl [OF assms(2)] undisturbed_maybe_cleanup [OF assms(1,2)] by blast
qed

lemma undisturbed_find_free_from:
  assumes "sender_env_ok env" and "mgr_inv env m" and "mg_heap m p = Some e" and "find_free_from env clk is m = (r, m')"
  shows "undisturbed env p m m'"
  using assms(2-4)
proof (induction "is" arbitrary: m e)
  case (Cons i "is")
  show ?case
  proof (cases "load_full m i")
    case None
    with Cons.prems show ?thesis by (simp add: undisturbed_refl)
  next
    case (Some q)
    obtain b m1 where c: "maybe_cleanup_stale_slot env (clk i) m i q = (b, m1)"
      by force
    note u = undisturbed_maybe_cleanup [OF Cons.prems(1,2) Some c]
    obtain e1 where e1: "mg_heap m1 p = Some e1"
      using undisturbed_heap [OF u] by blast
    have "m' = m1 \<or> find_free_from env clk is m1 = (r, m')"
      using Cons.prems(3) Some c by (auto split: bool.splits if_splits)
    then show ?thesis
      using Cons.IH [OF inv_maybe_cleanup [OF assms(1) Cons.prems(1) c] e1] u undisturbed_trans [OF u] by blast
  qed
qed (simp add: undisturbed_refl)

lemma undisturbed_ping:
  assumes "sender_env_ok env" and "mgr_inv env m" and "mg_heap m p = Some e" and "touch_ping env now1 now2 m ping = (b, m')"
  shows "undisturbed env p m m'"
proof -
  obtain r m1 where l: "lookup_by_token env now1 m (pr_slot_token ping) = (r, m1)"
    by force
  note u = undisturbed_lookup [OF assms(2,3) l]
  obtain e1 where e1: "mg_heap m1 p = Some e1"
    using undisturbed_heap [OF u] by blast
  have "undisturbed env p m1 (touch_connection m1 q now2)" for q
    using e1 by (auto simp: touch_connection_def undisturbed_refl split: option.splits intro!: undisturbed_update)
  with u undisturbed_trans [OF u] assms(4) l show ?thesis
    by (auto simp: touch_ping_def split: option.splits)
qed

lemma undisturbed_install:
  assumes "mgr_inv env m" and "mg_heap m p = Some e" and "load_full m i = None" and "i < MAX_CONNECTION_SLOTS"
  shows "undisturbed env p m (install (m\<lparr>mg_files := fs\<rparr>) i d)"
proof -
  have "p \<noteq> mg_next_ptr m" "i < length (mg_connections m)"
    using mgr_inv_heap(2) [OF assms(1,2)] mgr_inv_conjuncts(1) [OF assms(1)] assms(4) by auto
  with assms(2,3) show ?thesis
    by (intro undisturbed_same [OF assms(2)]) (auto simp: load_install)
qed

lemma undisturbed_install_loop:
  assumes "sender_env_ok env" and "mgr_inv env m" and "mg_heap m p = Some e"
    and "install_loop env clk now flt cid dir cap m = Some (r, m')"
  shows "undisturbed env p m m'"
proof -
  obtain free m1 where free: "find_free_slot env clk m = (free, m1)"
    by force
  have u: "undisturbed env p m m1"
    using undisturbed_find_free_from [OF assms(1-3)] free by (simp add: find_free_slot_def)
  have inv: "mgr_inv env m1"
    using quiet_inv [OF quiet_find_free_from [OF assms(1,2)]] free by (simp add: find_free_slot_def)
  obtain e1 where e1: "mg_heap m1 p = Some e1"
    using undisturbed_heap [OF u] by blast
  let ?path = "\<lambda>i. path_join dir (ring_file_name (se_pid env) i cid)"
  have "undisturbed env p m1 m'"
  proof (cases "\<exists>i ring region fs k. free = Some i \<and> se_eventfd env = Inr k \<and>
      ring_create (se_shaq env) (se_fs env) (mg_files m1) (?path i) cap = (Ok (ring, region), fs)")
    case False
    obtain r' fs where "install_loop env clk now flt cid dir cap m = Some (r', m1\<lparr>mg_files := fs\<rparr>)"
      by (rule install_loop_failed [OF free]) (use False in blast)
    with assms(4) e1 show ?thesis
      by (intro undisturbed_same [OF e1]) auto
  next
    case True
    then obtain i ring region fs k where k: "free = Some i" "se_eventfd env = Inr k"
        and c: "ring_create (se_shaq env) (se_fs env) (mg_files m1) (?path i) cap = (Ok (ring, region), fs)"
      by (elim exE conjE)
    have i: "i < MAX_CONNECTION_SLOTS" "load_full m1 i = None"
      using free k(1) find_free_from_slot [of env clk "[0..<MAX_CONNECTION_SLOTS]" m i m1]
      by (simp_all add: find_free_slot_def)
    show ?thesis
      using install_loop_created [OF free [unfolded k(1)] i(2) refl c k(2), of now flt] assms(4)
        undisturbed_install [OF inv e1 i(2,1)] by simp
  qed
  with u show ?thesis by (rule undisturbed_trans)
qed

lemma undisturbed_upsert:
  assumes "sender_env_ok env" and "mgr_inv env m" and "mg_next_connection_id m \<noteq> - 1" and "mg_heap m p = Some e"
    and "upsert_shm env now1 clk now2 request dir cap m = Some (r, m')"
  shows "undisturbed env p m m'"
proof -
  obtain ex m1 where l: "(case sr_slot_token request of None \<Rightarrow> (None, m)
      | Some token \<Rightarrow> lookup_by_token env now1 m token) = (ex, m1)"
    by force
  have u: "undisturbed env p m m1"
    using l undisturbed_lookup [OF assms(2,4)] undisturbed_refl [OF assms(4)] by (cases "sr_slot_token request") simp_all
  have q: "quiet env m m1"
    using l quiet_lookup [OF assms(1,2)] quiet_refl [OF assms(2)] by (cases "sr_slot_token request") simp_all
  obtain e1 where e1: "mg_heap m1 p = Some e1"
    using undisturbed_heap [OF u] by blast
  have inv: "mgr_inv env (take_id m1)"
    using inv_take_id [OF quiet_inv [OF q]] q assms(3) by (simp add: quiet_def same_identity_def)
  have "undisturbed env p m1 (take_id m1)"
    using e1 by (intro undisturbed_same [OF e1]) simp_all
  then have install: "undisturbed env p m1 m''"
    if "install_loop env clk now2 flt cid dir cap (take_id m1) = Some (r', m'')" for r' m'' flt cid
    using undisturbed_install_loop [OF assms(1) inv _ that] e1 by (simp add: undisturbed_trans)
  have "undisturbed env p m1 m'"
    using assms(5) l e1 install
    by (auto simp: upsert_shm_def Let_def apply_request_def split: option.splits intro!: undisturbed_update)
  with u show ?thesis by (rule undisturbed_trans)
qed


section \<open>What is on the way\<close>

text \<open>
  The log splits into what the reader took out of the ring, what is in the ring, and what was lost. The
  ring holds the frames of the middle part and, once the connection is out of its slot, possibly a
  close mark. While the connection holds its slot nothing is lost, and at most one update ever is:
  the one that did not fit and cost the connection its slot. A reader that waits while the ring holds
  anything has a wakeup pending.
\<close>

definition in_transit ::
  "('q, 'k, 'b) sender_env \<Rightarrow> ('q, 'u, 't, 's) consumer_env \<Rightarrow> ptr \<Rightarrow> ('q, 'k, 'b, 'u, 't, 's) delivery \<Rightarrow>
     server_frame_with_meta list \<Rightarrow> server_frame_with_meta list \<Rightarrow> server_frame_with_meta list \<Rightarrow> bool" where
  "in_transit env ce p s received pending lost \<longleftrightarrow>
     dl_log s = received @ pending @ lost \<and> length lost \<le> 1 \<and>
     (\<exists>e bodies marks. mg_heap (dl_manager s) p = Some e \<and>
        sink_rep (se_shaq env) (mc_sink e) (map Frame bodies @ replicate marks CloseMark) \<and>
        map (frame_of ce) bodies = map Some pending \<and>
        (load_full (dl_manager s) (mc_slot_index e) = Some p \<longrightarrow> marks = 0 \<and> lost = []) \<and>
        (dl_phase s = Waiting \<longrightarrow> bodies \<noteq> [] \<or> marks \<noteq> 0 \<longrightarrow> 0 < ek_count (se_efd env) (sk_wakeup (mc_sink e))))"

lemma in_transitE:
  assumes "in_transit env ce p s received pending lost"
  obtains e bodies marks where "dl_log s = received @ pending @ lost" and "length lost \<le> 1"
    and "mg_heap (dl_manager s) p = Some e"
    and "sink_rep (se_shaq env) (mc_sink e) (map Frame bodies @ replicate marks CloseMark)"
    and "map (frame_of ce) bodies = map Some pending"
    and "load_full (dl_manager s) (mc_slot_index e) = Some p \<longrightarrow> marks = 0 \<and> lost = []"
    and "dl_phase s = Waiting \<longrightarrow> bodies \<noteq> [] \<or> marks \<noteq> 0 \<longrightarrow> 0 < ek_count (se_efd env) (sk_wakeup (mc_sink e))"
  using assms unfolding in_transit_def by blast

lemma in_transitI:
  assumes "dl_log s = received @ pending @ lost" and "length lost \<le> 1"
    and "mg_heap (dl_manager s) p = Some e"
    and "sink_rep (se_shaq env) (mc_sink e) (map Frame bodies @ replicate marks CloseMark)"
    and "map (frame_of ce) bodies = map Some pending"
    and "load_full (dl_manager s) (mc_slot_index e) = Some p \<longrightarrow> marks = 0 \<and> lost = []"
    and "dl_phase s = Waiting \<longrightarrow> bodies \<noteq> [] \<or> marks \<noteq> 0 \<longrightarrow> 0 < ek_count (se_efd env) (sk_wakeup (mc_sink e))"
  shows "in_transit env ce p s received pending lost"
  using assms unfolding in_transit_def by blast

text \<open>Closing puts at most one close mark behind the frames.\<close>

lemma closed_items_marks:
  obtains marks where "closed_items sink (map Frame bodies) = map Frame bodies @ replicate marks CloseMark"
  by (cases "used (map Frame bodies) + 4 \<le> rp_capacity (sk_ring sink)")
    (force simp: closed_items_def intro: that [of "Suc 0"] that [of 0])+

lemma transit_undisturbed:
  assumes "sender_env_ok env" and "in_transit env ce p s received pending lost" and "undisturbed env p (dl_manager s) m'"
  shows "in_transit env ce p (s\<lparr>dl_manager := m'\<rparr>) received pending lost"
proof -
  obtain e bodies marks where t: "dl_log s = received @ pending @ lost" "length lost \<le> 1"
      "mg_heap (dl_manager s) p = Some e"
      "sink_rep (se_shaq env) (mc_sink e) (map Frame bodies @ replicate marks CloseMark)"
      "map (frame_of ce) bodies = map Some pending"
      "load_full (dl_manager s) (mc_slot_index e) = Some p \<longrightarrow> marks = 0 \<and> lost = []"
      "dl_phase s = Waiting \<longrightarrow> bodies \<noteq> [] \<or> marks \<noteq> 0 \<longrightarrow> 0 < ek_count (se_efd env) (sk_wakeup (mc_sink e))"
    by (rule in_transitE [OF assms(2)])
  obtain e' where e': "mg_heap m' p = Some e'" "mc_slot_index e' = mc_slot_index e"
      "load_full m' (mc_slot_index e) = Some p \<longrightarrow> load_full (dl_manager s) (mc_slot_index e) = Some p"
      "mc_sink e' = (if load_full (dl_manager s) (mc_slot_index e) = Some p \<and> load_full m' (mc_slot_index e) \<noteq> Some p
        then sink_close (se_shaq env) (se_efd env) (mc_sink e) else mc_sink e)"
    using assms(3) t(3) unfolding undisturbed_def by auto
  show ?thesis
  proof (cases "load_full (dl_manager s) (mc_slot_index e) = Some p \<and> load_full m' (mc_slot_index e) \<noteq> Some p")
    case True
    have ek: "efd_ok (se_efd env)"
      using assms(1) by (simp add: sender_env_ok_def)
    obtain marks' where m: "closed_items (mc_sink e) (map Frame bodies) = map Frame bodies @ replicate marks' CloseMark"
      by (rule closed_items_marks)
    have "marks = 0"
      using True t(6) by simp
    then have "sink_rep (se_shaq env) (mc_sink e') (map Frame bodies @ replicate marks' CloseMark)"
        "0 < ek_count (se_efd env) (sk_wakeup (mc_sink e'))"
      using sink_close_rep(1,3) [OF t(4) ek, folded closed_items_def] m e'(4) True by simp_all
    with t e' True show ?thesis
      by (intro in_transitI [where e = e' and bodies = bodies and marks = marks']) simp_all
  next
    case False
    then have "mc_sink e' = mc_sink e"
      unfolding e'(4) by (rule if_not_P)
    with t e' show ?thesis
      by (intro in_transitI [where e = e' and bodies = bodies and marks = marks]) simp_all
  qed
qed

lemma transit_dispatch:
  assumes "sender_env_ok env" and "mgr_inv env (dl_manager s)" and "in_transit env ce p s received pending lost"
    and "encode = Ok frame" and "valid_frame frame" and "frame_of ce (frame_body frame) = Some f"
    and "dispatch_with env clk clk_us start finish matches encode (dl_manager s, metrics) = (m', metrics')"
  shows "\<exists>pending' lost'. in_transit env ce p
    (s\<lparr>dl_manager := m', dl_log := dl_log s @ log_if (due clk matches (dl_manager s) p) f\<rparr>) received pending' lost'"
proof -
  let ?m = "dl_manager s"
  have m': "m' = fst (dispatch_with env clk clk_us start finish matches encode (?m, metrics))"
    using assms(7) by simp
  obtain e bodies marks where t: "dl_log s = received @ pending @ lost" "length lost \<le> 1" "mg_heap ?m p = Some e"
      "sink_rep (se_shaq env) (mc_sink e) (map Frame bodies @ replicate marks CloseMark)"
      "map (frame_of ce) bodies = map Some pending"
      "load_full ?m (mc_slot_index e) = Some p \<longrightarrow> marks = 0 \<and> lost = []"
      "dl_phase s = Waiting \<longrightarrow> bodies \<noteq> [] \<or> marks \<noteq> 0 \<longrightarrow> 0 < ek_count (se_efd env) (sk_wakeup (mc_sink e))"
    by (rule in_transitE [OF assms(3)])
  let ?i = "mc_slot_index e"
  show ?thesis
  proof (cases "load_full ?m ?i = Some p")
    case False
    then have "\<not> due clk matches ?m p"
      using t(3) by (simp add: due_def)
    moreover have "mg_heap m' p = Some e" "load_full m' ?i \<noteq> Some p"
      using dispatch_with_removed [OF assms(2,4) t(3) False m'] by simp_all
    ultimately show ?thesis
      using t by (intro exI [of _ pending] exI [of _ lost] in_transitI [where e = e and bodies = bodies and marks = marks]) simp_all
  next
    case True
    then have items: "sink_rep (se_shaq env) (mc_sink e) (map Frame bodies)" "lost = []"
      using t(4,6) by simp_all
    have "dispatch_outcome env (clk ?i) matches frame ?i p e (map Frame bodies) m'"
      using dispatch_with_outcome [OF assms(1,2,4,5) True t(3) items(1)] m' by simp
    then obtain e' where e': "mg_heap m' p = Some e'" "mc_slot_index e' = ?i"
        and o: "if is_stale (clk ?i) e then
            load_full m' ?i = None \<and> sink_rep (se_shaq env) (mc_sink e') (closed_items (mc_sink e) (map Frame bodies)) \<and>
            0 < ek_count (se_efd env) (sk_wakeup (mc_sink e'))
          else if \<not> matches (mc_filter e) then load_full m' ?i = Some p \<and> e' = e
          else if sink_fits (mc_sink e) (map Frame bodies) frame then
            load_full m' ?i = Some p \<and> sink_rep (se_shaq env) (mc_sink e') (map Frame bodies @ [Frame (frame_body frame)]) \<and>
            0 < ek_count (se_efd env) (sk_wakeup (mc_sink e'))
          else
            load_full m' ?i = None \<and> sink_rep (se_shaq env) (mc_sink e') (closed_items (mc_sink e) (map Frame bodies)) \<and>
            0 < ek_count (se_efd env) (sk_wakeup (mc_sink e'))"
      unfolding dispatch_outcome_def by blast
    obtain marks' where m: "closed_items (mc_sink e) (map Frame bodies) = map Frame bodies @ replicate marks' CloseMark"
      by (rule closed_items_marks)
    have due: "due clk matches ?m p \<longleftrightarrow> \<not> is_stale (clk ?i) e \<and> matches (mc_filter e)"
      using t(3) True by (simp add: due_def)
    consider (gone) "load_full m' ?i = None" "sink_rep (se_shaq env) (mc_sink e') (map Frame bodies @ replicate marks' CloseMark)"
        "0 < ek_count (se_efd env) (sk_wakeup (mc_sink e'))"
      | (same) "e' = e" "\<not> due clk matches ?m p"
      | (pushed) "sink_rep (se_shaq env) (mc_sink e') (map Frame (bodies @ [frame_body frame]))" "due clk matches ?m p"
          "0 < ek_count (se_efd env) (sk_wakeup (mc_sink e'))"
      using o unfolding m due by (simp split: if_splits)
    then show ?thesis
    proof cases
      case gone
      with t(1,5) e' items(2) show ?thesis
        by (intro exI [of _ pending] exI [of _ "log_if (due clk matches ?m p) f"]
            in_transitI [where e = e' and bodies = bodies and marks = marks']) simp_all
    next
      case same
      with t e' items show ?thesis
        by (intro exI [of _ pending] exI [of _ "[]"] in_transitI [where e = e and bodies = bodies and marks = 0]) simp_all
    next
      case pushed
      with t(1,5) e' items(2) assms(6) show ?thesis
        by (intro exI [of _ "pending @ [f]"] exI [of _ "[]"]
            in_transitI [where e = e' and bodies = "bodies @ [frame_body frame]" and marks = 0]) simp_all
    qed
  qed
qed


section \<open>The invariant of the system\<close>

text \<open>The two processes are built from the same crates: they agree on the queue layout and on LZ4.\<close>

definition linked :: "('q, 'k, 'b) sender_env \<Rightarrow> ('q, 'u, 't, 's) consumer_env \<Rightarrow> bool" where
  "linked env ce \<longleftrightarrow> sender_env_ok env \<and> consumer_env_ok ce \<and> ce_shaq ce = se_shaq env \<and> ce_lz4 ce = se_lz4 env \<and>
     lz4_lossless (se_lz4 env)"

lemma linkedD:
  assumes "linked env ce"
  shows "sender_env_ok env" and "consumer_env_ok ce" and "ce_shaq ce = se_shaq env" and "ce_lz4 ce = se_lz4 env"
    and "lz4_lossless (se_lz4 env)" and "efd_ok (se_efd env)"
  using assms by (simp_all add: linked_def sender_env_ok_def)

definition delivery_inv ::
  "('q, 'k, 'b) sender_env \<Rightarrow> ('q, 'u, 't, 's) consumer_env \<Rightarrow> ptr \<Rightarrow> nat \<Rightarrow>
     account_update list \<times> transaction_update list \<times> slot_update list \<Rightarrow> ('q, 'k, 'b, 'u, 't, 's) delivery \<Rightarrow> bool" where
  "delivery_inv env ce p n q0 s \<longleftrightarrow> mgr_inv env (dl_manager s) \<and> capacities ce (dl_reader s) n \<and>
     (\<exists>received pending lost. in_transit env ce p s received pending lost \<and>
        queues ce (dl_reader s) = enqueue_all n received q0)"

lemma account_frame:
  assumes "linked env ce" and "wf_account_update u"
  obtains frame where "encode_account_frame env instant nanos u = Ok frame" and "valid_frame frame"
    and "frame_of ce (frame_body frame) = Some (SM_AccountUpdate u \<lparr>sender_created_at_unix_nanos = nanos\<rparr>)"
proof -
  obtain h pl where e: "account_encode_parts_at (se_lz4 env) u nanos = Ok (h, pl)"
    using account_codec.encode_total [OF assms(2)] by blast
  let ?frame = "\<lparr>of_header = h, of_payload = pl, of_frame_start = instant\<rparr>"
  have f: "encode_account_frame env instant nanos u = Ok ?frame"
    using e by (simp add: encode_account_frame_def)
  show thesis
    using that [OF f valid_account_frame [OF assms(2) f]] routed_account [OF linkedD(5) [OF assms(1)] assms(2) e]
      linkedD(4) [OF assms(1)] by (simp add: frame_of_def)
qed

lemma transaction_frame:
  assumes "wf_transaction_update u"
  obtains frame where "encode_transaction_frame instant nanos u = Ok frame" and "valid_frame frame"
    and "frame_of ce (frame_body frame) = Some (SM_TransactionUpdate u \<lparr>sender_created_at_unix_nanos = nanos\<rparr>)"
proof -
  obtain h pl where e: "transaction_encode_parts_at u nanos = Ok (h, pl)"
    using transaction_codec.encode_total [OF assms] by blast
  let ?frame = "\<lparr>of_header = h, of_payload = pl, of_frame_start = instant\<rparr>"
  have f: "encode_transaction_frame instant nanos u = Ok ?frame"
    using e by (simp add: encode_transaction_frame_def)
  show thesis
    using that [OF f valid_transaction_frame [OF assms f]] routed_transaction [OF assms e] by (simp add: frame_of_def)
qed

lemma slot_frame_pushed:
  obtains frame where "encode_slot_frame instant nanos u = Ok frame" and "valid_frame frame"
    and "frame_of ce (frame_body frame) = Some (SM_SlotUpdate u \<lparr>sender_created_at_unix_nanos = nanos\<rparr>)"
proof -
  obtain h pl where e: "slot_encode_parts_at u nanos = Ok (h, pl)"
    using slot_codec.encode_total [OF TrueI] by blast
  let ?frame = "\<lparr>of_header = h, of_payload = pl, of_frame_start = instant\<rparr>"
  have f: "encode_slot_frame instant nanos u = Ok ?frame"
    using e by (simp add: encode_slot_frame_def)
  show thesis
    using that [OF f valid_slot_frame [OF f]] routed_slot [OF e] by (simp add: frame_of_def)
qed

lemma sender_step_manager:
  assumes "sender_step env p s s'"
  shows "mgr_step env (dl_manager s) (dl_manager s')"
  using assms by (elim sender_stepE) (auto intro: mgr_step.intros)

lemma undisturbed_other:
  assumes "mg_heap m p = Some e" and "q \<noteq> p"
  shows "undisturbed env p m (set_connection m q d)"
  using assms by (intro undisturbed_same [OF assms(1)]) simp_all

lemma transit_sender:
  assumes "linked env ce" and "mgr_inv env (dl_manager s)" and "in_transit env ce p s received pending lost"
    and "sender_step env p s s'"
  shows "\<exists>pending' lost'. in_transit env ce p s' received pending' lost'"
proof -
  note ok = linkedD(1) [OF assms(1)]
  note dispatch = transit_dispatch [OF ok assms(2,3)]
  obtain e where e: "mg_heap (dl_manager s) p = Some e"
    by (rule in_transitE [OF assms(3)])
  note undisturbed = transit_undisturbed [OF ok assms(3)]
  from assms(4) show ?thesis
  proof cases
    case (send_account u clk clk_us t1 t2 instant nanos metrics m' metrics')
    obtain frame where "encode_account_frame env instant nanos u = Ok frame" "valid_frame frame"
        "frame_of ce (frame_body frame) = Some (SM_AccountUpdate u \<lparr>sender_created_at_unix_nanos = nanos\<rparr>)"
      by (rule account_frame [OF assms(1) send_account(2)])
    from dispatch [OF this send_account(3) [unfolded dispatch_account_update_def]] show ?thesis
      unfolding send_account(1) .
  next
    case (send_transaction u clk clk_us t1 t2 instant nanos metrics m' metrics')
    obtain frame where "encode_transaction_frame instant nanos u = Ok frame" "valid_frame frame"
        "frame_of ce (frame_body frame) = Some (SM_TransactionUpdate u \<lparr>sender_created_at_unix_nanos = nanos\<rparr>)"
      by (rule transaction_frame [OF send_transaction(2)])
    from dispatch [OF this send_transaction(3) [unfolded dispatch_transaction_update_def]] show ?thesis
      unfolding send_transaction(1) .
  next
    case (send_slot clk clk_us t1 t2 instant nanos u metrics m' metrics')
    obtain frame where "encode_slot_frame instant nanos u = Ok frame" "valid_frame frame"
        "frame_of ce (frame_body frame) = Some (SM_SlotUpdate u \<lparr>sender_created_at_unix_nanos = nanos\<rparr>)"
      by (rule slot_frame_pushed)
    from dispatch [OF this send_slot(2) [unfolded dispatch_slot_update_def]] show ?thesis
      unfolding send_slot(1) .
  next
    case (send_upsert now1 clk now2 request dir cap r m')
    with undisturbed [OF undisturbed_upsert [OF ok assms(2) send_upsert(2) e send_upsert(3)]] show ?thesis by blast
  next
    case (send_ping now1 now2 ping b m')
    with undisturbed [OF undisturbed_ping [OF ok assms(2) e send_ping(2)]] show ?thesis by blast
  next
    case (other_read q d c r c' region)
    with undisturbed [OF undisturbed_other [OF e]] show ?thesis by blast
  next
    case (other_drain q d r k)
    with undisturbed [OF undisturbed_other [OF e]] show ?thesis by blast
  qed
qed

text \<open>Reading one item of a sink.\<close>

lemma sink_pop_frame:
  assumes "sink_rep sq sink (Frame b # items)"
  obtains q where "ring_try_pop sq c (sk_region sink) = (Some b, c, q)" and "sink_rep sq (sink\<lparr>sk_region := q\<rparr>) items"
proof -
  note rep = ring_repD [OF assms [unfolded sink_rep_ring [where c = c]]]
  obtain q where "ring_try_pop sq c (sk_region sink) = (Some b, c, q)"
      "sq_contents sq q = concat (map item_bytes items)" "sq_room sq q = sq_room sq (sk_region sink)"
    using ring_try_pop_frame [OF rep(1), of "sk_region sink" b "concat (map item_bytes items)" c] rep(2,5) by auto
  with rep that show thesis
    by (simp add: sink_rep_def ring_rep_def)
qed

lemma sink_pop_close:
  assumes "sink_rep sq sink (CloseMark # items)"
  obtains q where "ring_try_pop sq c (sk_region sink) = (None, c\<lparr>rc_closed := True\<rparr>, q)"
    and "sink_rep sq (sink\<lparr>sk_region := q\<rparr>) items"
proof -
  note rep = ring_repD [OF assms [unfolded sink_rep_ring [where c = c]]]
  obtain q where "ring_try_pop sq c (sk_region sink) = (None, c\<lparr>rc_closed := True\<rparr>, q)"
      "sq_contents sq q = concat (map item_bytes items)" "sq_room sq q = sq_room sq (sk_region sink)"
    using ring_try_pop_close [OF rep(1), of "sk_region sink" "concat (map item_bytes items)" c] rep(2) by auto
  with rep that show thesis
    by (simp add: sink_rep_def ring_rep_def)
qed

lemma sink_pop_empty:
  assumes "sink_rep sq sink []"
  shows "ring_try_pop sq c (sk_region sink) = (None, c, sk_region sink)"
  using ring_repD(1,2) [OF assms [unfolded sink_rep_ring [where c = c]]] by (simp add: ring_try_pop_empty)

lemma sink_rep_wakeup: "sink_rep sq (sink\<lparr>sk_wakeup := k\<rparr>) items \<longleftrightarrow> sink_rep sq sink items"
  by (simp add: sink_rep_def)

lemma enqueue_all_append: "enqueue_all n ys (enqueue_all n xs q) = enqueue_all n (xs @ ys) q"
proof (cases q)
  case (fields us ts ss)
  then show ?thesis
    using newest_append [of n "us @ List.map_filter account_of xs"] newest_append [of n "ts @ List.map_filter transaction_of xs"]
      newest_append [of n "ss @ List.map_filter slot_of xs"]
    by (simp add: enqueue_all_def List.map_filter_def)
qed

lemma queues_ring [simp]:
  "queues ce (rd\<lparr>rd_ring := c\<rparr>) = queues ce rd" "capacities ce (rd\<lparr>rd_ring := c\<rparr>) n = capacities ce rd n"
  by (simp_all add: queues_def capacities_def)

text \<open>The next frame moves from the ring to its queue.\<close>

lemma transit_read_frame:
  assumes "linked env ce" and "in_transit env ce p s received pending lost" and "dl_phase s = Draining"
    and "mg_heap (dl_manager s) p = Some e"
    and "ring_try_pop (ce_shaq ce) (rd_ring (dl_reader s)) (sk_region (mc_sink e)) = (Some bs, ring, region)"
    and "capacities ce (dl_reader s) n" and "queues ce (dl_reader s) = enqueue_all n received q0"
  obtains f pending' where "pending = f # pending'" and "in_transit env ce p
      (s\<lparr>dl_manager := set_connection (dl_manager s) p (e\<lparr>mc_sink := (mc_sink e)\<lparr>sk_region := region\<rparr>\<rparr>),
         dl_reader := handle_ring_frame ce clk bs ((dl_reader s)\<lparr>rd_ring := ring\<rparr>)\<rparr>) (received @ [f]) pending' lost"
    and "queues ce (handle_ring_frame ce clk bs ((dl_reader s)\<lparr>rd_ring := ring\<rparr>)) = enqueue_all n (received @ [f]) q0"
    and "capacities ce (handle_ring_frame ce clk bs ((dl_reader s)\<lparr>rd_ring := ring\<rparr>)) n"
proof -
  obtain bodies marks where t: "dl_log s = received @ pending @ lost" "length lost \<le> 1"
      "sink_rep (se_shaq env) (mc_sink e) (map Frame bodies @ replicate marks CloseMark)"
      "map (frame_of ce) bodies = map Some pending"
      "load_full (dl_manager s) (mc_slot_index e) = Some p \<longrightarrow> marks = 0 \<and> lost = []"
    using in_transitE [OF assms(2)] assms(4) by (metis option.inject)
  note shaq = linkedD(3) [OF assms(1)]
  obtain b bs' where bodies: "bodies = b # bs'"
  proof (cases bodies)
    case Nil
    then show thesis
      using t(3) assms(5) shaq sink_pop_empty [of "se_shaq env" "mc_sink e" "rd_ring (dl_reader s)"]
        sink_pop_close [of "se_shaq env" "mc_sink e" _ "rd_ring (dl_reader s)"] by (cases marks) fastforce+
  qed
  obtain q where q: "ring_try_pop (se_shaq env) (rd_ring (dl_reader s)) (sk_region (mc_sink e)) = (Some b, rd_ring (dl_reader s), q)"
      "sink_rep (se_shaq env) ((mc_sink e)\<lparr>sk_region := q\<rparr>) (map Frame bs' @ replicate marks CloseMark)"
    by (rule sink_pop_frame [OF t(3) [unfolded bodies, simplified]])
  then have b: "bs = b" "ring = rd_ring (dl_reader s)" "region = q"
    using assms(5) shaq by simp_all
  obtain f pending' where f: "pending = f # pending'" "frame_of ce b = Some f" "map (frame_of ce) bs' = map Some pending'"
    using t(4) bodies by auto
  let ?rd = "(dl_reader s)\<lparr>rd_ring := ring\<rparr>"
  note h = handle_ring_frame_queues [OF linkedD(2) [OF assms(1)], of ?rd n clk bs]
  have "frames_of ce [bs] = [f]"
    using f(2) b(1) by (simp add: frames_of_def List.map_filter_def)
  then have "queues ce (handle_ring_frame ce clk bs ?rd) = enqueue_all n (received @ [f]) q0"
    using h(1) assms(6,7) by (simp add: enqueue_all_append)
  moreover have "in_transit env ce p
      (s\<lparr>dl_manager := set_connection (dl_manager s) p (e\<lparr>mc_sink := (mc_sink e)\<lparr>sk_region := region\<rparr>\<rparr>),
         dl_reader := handle_ring_frame ce clk bs ?rd\<rparr>) (received @ [f]) pending' lost"
    using t f b q(2) assms(3)
    by (intro in_transitI [where e = "e\<lparr>mc_sink := (mc_sink e)\<lparr>sk_region := region\<rparr>\<rparr>" and bodies = bs' and marks = marks]) simp_all
  ultimately show thesis
    using that f(1) h(2) assms(6) by simp
qed

lemma transit_read_end:
  assumes "linked env ce" and "in_transit env ce p s received pending lost"
    and "mg_heap (dl_manager s) p = Some e"
    and "ring_try_pop (ce_shaq ce) (rd_ring (dl_reader s)) (sk_region (mc_sink e)) = (None, ring, region)"
  shows "pending = []" and "in_transit env ce p
      (s\<lparr>dl_manager := set_connection (dl_manager s) p (e\<lparr>mc_sink := (mc_sink e)\<lparr>sk_region := region\<rparr>\<rparr>),
         dl_reader := (dl_reader s)\<lparr>rd_ring := ring\<rparr>,
         dl_phase := (if ring_is_closed ring (mg_files (dl_manager s)) then Stopped else Waiting)\<rparr>) received pending lost"
proof -
  let ?c = "rd_ring (dl_reader s)"
  obtain bodies marks where t: "dl_log s = received @ pending @ lost" "length lost \<le> 1"
      "sink_rep (se_shaq env) (mc_sink e) (map Frame bodies @ replicate marks CloseMark)"
      "map (frame_of ce) bodies = map Some pending"
      "load_full (dl_manager s) (mc_slot_index e) = Some p \<longrightarrow> marks = 0 \<and> lost = []"
    using in_transitE [OF assms(2)] assms(3) by (metis option.inject)
  note shaq = linkedD(3) [OF assms(1)]
  have bodies: "bodies = []"
    using t(3) assms(4) shaq sink_pop_frame [of "se_shaq env" "mc_sink e" _ _ ?c] by (cases bodies) fastforce+
  then show "pending = []"
    using t(4) by simp
  show "in_transit env ce p
      (s\<lparr>dl_manager := set_connection (dl_manager s) p (e\<lparr>mc_sink := (mc_sink e)\<lparr>sk_region := region\<rparr>\<rparr>),
         dl_reader := (dl_reader s)\<lparr>rd_ring := ring\<rparr>,
         dl_phase := (if ring_is_closed ring (mg_files (dl_manager s)) then Stopped else Waiting)\<rparr>) received pending lost"
  proof (cases marks)
    case 0
    then have "region = sk_region (mc_sink e)"
      using t(3) bodies assms(4) shaq sink_pop_empty [of "se_shaq env" "mc_sink e" ?c] by simp
    with t bodies 0 show ?thesis
      by (intro in_transitI [where e = "e\<lparr>mc_sink := (mc_sink e)\<lparr>sk_region := region\<rparr>\<rparr>" and bodies = "[]" and marks = 0]) simp_all
  next
    case (Suc k)
    obtain q where "ring_try_pop (se_shaq env) ?c (sk_region (mc_sink e)) = (None, ?c\<lparr>rc_closed := True\<rparr>, q)"
        "sink_rep (se_shaq env) ((mc_sink e)\<lparr>sk_region := q\<rparr>) (replicate k CloseMark)"
      by (rule sink_pop_close [of "se_shaq env" "mc_sink e" "replicate k CloseMark"]) (use t(3) bodies Suc in simp)
    with t bodies Suc assms(4) shaq show ?thesis
      by (intro in_transitI [where e = "e\<lparr>mc_sink := (mc_sink e)\<lparr>sk_region := region\<rparr>\<rparr>" and bodies = "[]" and marks = k])
        (auto simp: ring_is_closed_def)
  qed
qed

lemma transit_wake:
  assumes "in_transit env ce p s received pending lost" and "mg_heap (dl_manager s) p = Some e"
  shows "in_transit env ce p
      (s\<lparr>dl_manager := set_connection (dl_manager s) p (e\<lparr>mc_sink := (mc_sink e)\<lparr>sk_wakeup := k\<rparr>\<rparr>),
         dl_phase := Draining\<rparr>) received pending lost"
proof -
  obtain bodies marks where "dl_log s = received @ pending @ lost" "length lost \<le> 1"
      "sink_rep (se_shaq env) (mc_sink e) (map Frame bodies @ replicate marks CloseMark)"
      "map (frame_of ce) bodies = map Some pending"
      "load_full (dl_manager s) (mc_slot_index e) = Some p \<longrightarrow> marks = 0 \<and> lost = []"
    using in_transitE [OF assms(1)] assms(2) by (metis option.inject)
  then show ?thesis
    by (intro in_transitI [where e = "e\<lparr>mc_sink := (mc_sink e)\<lparr>sk_wakeup := k\<rparr>\<rparr>" and bodies = bodies and marks = marks])
      (simp_all add: sink_rep_wakeup)
qed

lemma reader_step_manager:
  assumes "linked env ce" and "reader_step env ce p s s'"
  shows "mgr_step env (dl_manager s) (dl_manager s')"
  using assms(2) linkedD(3) [OF assms(1)] by cases (auto intro: step_read step_drain)

lemma delivery_inv_reader:
  assumes "linked env ce" and "delivery_inv env ce p n q0 s" and "reader_step env ce p s s'"
  shows "delivery_inv env ce p n q0 s'"
proof -
  obtain received pending lost where t: "in_transit env ce p s received pending lost"
      and q: "queues ce (dl_reader s) = enqueue_all n received q0" and c: "capacities ce (dl_reader s) n"
      and inv: "mgr_inv env (dl_manager s)"
    using assms(2) unfolding delivery_inv_def by blast
  have inv': "mgr_inv env (dl_manager s')"
    using step_keeps [OF linkedD(1) [OF assms(1)] inv reader_step_manager [OF assms(1,3)]] by blast
  from assms(3) show ?thesis
  proof cases
    case (read_frame e bs ring region clk)
    obtain f pending' where "in_transit env ce p s' (received @ [f]) pending' lost"
        "queues ce (dl_reader s') = enqueue_all n (received @ [f]) q0" "capacities ce (dl_reader s') n"
      by (rule transit_read_frame [OF assms(1) t read_frame(2-4) c q, of clk]) (use read_frame(1) that in simp)
    with inv' show ?thesis unfolding delivery_inv_def by blast
  next
    case (read_end e ring region)
    from transit_read_end(2) [OF assms(1) t read_end(3,4)] have "in_transit env ce p s' received pending lost"
      unfolding read_end(1) .
    moreover have "queues ce (dl_reader s') = enqueue_all n received q0" "capacities ce (dl_reader s') n"
      using q c read_end(1) by simp_all
    ultimately show ?thesis
      using inv' unfolding delivery_inv_def by blast
  next
    case (read_wake e k w)
    from transit_wake [OF t read_wake(3)] have "in_transit env ce p s' received pending lost"
      unfolding read_wake(1) .
    moreover have "queues ce (dl_reader s') = enqueue_all n received q0" "capacities ce (dl_reader s') n"
      using q c read_wake(1) by simp_all
    ultimately show ?thesis
      using inv' unfolding delivery_inv_def by blast
  qed
qed

lemma sender_step_reader: "sender_step env p s s' \<Longrightarrow> dl_reader s' = dl_reader s"
  by (induction rule: sender_step.induct) simp_all

lemma delivery_inv_sender:
  assumes "linked env ce" and "delivery_inv env ce p n q0 s" and "sender_step env p s s'"
  shows "delivery_inv env ce p n q0 s'"
proof -
  obtain received pending lost where t: "in_transit env ce p s received pending lost"
      and q: "queues ce (dl_reader s) = enqueue_all n received q0" and c: "capacities ce (dl_reader s) n"
      and inv: "mgr_inv env (dl_manager s)"
    using assms(2) unfolding delivery_inv_def by blast
  moreover have "mgr_inv env (dl_manager s')"
    using step_keeps [OF linkedD(1) [OF assms(1)] inv sender_step_manager [OF assms(3)]] by blast
  ultimately show ?thesis
    using transit_sender [OF assms(1) inv t assms(3)] sender_step_reader [OF assms(3)]
    unfolding delivery_inv_def by metis
qed

abbreviation start :: "('q, 'k, 'b) connection_manager \<Rightarrow> ('u, 't, 's) reader \<Rightarrow> ('q, 'k, 'b, 'u, 't, 's) delivery" where
  "start m rd \<equiv> \<lparr>dl_manager = m, dl_reader = rd, dl_phase = Draining, dl_log = []\<rparr>"

lemma delivery_inv_start:
  assumes "linked env ce" and "mgr_inv env m" and "mg_heap m p = Some e" and "sink_rep (se_shaq env) (mc_sink e) []"
    and "capacities ce rd n"
  shows "delivery_inv env ce p n (queues ce rd) (start m rd)"
proof -
  have "in_transit env ce p (start m rd) [] [] []"
    using assms(3,4) by (intro in_transitI [where e = e and bodies = "[]" and marks = 0]) simp_all
  then show ?thesis
    using assms(2,5) enqueue_all_Nil [OF linkedD(2) [OF assms(1)] assms(5)] unfolding delivery_inv_def by fastforce
qed

lemma delivery_inv_steps:
  assumes "linked env ce" and "delivery_inv env ce p n q0 s" and "(system_step env ce p)\<^sup>*\<^sup>* s s'"
  shows "delivery_inv env ce p n q0 s'"
  using assms(3,2)
  by (induction rule: rtranclp_induct)
    (auto simp: system_step_def intro: delivery_inv_sender [OF assms(1)] delivery_inv_reader [OF assms(1)])


section \<open>Properties of the system\<close>


lemma sample_linked: "linked sample_env sample_consumer_env"
  using sample_env_ok sample_consumer(1) run_length_lossless
  by (simp add: linked_def) (simp add: sample_env_def sample_consumer_env_def)

abbreviation sample_update_frame :: server_frame_with_meta where
  "sample_update_frame \<equiv> SM_SlotUpdate \<lparr>su_slot = 42\<rparr> \<lparr>sender_created_at_unix_nanos = 5\<rparr>"

lemma sample_sent:
  obtains s e where "(system_step sample_env sample_consumer_env 0)\<^sup>*\<^sup>* (start sample_manager sample_reader) s"
    and "dl_log s = [sample_update_frame]" and "dl_phase s = Draining" and "mg_heap (dl_manager s) 0 = Some e"
    and "load_full (dl_manager s) (mc_slot_index e) = Some 0"
proof -
  obtain frame where f: "encode_slot_frame 7 5 \<lparr>su_slot = 42\<rparr> = Ok frame" "valid_frame frame"
    by (rule slot_frame_pushed)
  obtain m mt where d: "dispatch_slot_update sample_env (\<lambda>_. 2000) (\<lambda>_. 9) 7 9 7 5 \<lparr>su_slot = 42\<rparr>
      (sample_manager, sender_metrics_new) = (m, mt)"
    by force
  have live: "\<not> is_stale 2000 sample_connection"
    by (simp add: is_stale_def sat_sub_def sample_connection_def const_defs)
  have idx: "mc_slot_index sample_connection = 0" and cap: "rp_capacity (sk_ring (mc_sink sample_connection)) = 256"
    by (simp_all add: sample_connection_def)
  obtain h pl where "slot_encode_parts_at \<lparr>su_slot = 42\<rparr> 5 = Ok (h, pl)" "frame_body frame = h @ pl"
    using f(1) by (auto simp: encode_slot_frame_def bindR_eq_Ok)
  then have "sink_fits (mc_sink sample_connection) [] frame"
    using slot_codec.encode_bound [OF TrueI, of "\<lparr>su_slot = 42\<rparr>" 5 h pl] cap by (simp add: const_defs)
  moreover have "dispatch_outcome sample_env 2000 (\<lambda>_. True) frame 0 0 sample_connection [] m"
    using dispatch_with_outcome [OF sample_env_ok sample_inv f sample_slot, of "\<lambda>_. 2000" "\<lambda>_. True"] d
    unfolding dispatch_slot_update_def by (metis fst_conv)
  ultimately obtain e where e: "mg_heap m 0 = Some e" "mc_slot_index e = 0" "load_full m 0 = Some 0"
    using live idx unfolding dispatch_outcome_def by auto
  have "due (\<lambda>_. 2000) (\<lambda>_. True) sample_manager 0"
    using sample_slot live idx by (simp add: due_def)
  with send_slot [of sample_env "\<lambda>_. 2000" "\<lambda>_. 9" 7 9 7 5 "\<lparr>su_slot = 42\<rparr>" "start sample_manager sample_reader" _ m mt 0] d
  have "system_step sample_env sample_consumer_env 0 (start sample_manager sample_reader)
      ((start sample_manager sample_reader)\<lparr>dl_manager := m, dl_log := [sample_update_frame]\<rparr>)"
    by (simp add: system_step_def)
  then have "(system_step sample_env sample_consumer_env 0)\<^sup>*\<^sup>* (start sample_manager sample_reader)
      ((start sample_manager sample_reader)\<lparr>dl_manager := m, dl_log := [sample_update_frame]\<rparr>)"
    by (rule r_into_rtranclp)
  from that [OF this] e show thesis by simp
qed

lemma sample_queues: "queues sample_consumer_env sample_reader = ([], [], [])"
  by (simp add: queues_def sample_consumer_env_def sample_reader_def list_array_queue_def lq_contents_def)


text \<open>Draining takes out everything the ring holds, whatever the length.\<close>

lemma drain_all:
  assumes "linked env ce" and "in_transit env ce p s received pending lost" and "dl_phase s = Draining"
    and "capacities ce (dl_reader s) n" and "queues ce (dl_reader s) = enqueue_all n received q0"
  shows "\<exists>s'. (reader_step env ce p)\<^sup>*\<^sup>* s s' \<and> dl_phase s' \<noteq> Draining \<and>
    queues ce (dl_reader s') = enqueue_all n (received @ pending) q0"
  using assms(2-5)
proof (induction pending arbitrary: s received)
  case (Cons f pending)
  obtain e where e: "mg_heap (dl_manager s) p = Some e"
    by (rule in_transitE [OF Cons.prems(1)])
  let ?pop = "ring_try_pop (ce_shaq ce) (rd_ring (dl_reader s)) (sk_region (mc_sink e))"
  obtain bs ring region where pop: "?pop = (Some bs, ring, region)"
    using transit_read_end(1) [OF assms(1) Cons.prems(1) e] by (metis list.distinct(1) option.exhaust prod_cases3)
  fix clk
  let ?s = "s\<lparr>dl_manager := set_connection (dl_manager s) p (e\<lparr>mc_sink := (mc_sink e)\<lparr>sk_region := region\<rparr>\<rparr>),
    dl_reader := handle_ring_frame ce clk bs ((dl_reader s)\<lparr>rd_ring := ring\<rparr>)\<rparr>"
  have step: "reader_step env ce p s ?s"
    by (rule read_frame [OF Cons.prems(2) e pop])
  have "in_transit env ce p ?s (received @ [f]) pending lost" "capacities ce (dl_reader ?s) n"
      "queues ce (dl_reader ?s) = enqueue_all n (received @ [f]) q0"
    by (rule transit_read_frame [OF assms(1) Cons.prems(1,2) e pop Cons.prems(3,4), of clk], simp)+
  from Cons.IH [OF this(1) _ this(2,3)] Cons.prems(2) obtain s' where
    "(reader_step env ce p)\<^sup>*\<^sup>* ?s s'" "dl_phase s' \<noteq> Draining" "queues ce (dl_reader s') = enqueue_all n (received @ f # pending) q0"
    by auto
  with step show ?case
    by (meson converse_rtranclp_into_rtranclp)
next
  case Nil
  obtain e where e: "mg_heap (dl_manager s) p = Some e"
    by (rule in_transitE [OF Nil.prems(1)])
  let ?pop = "ring_try_pop (ce_shaq ce) (rd_ring (dl_reader s)) (sk_region (mc_sink e))"
  obtain ring region where pop: "?pop = (None, ring, region)"
    using transit_read_frame [OF assms(1) Nil.prems(1,2) e _ Nil.prems(3,4)] by (metis list.distinct(1) option.exhaust prod_cases3)
  let ?s = "s\<lparr>dl_manager := set_connection (dl_manager s) p (e\<lparr>mc_sink := (mc_sink e)\<lparr>sk_region := region\<rparr>\<rparr>),
    dl_reader := (dl_reader s)\<lparr>rd_ring := ring\<rparr>,
    dl_phase := (if ring_is_closed ring (mg_files (dl_manager s)) then Stopped else Waiting)\<rparr>"
  have "reader_step env ce p s ?s"
    by (rule read_end [OF Nil.prems(2) e pop])
  then have "(reader_step env ce p)\<^sup>*\<^sup>* s ?s"
    by (rule r_into_rtranclp)
  then show ?case
    using Nil.prems(4) by (intro exI [of _ ?s]) simp
qed




section \<open>Eviction and the reader\<close>

text \<open>A reader that finds no close mark and the file still there goes to sleep, with an empty ring.\<close>

lemma drain_open:
  assumes "linked env ce" and "dl_phase s = Draining" and "mg_heap (dl_manager s) p = Some e"
    and "sink_rep (se_shaq env) (mc_sink e) (map Frame bodies)" and "\<not> ring_is_closed (rd_ring (dl_reader s)) (mg_files (dl_manager s))"
  obtains s' q where "(reader_step env ce p)\<^sup>*\<^sup>* s s'" and "dl_phase s' = Waiting"
    and "dl_manager s' = set_connection (dl_manager s) p (e\<lparr>mc_sink := (mc_sink e)\<lparr>sk_region := q\<rparr>\<rparr>)"
    and "sink_rep (se_shaq env) ((mc_sink e)\<lparr>sk_region := q\<rparr>) []" and "rd_ring (dl_reader s') = rd_ring (dl_reader s)"
proof -
  note shaq = linkedD(3) [OF assms(1)]
  have "\<exists>s' q. (reader_step env ce p)\<^sup>*\<^sup>* s s' \<and> dl_phase s' = Waiting \<and>
      dl_manager s' = set_connection (dl_manager s) p (e\<lparr>mc_sink := (mc_sink e)\<lparr>sk_region := q\<rparr>\<rparr>) \<and>
      sink_rep (se_shaq env) ((mc_sink e)\<lparr>sk_region := q\<rparr>) [] \<and> rd_ring (dl_reader s') = rd_ring (dl_reader s)"
    using assms(2-5)
  proof (induction bodies arbitrary: s e)
    case Nil
    note empty = sink_pop_empty [of "se_shaq env" "mc_sink e" "rd_ring (dl_reader s)"]
    let ?s = "s\<lparr>dl_manager := set_connection (dl_manager s) p (e\<lparr>mc_sink := (mc_sink e)\<lparr>sk_region := sk_region (mc_sink e)\<rparr>\<rparr>),
      dl_reader := (dl_reader s)\<lparr>rd_ring := rd_ring (dl_reader s)\<rparr>,
      dl_phase := (if ring_is_closed (rd_ring (dl_reader s)) (mg_files (dl_manager s)) then Stopped else Waiting)\<rparr>"
    have "reader_step env ce p s ?s"
      by (rule read_end [OF Nil.prems(1,2)]) (use empty Nil.prems(3) shaq in simp)
    then have "(reader_step env ce p)\<^sup>*\<^sup>* s ?s"
      by (rule r_into_rtranclp)
    then show ?case
      using Nil.prems by (intro exI [of _ ?s] exI [of _ "sk_region (mc_sink e)"]) simp
  next
    case (Cons b bodies)
    obtain q where q: "ring_try_pop (se_shaq env) (rd_ring (dl_reader s)) (sk_region (mc_sink e)) = (Some b, rd_ring (dl_reader s), q)"
        "sink_rep (se_shaq env) ((mc_sink e)\<lparr>sk_region := q\<rparr>) (map Frame bodies)"
      by (rule sink_pop_frame [OF Cons.prems(3) [simplified]])
    fix clk
    let ?e = "e\<lparr>mc_sink := (mc_sink e)\<lparr>sk_region := q\<rparr>\<rparr>"
    let ?s = "s\<lparr>dl_manager := set_connection (dl_manager s) p ?e,
      dl_reader := handle_ring_frame ce clk b ((dl_reader s)\<lparr>rd_ring := rd_ring (dl_reader s)\<rparr>)\<rparr>"
    have step: "reader_step env ce p s ?s"
      by (rule read_frame [OF Cons.prems(1,2)]) (use q shaq in simp)
    obtain s' q' where "(reader_step env ce p)\<^sup>*\<^sup>* ?s s'" "dl_phase s' = Waiting"
        "dl_manager s' = set_connection (dl_manager s) p (e\<lparr>mc_sink := (mc_sink e)\<lparr>sk_region := q'\<rparr>\<rparr>)"
        "sink_rep (se_shaq env) ((mc_sink e)\<lparr>sk_region := q'\<rparr>) []" "rd_ring (dl_reader s') = rd_ring (dl_reader s)"
      using Cons.IH [of ?s ?e] Cons.prems q(2) by auto
    with converse_rtranclp_into_rtranclp [where r = "reader_step env ce p", OF step] show ?case
      by (intro exI [of _ s'] exI [of _ q']) simp
  qed
  with that show thesis by blast
qed

text \<open>
  C38: an evicted consumer may never notice. \<open>cleanup_if_same\<close> first closes the sink and only then takes
  the connection out of its slot, which unlinks the file. When the ring has no room for the close mark,
  the mark is dropped; a reader that runs between the two halves takes all frames, finds the ring
  open and its file present, uses up the wakeup and waits. The second half then removes the
  file without another wakeup: the ring counts as closed, and the reader has no step left.
\<close>

theorem evicted_reader_sleeps:
  assumes "linked env ce" and "mg_heap m p = Some e" and "load_full m (mc_slot_index e) = Some p"
    and "sink_rep (se_shaq env) (mc_sink e) (map Frame bodies)"
    and "rp_capacity (sk_ring (mc_sink e)) < used (map Frame bodies) + 4" and "rp_owns_file (sk_ring (mc_sink e))"
    and "rp_path (sk_ring (mc_sink e)) \<in> mg_files m"
    and "rc_path (rd_ring rd) = rp_path (sk_ring (mc_sink e))" and "\<not> rc_closed (rd_ring rd)"
  shows "cleanup_if_same env m (mc_slot_index e) (mc_connection_id e) =
      swap_out (set_connection m p (close_connection env e)) (mc_slot_index e) p e \<and>
    (\<exists>s e'. (reader_step env ce p)\<^sup>*\<^sup>* (start (set_connection m p (close_connection env e)) rd) s \<and>
      mg_heap (dl_manager s) p = Some e' \<and>
      (let s' = s\<lparr>dl_manager := swap_out (dl_manager s) (mc_slot_index e) p e'\<rparr>
       in ring_is_closed (rd_ring (dl_reader s')) (mg_files (dl_manager s')) \<and> \<not> (\<exists>s''. reader_step env ce p s' s'')))"
proof
  show "cleanup_if_same env m (mc_slot_index e) (mc_connection_id e) =
      swap_out (set_connection m p (close_connection env e)) (mc_slot_index e) p e"
    using assms(2,3) by (simp add: cleanup_if_same_def)
  let ?e1 = "close_connection env e" and ?sq = "se_shaq env" and ?ek = "se_efd env"
  let ?m1 = "set_connection m p ?e1" and ?c = "rd_ring rd"
  note ek = linkedD(6) [OF assms(1)]
  have rep: "sink_rep ?sq (mc_sink ?e1) (map Frame bodies)"
    using sink_close_rep(1) [OF assms(4) ek] assms(5) by (simp add: close_connection_def)
  have woken: "0 < ek_count ?ek (sk_wakeup (mc_sink ?e1))"
    using sink_close_rep(3) [OF assms(4) ek] by (simp add: close_connection_def)
  obtain s1 q1 where s1: "(reader_step env ce p)\<^sup>*\<^sup>* (start ?m1 rd) s1" "dl_phase s1 = Waiting"
      "dl_manager s1 = set_connection m p (?e1\<lparr>mc_sink := (mc_sink ?e1)\<lparr>sk_region := q1\<rparr>\<rparr>)"
      "sink_rep ?sq ((mc_sink ?e1)\<lparr>sk_region := q1\<rparr>) []" "rd_ring (dl_reader s1) = ?c"
    by (rule drain_open [OF assms(1), of "start ?m1 rd" p ?e1 bodies]) (use rep assms(7-9) in \<open>simp_all add: ring_is_closed_def\<close>)
  let ?e2 = "?e1\<lparr>mc_sink := (mc_sink ?e1)\<lparr>sk_region := q1\<rparr>\<rparr>"
  obtain n w where w: "efd_drain ?ek (sk_wakeup (mc_sink ?e2)) = (Inr n, w)" "n \<noteq> 0" "ek_count ?ek w = 0"
    using efd_wakeup.drain_count [OF ek, of "sk_wakeup (mc_sink ?e2)"] woken by fastforce
  let ?e3 = "?e2\<lparr>mc_sink := (mc_sink ?e2)\<lparr>sk_wakeup := w\<rparr>\<rparr>"
  let ?s2 = "s1\<lparr>dl_manager := set_connection (dl_manager s1) p ?e3, dl_phase := Draining\<rparr>"
  have "reader_step env ce p s1 ?s2"
    by (rule read_wake [OF s1(2) _ w(1,2)]) (simp add: s1(3))
  with s1(1) have run: "(reader_step env ce p)\<^sup>*\<^sup>* (start ?m1 rd) ?s2"
    by (rule rtranclp.rtrancl_into_rtrancl)
  obtain s3 q3 where s3: "(reader_step env ce p)\<^sup>*\<^sup>* ?s2 s3" "dl_phase s3 = Waiting"
      "dl_manager s3 = set_connection m p (?e3\<lparr>mc_sink := (mc_sink ?e3)\<lparr>sk_region := q3\<rparr>\<rparr>)" "rd_ring (dl_reader s3) = ?c"
    by (rule drain_open [OF assms(1), of ?s2 p ?e3 "[]"])
      (use s1(3,4,5) assms(7-9) in \<open>simp_all add: ring_is_closed_def sink_rep_wakeup\<close>)
  let ?e4 = "?e3\<lparr>mc_sink := (mc_sink ?e3)\<lparr>sk_region := q3\<rparr>\<rparr>"
  let ?s' = "s3\<lparr>dl_manager := swap_out (dl_manager s3) (mc_slot_index e) p ?e4\<rparr>"
  have "ring_is_closed (rd_ring (dl_reader ?s')) (mg_files (dl_manager ?s'))"
    using s3(3,4) assms(3,6,8) by (simp add: swap_out_same ring_is_closed_def ring_drop_def)
  moreover have "\<not> reader_step env ce p ?s' s''" for s''
    using s3(2,3) efd_wakeup.drain_idle [OF ek w(3)] by (auto elim!: reader_stepE)
  moreover have "(reader_step env ce p)\<^sup>*\<^sup>* (start ?m1 rd) s3"
    using run s3(1) by (rule rtranclp_trans)
  ultimately show "\<exists>s e'. (reader_step env ce p)\<^sup>*\<^sup>* (start ?m1 rd) s \<and> mg_heap (dl_manager s) p = Some e' \<and>
      (let s' = s\<lparr>dl_manager := swap_out (dl_manager s) (mc_slot_index e) p e'\<rparr>
       in ring_is_closed (rd_ring (dl_reader s')) (mg_files (dl_manager s')) \<and> \<not> (\<exists>s''. reader_step env ce p s' s''))"
    using s3(3) by (intro exI [of _ s3] exI [of _ ?e4]) (simp add: Let_def)
qed

definition full_connection :: "(list_queue, nat, bytes list) managed_connection" where
  "full_connection = sample_connection\<lparr>mc_sink := (mc_sink sample_connection)
     \<lparr>sk_region := (256, item_bytes (Frame (replicate 252 7)))\<rparr>\<rparr>"

lemma full_connection_rep:
  "sink_rep (se_shaq sample_env) (mc_sink full_connection) (map Frame [replicate 252 7])"
  by (simp add: full_connection_def sink_rep_def ring_rep_def sample_env_def sample_connection_def list_shaq_ok)
    (simp add: list_shaq_def)

theorem evicted_reader_sleeps_witness:
  "\<exists>s e'. (reader_step sample_env sample_consumer_env 0)\<^sup>*\<^sup>*
       (start (set_connection (set_connection sample_manager 0 full_connection) 0 (close_connection sample_env full_connection))
         (sample_reader\<lparr>rd_ring := \<lparr>rc_capacity = 256, rc_path = ''/dev/shm/7-0-1'', rc_closed = False\<rparr>\<rparr>)) s \<and>
     mg_heap (dl_manager s) 0 = Some e' \<and>
     \<not> (\<exists>s''. reader_step sample_env sample_consumer_env 0 (s\<lparr>dl_manager := swap_out (dl_manager s) 0 0 e'\<rparr>) s'')"
proof -
  let ?m = "set_connection sample_manager 0 full_connection"
  let ?rd = "sample_reader\<lparr>rd_ring := \<lparr>rc_capacity = 256, rc_path = ''/dev/shm/7-0-1'', rc_closed = False\<rparr>\<rparr>"
  have idx: "mc_slot_index full_connection = 0"
    by (simp add: full_connection_def sample_connection_def)
  have full: "mg_heap ?m 0 = Some full_connection" "load_full ?m (mc_slot_index full_connection) = Some 0"
      "rp_capacity (sk_ring (mc_sink full_connection)) < used (map Frame [replicate 252 7]) + 4"
      "rp_owns_file (sk_ring (mc_sink full_connection))" "rp_path (sk_ring (mc_sink full_connection)) \<in> mg_files ?m"
      "rc_path (rd_ring ?rd) = rp_path (sk_ring (mc_sink full_connection))" "\<not> rc_closed (rd_ring ?rd)"
    using sample_slot(1) idx by (simp_all add: full_connection_def sample_connection_def sample_manager_def)
  from evicted_reader_sleeps [OF sample_linked full(1,2) full_connection_rep full(3-7)] show ?thesis
    unfolding idx Let_def by blast
qed

end
