(* ===== verification/Manager_Tasks.thy ===== *)
theory Manager_Tasks
  imports Dispatch
begin

text \<open>
  The operations of the connection manager (\<open>src/sender/mod.rs\<close>) at the grain at which they really
  interleave. The manager has no lock: its tasks share the ten slots, the id counter and the connections,
  and each access to one of them is atomic but an operation is not. A task is a program counter with
  its local variables; \<open>task_step\<close> performs one access. Writing to a ring and notifying its reader count as
  one access; the metrics of an operation are in \<open>Connection_Manager\<close>. The atomic operations of \<open>Connection_Manager\<close> are
  what a task does when nobody interferes.
\<close>

section \<open>Tasks\<close>

text \<open>What a lookup is for, an installation under way, and a dispatch pass under way.\<close>

datatype purpose = Subscribing subscription_request string nat | Pinging

record 'b installation =
  in_filter :: "'b subscription_filter"
  in_connection_id :: u64
  in_shm_dir :: string
  in_ring_capacity :: nat

record 'b job =
  jb_matches :: "'b subscription_filter \<Rightarrow> bool"
  jb_encode :: "outbound_frame qresult"
  jb_shared_frame :: "outbound_frame option"

text \<open>Where a task goes on after it has closed and swapped out a connection.\<close>

datatype 'b continuation =
  Then_Not_Found purpose
| Then_Scan_Again "'b installation" nat
| Then_Visit "'b job" nat

datatype outcome = Provided "shm_slot_provision qresult" | Ping_Answer bool | Dispatched | Dangling

text \<open>
  The program counters, one for each atomic access: the lookup of a token, the cleanup shared by all
  operations, the refresh, the installation loop, and the dispatch loop. \<open>Finished Dangling\<close> is where a
  task would go that follows a pointer to nothing.
\<close>

datatype ('q, 'k, 'b) task =
  Lookup purpose slot_token
| Lookup_Stale purpose nat ptr
| Close_Sink "'b continuation" nat ptr
| Swap_Out "'b continuation" nat ptr
| Touch purpose ptr
| Load_Filter subscription_request ptr
| Store_Filter "'b subscription_filter" ptr
| Take_Id subscription_request string nat
| Scan "'b installation" nat
| Scan_Stale "'b installation" nat ptr
| Scan_Again "'b installation" nat ptr
| Create_Ring "'b installation" nat
| Create_Eventfd "'b installation" nat ring_producer 'q
| Install "'b installation" nat "('q, 'k) slot_sink"
| Refused "'b installation" "('q, 'k) slot_sink"
| Visit "'b job" nat
| Visit_Stale "'b job" nat ptr
| Match "'b job" nat ptr
| Push_Frame "'b job" outbound_frame nat ptr
| Evict "'b job" nat ptr
| Finished outcome

definition deref ::
  "('q, 'k, 'b) connection_manager \<Rightarrow> ptr \<Rightarrow>
     (('q, 'k, 'b) managed_connection \<Rightarrow> ('q, 'k, 'b) task \<times> ('q, 'k, 'b) connection_manager) \<Rightarrow>
     ('q, 'k, 'b) task \<times> ('q, 'k, 'b) connection_manager" where
  "deref m p f = (case mg_heap m p of None \<Rightarrow> (Finished Dangling, m) | Some e \<Rightarrow> f e)"

primrec not_found :: "purpose \<Rightarrow> ('q, 'k, 'b) task" where
  "not_found (Subscribing request shm_dir ring_capacity) = Take_Id request shm_dir ring_capacity"
| "not_found Pinging = Finished (Ping_Answer False)"

primrec resume :: "'b continuation \<Rightarrow> ptr \<Rightarrow> ('q, 'k, 'b) task" where
  "resume (Then_Not_Found purpose) p = not_found purpose"
| "resume (Then_Scan_Again inst idx) p = Scan_Again inst idx p"
| "resume (Then_Visit job idx) p = Visit job idx"

text \<open>How the three operations start.\<close>

definition upsert_task :: "subscription_request \<Rightarrow> string \<Rightarrow> nat \<Rightarrow> ('q, 'k, 'b) task" where
  "upsert_task request shm_dir ring_capacity =
     (case sr_slot_token request of
        None \<Rightarrow> Take_Id request shm_dir ring_capacity
      | Some token \<Rightarrow> Lookup (Subscribing request shm_dir ring_capacity) token)"

definition ping_task :: "ping_request \<Rightarrow> ('q, 'k, 'b) task" where
  "ping_task ping = Lookup Pinging (pr_slot_token ping)"

definition dispatch_task :: "('b subscription_filter \<Rightarrow> bool) \<Rightarrow> outbound_frame qresult \<Rightarrow> ('q, 'k, 'b) task" where
  "dispatch_task matches encode = Visit \<lparr>jb_matches = matches, jb_encode = encode, jb_shared_frame = None\<rparr> 0"


section \<open>One access\<close>

text \<open>
  \<open>now\<close> is the clock, for the accesses that read it. Swapping a connection out removes one reference to
  it; the file goes with the last one (\<open>reclaim\<close> below). A connection that the swap into a slot refuses
  is dropped at once and never gets an address.
\<close>

fun task_step ::
  "('q, 'k, 'b) sender_env \<Rightarrow> u64 \<Rightarrow> ('q, 'k, 'b) task \<Rightarrow> ('q, 'k, 'b) connection_manager \<Rightarrow>
     ('q, 'k, 'b) task \<times> ('q, 'k, 'b) connection_manager" where
  "task_step env now (Lookup purpose token) m =
     (let idx = unat (st_slot_index token)
      in if idx \<ge> MAX_CONNECTION_SLOTS then (not_found purpose, m)
         else case load_full m idx of
           None \<Rightarrow> (not_found purpose, m)
         | Some p \<Rightarrow> deref m p (\<lambda>e.
             if mc_connection_id e \<noteq> st_generation token then (not_found purpose, m)
             else (Lookup_Stale purpose idx p, m)))"
| "task_step env now (Lookup_Stale purpose idx p) m = deref m p (\<lambda>e.
     if is_stale now e then (Close_Sink (Then_Not_Found purpose) idx p, m) else (Touch purpose p, m))"
| "task_step env now (Close_Sink k idx p) m = deref m p (\<lambda>e.
     (Swap_Out k idx p, set_connection m p (close_connection env e)))"
| "task_step env now (Swap_Out k idx p) m = (resume k p, snd (compare_and_swap m idx (Some p) None))"
| "task_step env now (Touch purpose p) m = deref m p (\<lambda>e.
     (case purpose of
        Pinging \<Rightarrow> Finished (Ping_Answer True)
      | Subscribing request _ _ \<Rightarrow> Load_Filter request p, set_connection m p (e\<lparr>mc_last_seen_ms := now\<rparr>)))"
| "task_step env now (Load_Filter request p) m = deref m p (\<lambda>e.
     (Store_Filter (filter_with_request (se_bloom env) (mc_filter e) request) p, m))"
| "task_step env now (Store_Filter flt p) m = deref m p (\<lambda>e.
     (Finished (Provided (Ok (Existing (connection_token e)))), set_connection m p (e\<lparr>mc_filter := flt\<rparr>)))"
| "task_step env now (Take_Id request shm_dir ring_capacity) m =
     (Scan \<lparr>in_filter = filter_from_request (se_bloom env) request, in_connection_id = mg_next_connection_id m,
            in_shm_dir = shm_dir, in_ring_capacity = ring_capacity\<rparr> 0,
      m\<lparr>mg_next_connection_id := mg_next_connection_id m + 1\<rparr>)"
| "task_step env now (Scan inst idx) m =
     (if idx \<ge> MAX_CONNECTION_SLOTS
      then (Finished (Provided (Err (ConfigError (''connection slots exhausted (max '' @ show_nat MAX_CONNECTION_SLOTS @ '')'')))), m)
      else case load_full m idx of None \<Rightarrow> (Create_Ring inst idx, m) | Some p \<Rightarrow> (Scan_Stale inst idx p, m))"
| "task_step env now (Scan_Stale inst idx p) m = deref m p (\<lambda>e.
     if is_stale now e then (Close_Sink (Then_Scan_Again inst idx) idx p, m) else (Scan inst (Suc idx), m))"
| "task_step env now (Scan_Again inst idx p) m =
     (if load_full m idx = None then (Create_Ring inst idx, m) else (Scan inst (Suc idx), m))"
| "task_step env now (Create_Ring inst idx) m =
     (let ring_path = path_join (in_shm_dir inst) (ring_file_name (se_pid env) idx (in_connection_id inst))
      in case ring_create (se_shaq env) (se_fs env) (mg_files m) ring_path (in_ring_capacity inst) of
           (Ok (ring, region), fs) \<Rightarrow> (Create_Eventfd inst idx ring region, m\<lparr>mg_files := fs\<rparr>)
         | (Err e, fs) \<Rightarrow> (Finished (Provided (Err e)), m\<lparr>mg_files := fs\<rparr>)
         | (Panic, fs) \<Rightarrow> (Finished (Provided Panic), m\<lparr>mg_files := fs\<rparr>))"
| "task_step env now (Create_Eventfd inst idx ring region) m =
     (case se_eventfd env of
        Inl e \<Rightarrow> (Finished (Provided (Err (ShmError (''eventfd: '' @ e)))), m\<lparr>mg_files := ring_drop ring (mg_files m)\<rparr>)
      | Inr eventfd \<Rightarrow> (Install inst idx (sink_shm ring region eventfd), m))"
| "task_step env now (Install inst idx sink) m =
     (if load_full m idx = None
      then (Finished (Provided (Ok (Created (slot_token_new (of_nat idx) (in_connection_id inst)) (rp_path (sk_ring sink))
              (of_nat (in_ring_capacity inst)) (mg_next_ptr m)))),
            install m idx \<lparr>mc_slot_index = idx, mc_connection_id = in_connection_id inst, mc_filter = in_filter inst,
              mc_sink = sink, mc_last_seen_ms = now\<rparr>)
      else (Refused inst sink, m))"
| "task_step env now (Refused inst sink) m = (Scan inst 0, m\<lparr>mg_files := ring_drop (sk_ring sink) (mg_files m)\<rparr>)"
| "task_step env now (Visit job idx) m =
     (if idx \<ge> MAX_CONNECTION_SLOTS then (Finished Dispatched, m)
      else case load_full m idx of None \<Rightarrow> (Visit job (Suc idx), m) | Some p \<Rightarrow> (Visit_Stale job idx p, m))"
| "task_step env now (Visit_Stale job idx p) m = deref m p (\<lambda>e.
     if is_stale now e then (Close_Sink (Then_Visit job (Suc idx)) idx p, m) else (Match job idx p, m))"
| "task_step env now (Match job idx p) m = deref m p (\<lambda>e.
     if \<not> jb_matches job (mc_filter e) then (Visit job (Suc idx), m)
     else case (case jb_shared_frame job of Some frame \<Rightarrow> Ok frame | None \<Rightarrow> jb_encode job) of
            Ok frame \<Rightarrow> (Push_Frame (job\<lparr>jb_shared_frame := Some frame\<rparr>) frame idx p, m)
          | _ \<Rightarrow> (Finished Dispatched, m))"
| "task_step env now (Push_Frame job frame idx p) m = deref m p (\<lambda>e.
     case sink_try_push (se_shaq env) (se_efd env) (mc_sink e) frame of
       (Inr _, sink) \<Rightarrow> (Visit job (Suc idx), set_connection m p (e\<lparr>mc_sink := sink\<rparr>))
     | (Inl _, sink) \<Rightarrow> (Evict job idx p, set_connection m p (e\<lparr>mc_sink := sink\<rparr>)))"
| "task_step env now (Evict job idx p) m = deref m p (\<lambda>e.
     case load_full m (mc_slot_index e) of
       None \<Rightarrow> (Visit job (Suc idx), m)
     | Some q \<Rightarrow> deref m q (\<lambda>d.
         if mc_connection_id d = mc_connection_id e then (Close_Sink (Then_Visit job (Suc idx)) (mc_slot_index e) q, m)
         else (Visit job (Suc idx), m)))"
| "task_step env now (Finished r) m = (Finished r, m)"


section \<open>Interleaving\<close>

text \<open>
  The tasks run in any order, new ones are started at any time, and the consumers read. A connection that
  is in no slot and held by no task is dropped, and its ring file unlinked, once. A connection handed to
  the control task (\<open>eventfd\<close> in the handshake) does not keep the ring alive. The 64-bit id counter is
  assumed not to run out.
\<close>

fun held :: "('q, 'k, 'b) task \<Rightarrow> ptr option" where
  "held (Lookup_Stale _ _ p) = Some p"
| "held (Close_Sink _ _ p) = Some p"
| "held (Swap_Out _ _ p) = Some p"
| "held (Touch _ p) = Some p"
| "held (Load_Filter _ p) = Some p"
| "held (Store_Filter _ p) = Some p"
| "held (Scan_Stale _ _ p) = Some p"
| "held (Scan_Again _ _ p) = Some p"
| "held (Visit_Stale _ _ p) = Some p"
| "held (Match _ _ p) = Some p"
| "held (Push_Frame _ _ _ p) = Some p"
| "held (Evict _ _ p) = Some p"
| "held _ = None"

record ('q, 'k, 'b) tasks =
  ts_manager :: "('q, 'k, 'b) connection_manager"
  ts_tasks :: "('q, 'k, 'b) task list"
  ts_reclaimed :: "ptr set"

fun finished :: "('q, 'k, 'b) task \<Rightarrow> bool" where
  "finished (Finished _) = True"
| "finished _ = False"

fun taking_id :: "('q, 'k, 'b) task \<Rightarrow> bool" where
  "taking_id (Take_Id _ _ _) = True"
| "taking_id _ = False"

text \<open>The well-formed operations a task can be started with.\<close>

definition valid_start :: "('q, 'k, 'b) task \<Rightarrow> bool" where
  "valid_start t \<longleftrightarrow>
     (\<exists>request dir cap. t = upsert_task request dir cap) \<or> (\<exists>ping. t = ping_task ping) \<or>
     (\<exists>matches encode. t = dispatch_task matches encode \<and> (\<forall>frame. encode = Ok frame \<longrightarrow> valid_frame frame))"

inductive task_move ::
  "('q, 'k, 'b) sender_env \<Rightarrow> nat \<Rightarrow> ('q, 'k, 'b) tasks \<Rightarrow> ('q, 'k, 'b) tasks \<Rightarrow> bool"
  for env where
  move: "i < length (ts_tasks s) \<Longrightarrow> \<not> finished (ts_tasks s ! i) \<Longrightarrow>
    task_step env now (ts_tasks s ! i) (ts_manager s) = (t, m) \<Longrightarrow>
    task_move env i s (s\<lparr>ts_manager := m, ts_tasks := (ts_tasks s)[i := t]\<rparr>)"

inductive tasks_step ::
  "('q, 'k, 'b) sender_env \<Rightarrow> ('q, 'k, 'b) tasks \<Rightarrow> ('q, 'k, 'b) tasks \<Rightarrow> bool"
  for env where
  run_task: "task_move env i s s' \<Longrightarrow> (taking_id (ts_tasks s ! i) \<longrightarrow> mg_next_connection_id (ts_manager s) \<noteq> - 1) \<Longrightarrow>
    tasks_step env s s'"
| start_task: "valid_start t \<Longrightarrow> tasks_step env s (s\<lparr>ts_tasks := ts_tasks s @ [t]\<rparr>)"
| reclaim: "mg_heap (ts_manager s) p = Some e \<Longrightarrow> p \<notin> ts_reclaimed s \<Longrightarrow>
    (\<forall>idx. load_full (ts_manager s) idx \<noteq> Some p) \<Longrightarrow> (\<forall>t \<in> set (ts_tasks s). held t \<noteq> Some p) \<Longrightarrow>
    tasks_step env s (s\<lparr>ts_manager := (ts_manager s)\<lparr>mg_files := ring_drop (sk_ring (mc_sink e)) (mg_files (ts_manager s))\<rparr>,
      ts_reclaimed := insert p (ts_reclaimed s)\<rparr>)"
| consumer_read: "mg_heap (ts_manager s) p = Some e \<Longrightarrow>
    ring_try_pop (se_shaq env) c (sk_region (mc_sink e)) = (r, c', region) \<Longrightarrow>
    tasks_step env s (s\<lparr>ts_manager := set_connection (ts_manager s) p (e\<lparr>mc_sink := (mc_sink e)\<lparr>sk_region := region\<rparr>\<rparr>)\<rparr>)"
| consumer_drain: "mg_heap (ts_manager s) p = Some e \<Longrightarrow>
    efd_drain (se_efd env) (sk_wakeup (mc_sink e)) = (r, k) \<Longrightarrow>
    tasks_step env s (s\<lparr>ts_manager := set_connection (ts_manager s) p (e\<lparr>mc_sink := (mc_sink e)\<lparr>sk_wakeup := k\<rparr>\<rparr>)\<rparr>)"

inductive_cases task_moveE: "task_move env i s s'"
inductive_cases tasks_stepE: "tasks_step env s s'"

definition tasks_new :: "file_system \<Rightarrow> ('q, 'k, 'b) tasks" where
  "tasks_new fs = \<lparr>ts_manager = manager_new fs, ts_tasks = [], ts_reclaimed = {}\<rparr>"

end
