(* ===== verification/Tasks_Invariant.thy ===== *)
theory Tasks_Invariant
  imports Manager_Tasks
begin

text \<open>
  The invariant of the connection manager holds between any two accesses of any number of concurrent
  tasks, not only between whole operations. Each task has assertions about its local variables that
  the steps of the other tasks keep.
\<close>

section \<open>Assertions of a task\<close>

text \<open>What a task has in hand: an installation, a pass, a slot it aims at, a ring it owns.\<close>

fun installing_after :: "'b continuation \<Rightarrow> 'b installation option" where
  "installing_after (Then_Scan_Again inst _) = Some inst"
| "installing_after _ = None"

fun installing :: "('q, 'k, 'b) task \<Rightarrow> 'b installation option" where
  "installing (Scan inst _) = Some inst"
| "installing (Scan_Stale inst _ _) = Some inst"
| "installing (Scan_Again inst _ _) = Some inst"
| "installing (Create_Ring inst _) = Some inst"
| "installing (Create_Eventfd inst _ _ _) = Some inst"
| "installing (Install inst _ _) = Some inst"
| "installing (Refused inst _) = Some inst"
| "installing (Close_Sink k _ _) = installing_after k"
| "installing (Swap_Out k _ _) = installing_after k"
| "installing _ = None"

fun dispatching_after :: "'b continuation \<Rightarrow> 'b job option" where
  "dispatching_after (Then_Visit job _) = Some job"
| "dispatching_after _ = None"

fun dispatching :: "('q, 'k, 'b) task \<Rightarrow> 'b job option" where
  "dispatching (Visit job _) = Some job"
| "dispatching (Visit_Stale job _ _) = Some job"
| "dispatching (Match job _ _) = Some job"
| "dispatching (Push_Frame job _ _ _) = Some job"
| "dispatching (Evict job _ _) = Some job"
| "dispatching (Close_Sink k _ _) = dispatching_after k"
| "dispatching (Swap_Out k _ _) = dispatching_after k"
| "dispatching _ = None"

fun target_after :: "'b continuation \<Rightarrow> nat option" where
  "target_after (Then_Scan_Again _ idx) = Some idx"
| "target_after _ = None"

fun target :: "('q, 'k, 'b) task \<Rightarrow> nat option" where
  "target (Scan_Stale _ idx _) = Some idx"
| "target (Scan_Again _ idx _) = Some idx"
| "target (Create_Ring _ idx) = Some idx"
| "target (Create_Eventfd _ idx _ _) = Some idx"
| "target (Install _ idx _) = Some idx"
| "target (Close_Sink k _ _) = target_after k"
| "target (Swap_Out k _ _) = target_after k"
| "target _ = None"

fun own_ring :: "('q, 'k, 'b) task \<Rightarrow> (ring_producer \<times> 'q) option" where
  "own_ring (Create_Eventfd _ _ ring region) = Some (ring, region)"
| "own_ring (Install _ _ sink) = Some (sk_ring sink, sk_region sink)"
| "own_ring (Refused _ sink) = Some (sk_ring sink, sk_region sink)"
| "own_ring _ = None"

fun storing :: "('q, 'k, 'b) task \<Rightarrow> 'b subscription_filter option" where
  "storing (Store_Filter flt _) = Some flt"
| "storing _ = None"

fun pushing :: "('q, 'k, 'b) task \<Rightarrow> outbound_frame option" where
  "pushing (Push_Frame _ frame _ _) = Some frame"
| "pushing _ = None"

text \<open>The connection a finished subscription was given.\<close>

fun created :: "('q, 'k, 'b) task \<Rightarrow> (ptr \<times> slot_token) option" where
  "created (Finished (Provided (Ok (Created token _ _ p)))) = Some (p, token)"
| "created _ = None"

text \<open>The id of an installation under way is reserved: below the counter and no connection's id yet.\<close>

definition reserved :: "('q, 'k, 'b) connection_manager \<Rightarrow> u64 \<Rightarrow> bool" where
  "reserved m cid \<longleftrightarrow> cid < mg_next_connection_id m \<and> (\<forall>p. ids m p \<noteq> Some cid)"

definition job_ok :: "'b job \<Rightarrow> bool" where
  "job_ok job \<longleftrightarrow> (\<forall>frame. jb_encode job = Ok frame \<longrightarrow> valid_frame frame) \<and>
     (\<forall>frame. jb_shared_frame job = Some frame \<longrightarrow> valid_frame frame)"

definition task_ok :: "('q, 'k, 'b) sender_env \<Rightarrow> ('q, 'k, 'b) connection_manager \<Rightarrow> ('q, 'k, 'b) task \<Rightarrow> bool" where
  "task_ok env m t \<longleftrightarrow> t \<noteq> Finished Dangling \<and>
     (\<forall>p. held t = Some p \<longrightarrow> (\<exists>e. mg_heap m p = Some e)) \<and>
     (\<forall>inst. installing t = Some inst \<longrightarrow> filter_invar (se_bloom env) (in_filter inst) \<and> reserved m (in_connection_id inst)) \<and>
     (\<forall>job. dispatching t = Some job \<longrightarrow> job_ok job) \<and>
     (\<forall>idx. target t = Some idx \<longrightarrow> idx < MAX_CONNECTION_SLOTS) \<and>
     (\<forall>ring region. own_ring t = Some (ring, region) \<longrightarrow> (\<forall>c. ring_rep (se_shaq env) (ring, c, region) [])) \<and>
     (\<forall>flt. storing t = Some flt \<longrightarrow> filter_invar (se_bloom env) flt) \<and>
     (\<forall>frame. pushing t = Some frame \<longrightarrow> valid_frame frame) \<and>
     (\<forall>p token. created t = Some (p, token) \<longrightarrow> ids m p = Some (st_generation token))"

definition own_id :: "('q, 'k, 'b) task \<Rightarrow> u64 option" where
  "own_id t = map_option in_connection_id (installing t)"

text \<open>Two tasks never work with the same id, and never get the same connection.\<close>

definition tasks_inv :: "('q, 'k, 'b) sender_env \<Rightarrow> ('q, 'k, 'b) tasks \<Rightarrow> bool" where
  "tasks_inv env s \<longleftrightarrow> mgr_inv env (ts_manager s) \<and> list_all (task_ok env (ts_manager s)) (ts_tasks s) \<and>
     (\<forall>i j cid. i < length (ts_tasks s) \<longrightarrow> j < length (ts_tasks s) \<longrightarrow> i \<noteq> j \<longrightarrow>
        own_id (ts_tasks s ! i) = Some cid \<longrightarrow> own_id (ts_tasks s ! j) \<noteq> Some cid) \<and>
     (\<forall>i j p token token'. i < length (ts_tasks s) \<longrightarrow> j < length (ts_tasks s) \<longrightarrow> i \<noteq> j \<longrightarrow>
        created (ts_tasks s ! i) = Some (p, token) \<longrightarrow> created (ts_tasks s ! j) \<noteq> Some (p, token'))"


section \<open>One access keeps the invariant\<close>

lemma deref_Some: "mg_heap m p = Some e \<Longrightarrow> deref m p f = f e"
  by (simp add: deref_def)

lemma task_ok_held:
  assumes "task_ok env m t" and "held t = Some p"
  obtains e where "mg_heap m p = Some e"
  using assms unfolding task_ok_def by blast

lemma swap_fields [simp]:
  "mg_heap (snd (compare_and_swap m idx (Some p) None)) = mg_heap m"
  "mg_files (snd (compare_and_swap m idx (Some p) None)) = mg_files m"
  "mg_next_ptr (snd (compare_and_swap m idx (Some p) None)) = mg_next_ptr m"
  "mg_next_connection_id (snd (compare_and_swap m idx (Some p) None)) = mg_next_connection_id m"
  "length (mg_connections (snd (compare_and_swap m idx (Some p) None))) = length (mg_connections m)"
  by (simp_all add: compare_and_swap_def Let_def)

lemma load_swap:
  "load_full (snd (compare_and_swap m idx (Some p) None)) j = (if j = idx \<and> load_full m idx = Some p then None else load_full m j)"
  by (auto simp: compare_and_swap_def Let_def dest: load_full_range)

lemma ids_swap [simp]: "ids (snd (compare_and_swap m idx (Some p) None)) = ids m"
  by (simp add: ids_def fun_eq_iff)

lemma inv_swap: "mgr_inv env m \<Longrightarrow> mgr_inv env (snd (compare_and_swap m idx (Some p) None))"
  unfolding mgr_inv_def by (simp add: load_swap)

text \<open>
  How an access changes what the other tasks rely on: connections keep their address and id, the
  counter does not go back, and the only id that comes into use is the task's own.
\<close>

definition evolves :: "u64 option \<Rightarrow> ('q, 'k, 'b) connection_manager \<Rightarrow> ('q, 'k, 'b) connection_manager \<Rightarrow> bool" where
  "evolves own m m' \<longleftrightarrow> ids m \<subseteq>\<^sub>m ids m' \<and> mg_next_connection_id m \<le> mg_next_connection_id m' \<and>
     (\<forall>p cid. ids m' p = Some cid \<longrightarrow> ids m p = Some cid \<or> own = Some cid)"

lemma evolves_same: "ids m' = ids m \<Longrightarrow> mg_next_connection_id m \<le> mg_next_connection_id m' \<Longrightarrow> evolves own m m'"
  by (simp add: evolves_def)

lemma heap_ids: "(\<exists>e. mg_heap m p = Some e) \<longleftrightarrow> (\<exists>cid. ids m p = Some cid)"
  by (simp add: ids_def)

lemma task_ok_evolves:
  assumes "task_ok env m t" and "evolves own m m'" and "own = None \<or> own_id t \<noteq> own"
  shows "task_ok env m' t"
proof -
  have heap: "\<exists>e. mg_heap m' p = Some e" if h: "held t = Some p" for p
  proof -
    obtain e where "mg_heap m p = Some e"
      by (rule task_ok_held [OF assms(1) h])
    then obtain cid where "ids m p = Some cid"
      by (simp add: ids_def)
    moreover have "ids m \<subseteq>\<^sub>m ids m'"
      using assms(2) by (simp add: evolves_def)
    ultimately have "ids m' p = Some cid"
      unfolding map_le_def by (metis domI)
    then show ?thesis
      unfolding heap_ids by blast
  qed
  have res: "reserved m' (in_connection_id inst)" if i: "installing t = Some inst" for inst
  proof -
    have r: "reserved m (in_connection_id inst)"
      using assms(1) i unfolding task_ok_def by blast
    have own: "own \<noteq> Some (in_connection_id inst)"
      using assms(3) i by (auto simp: own_id_def)
    have "ids m' p \<noteq> Some (in_connection_id inst)" for p
      using assms(2) r own unfolding evolves_def reserved_def by blast
    moreover have "in_connection_id inst < mg_next_connection_id m'"
      using assms(2) r unfolding evolves_def reserved_def by (meson less_le_trans)
    ultimately show ?thesis
      by (simp add: reserved_def)
  qed
  have "ids m' p = Some (st_generation token)" if "created t = Some (p, token)" for p token
    using assms(1,2) that unfolding task_ok_def evolves_def map_le_def by (metis domI)
  then show ?thesis
    using assms(1) heap res unfolding task_ok_def by blast
qed

text \<open>The accesses that only read.\<close>

fun reading :: "('q, 'k, 'b) task \<Rightarrow> bool" where
  "reading (Close_Sink _ _ _) = False"
| "reading (Swap_Out _ _ _) = False"
| "reading (Touch _ _) = False"
| "reading (Store_Filter _ _) = False"
| "reading (Take_Id _ _ _) = False"
| "reading (Create_Ring _ _) = False"
| "reading (Create_Eventfd _ _ _ _) = False"
| "reading (Install _ _ _) = False"
| "reading (Refused _ _) = False"
| "reading (Push_Frame _ _ _ _) = False"
| "reading _ = True"

lemma reading_step:
  assumes "reading t"
  shows "snd (task_step env now t m) = m"
  using assms by (cases t) (simp_all add: deref_def Let_def split: option.splits result.splits)

lemma not_found_simps [simp]:
  "held (not_found purpose) = None" "installing (not_found purpose) = None" "dispatching (not_found purpose) = None"
  "target (not_found purpose) = None" "own_ring (not_found purpose) = None" "storing (not_found purpose) = None"
  "pushing (not_found purpose) = None" "created (not_found purpose) = None" "not_found purpose \<noteq> Finished Dangling"
  by (cases purpose; simp)+

lemma resume_simps [simp]:
  "installing (resume k p) = installing_after k" "dispatching (resume k p) = dispatching_after k"
  "target (resume k p) = target_after k" "own_ring (resume k p) = None" "storing (resume k p) = None"
  "pushing (resume k p) = None" "created (resume k p) = None" "resume k p \<noteq> Finished Dangling"
  by (cases k; simp)+

lemma held_resume: "held (resume k p) = Some q \<Longrightarrow> q = p"
  by (cases k) simp_all

lemma reading_task_ok:
  assumes "mgr_inv env m" and "bloom_ok (se_bloom env)" and "task_ok env m t" and "reading t" and "task_step env now t m = (t', m)"
  shows "task_ok env m t' \<and> (own_id t' = own_id t \<or> own_id t' = None)"
proof -
  have slot: "\<exists>e. mg_heap m p = Some e" if "load_full m idx = Some p" for idx p
    using mgr_inv_conjuncts(2) [OF assms(1) that] by blast
  have flt: "filter_invar (se_bloom env) (mc_filter e)" if "mg_heap m p = Some e" for p e
    using mgr_inv_heap(1) [OF assms(1) that] by (simp add: conn_ok_def)
  note ok = assms(3) [unfolded task_ok_def]
  note ext = subscription.extend_invar [OF assms(2)]
  show ?thesis
  proof (cases t)
    case (Lookup purpose token)
    with assms(5) show ?thesis
      by (auto simp: task_ok_def own_id_def Let_def deref_def split: if_splits option.splits dest!: slot)
  next
    case (Lookup_Stale purpose idx p)
    with assms(5) ok show ?thesis
      by (auto simp: task_ok_def own_id_def deref_def split: if_splits option.splits)
  next
    case (Load_Filter request p)
    with assms(5) ok flt ext show ?thesis
      by (auto simp: task_ok_def own_id_def deref_def split: option.splits)
  next
    case (Scan inst idx)
    with assms(5) ok show ?thesis
      by (auto simp: task_ok_def own_id_def split: if_splits option.splits dest!: slot)
  next
    case (Scan_Stale inst idx p)
    with assms(5) ok show ?thesis
      by (auto simp: task_ok_def own_id_def deref_def split: if_splits option.splits)
  next
    case (Scan_Again inst idx p)
    with assms(5) ok show ?thesis
      by (auto simp: task_ok_def own_id_def split: if_splits)
  next
    case (Visit job idx)
    with assms(5) ok show ?thesis
      by (auto simp: task_ok_def own_id_def split: if_splits option.splits dest!: slot)
  next
    case (Visit_Stale job idx p)
    with assms(5) ok show ?thesis
      by (auto simp: task_ok_def own_id_def deref_def split: if_splits option.splits)
  next
    case (Match job idx p)
    with assms(5) ok show ?thesis
      by (auto simp: task_ok_def own_id_def job_ok_def deref_def split: if_splits option.splits result.splits)
  next
    case (Evict job idx p)
    with assms(5) ok show ?thesis
      by (auto simp: task_ok_def own_id_def deref_def split: if_splits option.splits dest!: slot)
  qed (use assms(3-5) in \<open>auto simp: own_id_def\<close>)
qed

text \<open>The accesses that write.\<close>

abbreviation keeps ::
  "('q, 'k, 'b) sender_env \<Rightarrow> ('q, 'k, 'b) task \<Rightarrow> ('q, 'k, 'b) connection_manager \<Rightarrow> ('q, 'k, 'b) task \<Rightarrow>
     ('q, 'k, 'b) connection_manager \<Rightarrow> bool" where
  "keeps env t m t' m' \<equiv> mgr_inv env m' \<and> task_ok env m' t' \<and> evolves (own_id t) m m' \<and>
     (own_id t' = own_id t \<or> own_id t' = None \<or>
      own_id t = None \<and> own_id t' = Some (mg_next_connection_id m) \<and> mg_next_connection_id m < mg_next_connection_id m')"

text \<open>A write through a pointer.\<close>

lemma update_keeps:
  assumes "mgr_inv env m" and "mg_heap m p = Some e" and "conn_ok env e'" and "mc_slot_index e' = mc_slot_index e"
    and "mc_connection_id e' = mc_connection_id e" and "task_ok env m t'" and "own_id t' = own_id t \<or> own_id t' = None"
  shows "keeps env t m t' (set_connection m p e')"
proof -
  have "evolves own m (set_connection m p e')" for own
    using ids_set_connection [of m p e e'] assms(2,5) by (intro evolves_same) simp_all
  then show ?thesis
    using task_ok_evolves [OF assms(6), of None] inv_set_connection [OF assms(1-5)] assms(7) by blast
qed

lemma files_keeps:
  assumes "mgr_inv env m" and "task_ok env m t'" and "own_id t' = own_id t \<or> own_id t' = None"
  shows "keeps env t m t' (m\<lparr>mg_files := fs\<rparr>)"
proof -
  have "evolves own m (m\<lparr>mg_files := fs\<rparr>)" for own
    by (simp add: evolves_same)
  then show ?thesis
    using task_ok_evolves [OF assms(2), of None] inv_files [OF assms(1)] assms(3) by blast
qed

lemma close_keeps:
  assumes "sender_env_ok env" and "mgr_inv env m" and "task_ok env m (Close_Sink k idx p)"
    and "task_step env now (Close_Sink k idx p) m = (t', m')"
  shows "keeps env (Close_Sink k idx p) m t' m'"
proof -
  obtain e where e: "mg_heap m p = Some e"
    by (rule task_ok_held [OF assms(3)]) simp
  have "task_ok env m (Swap_Out k idx p)"
    using assms(3) by (simp add: task_ok_def)
  then have "keeps env (Close_Sink k idx p) m (Swap_Out k idx p) (set_connection m p (close_connection env e))"
    by (intro update_keeps [OF assms(2) e conn_ok_close [OF assms(1) mgr_inv_heap(1) [OF assms(2) e]]])
      (simp_all add: own_id_def)
  with assms(4) e show ?thesis
    by (simp add: deref_def)
qed

lemma swap_keeps:
  assumes "mgr_inv env m" and "task_ok env m (Swap_Out k idx p)" and "task_step env now (Swap_Out k idx p) m = (t', m')"
  shows "keeps env (Swap_Out k idx p) m t' m'"
proof -
  have t: "t' = resume k p" "m' = snd (compare_and_swap m idx (Some p) None)"
    using assms(3) by simp_all
  have "evolves own m m'" for own
    unfolding t by (rule evolves_same) simp_all
  moreover have "task_ok env m t'"
    using assms(2) held_resume [of k p] unfolding t task_ok_def by auto
  moreover have "own_id t' = own_id (Swap_Out k idx p :: ('a, 'b, 'c) task)"
    unfolding t by (simp add: own_id_def)
  ultimately show ?thesis
    using task_ok_evolves [of env m t' None] inv_swap [OF assms(1)] unfolding t by blast
qed

lemma touch_keeps:
  assumes "mgr_inv env m" and "task_ok env m (Touch purpose p)" and "task_step env now (Touch purpose p) m = (t', m')"
  shows "keeps env (Touch purpose p) m t' m'"
proof -
  obtain e where e: "mg_heap m p = Some e"
    by (rule task_ok_held [OF assms(2)]) simp
  have "conn_ok env (e\<lparr>mc_last_seen_ms := now\<rparr>)"
    using mgr_inv_heap(1) [OF assms(1) e] by (simp add: conn_ok_def)
  moreover have "task_ok env m t'" "own_id t' = None"
    using assms(3) e by (auto simp: deref_def task_ok_def own_id_def split: purpose.splits)
  ultimately have "keeps env (Touch purpose p) m t' (set_connection m p (e\<lparr>mc_last_seen_ms := now\<rparr>))"
    by (intro update_keeps [OF assms(1) e]) simp_all
  with assms(3) e show ?thesis
    by (simp add: deref_def)
qed

lemma store_keeps:
  assumes "mgr_inv env m" and "task_ok env m (Store_Filter flt p)" and "task_step env now (Store_Filter flt p) m = (t', m')"
  shows "keeps env (Store_Filter flt p) m t' m'"
proof -
  obtain e where e: "mg_heap m p = Some e"
    by (rule task_ok_held [OF assms(2)]) simp
  have "conn_ok env (e\<lparr>mc_filter := flt\<rparr>)"
    using mgr_inv_heap(1) [OF assms(1) e] assms(2) by (simp add: conn_ok_def task_ok_def)
  moreover have "task_ok env m t'" "own_id t' = None"
    using assms(3) e by (auto simp: deref_def task_ok_def own_id_def)
  ultimately have "keeps env (Store_Filter flt p) m t' (set_connection m p (e\<lparr>mc_filter := flt\<rparr>))"
    by (intro update_keeps [OF assms(1) e]) simp_all
  with assms(3) e show ?thesis
    by (simp add: deref_def)
qed

lemma push_keeps:
  assumes "sender_env_ok env" and "mgr_inv env m" and "task_ok env m (Push_Frame job frame idx p)"
    and "task_step env now (Push_Frame job frame idx p) m = (t', m')"
  shows "keeps env (Push_Frame job frame idx p) m t' m'"
proof -
  obtain e where e: "mg_heap m p = Some e"
    by (rule task_ok_held [OF assms(3)]) simp
  obtain r sink where p: "sink_try_push (se_shaq env) (se_efd env) (mc_sink e) frame = (r, sink)"
    by force
  have "valid_frame frame"
    using assms(3) by (simp add: task_ok_def)
  from conn_ok_push [OF assms(1) mgr_inv_heap(1) [OF assms(2) e] this p]
  have "conn_ok env (e\<lparr>mc_sink := sink\<rparr>)" .
  moreover have "task_ok env m t'" "own_id t' = None" "m' = set_connection m p (e\<lparr>mc_sink := sink\<rparr>)"
    using assms(3,4) e p by (auto simp: deref_def task_ok_def own_id_def split: sum.splits)
  ultimately show ?thesis
    using update_keeps [OF assms(2) e, of "e\<lparr>mc_sink := sink\<rparr>" t'] by simp
qed

lemma take_id_keeps:
  assumes "bloom_ok (se_bloom env)" and "mgr_inv env m" and "mg_next_connection_id m \<noteq> - 1"
    and "task_step env now (Take_Id request dir cap) m = (t', m')"
  shows "keeps env (Take_Id request dir cap) m t' m'"
proof -
  have less: "mg_next_connection_id m < mg_next_connection_id m + 1"
    by (rule word_less_succ [OF order_refl assms(3)])
  have "evolves None m (take_id m)"
    using less by (intro evolves_same) simp_all
  moreover have "reserved (take_id m) (mg_next_connection_id m)"
    using less inv_fresh_id [OF assms(2)] by (simp add: reserved_def)
  ultimately show ?thesis
    using assms(4) inv_take_id [OF assms(2,3)] less subscription.first_invar [OF assms(1)]
    by (auto simp: task_ok_def own_id_def)
qed

lemma create_keeps:
  assumes "shaq_ok (se_shaq env)" and "mgr_inv env m" and "task_ok env m (Create_Ring inst idx)"
    and "task_step env now (Create_Ring inst idx) m = (t', m')"
  shows "keeps env (Create_Ring inst idx) m t' m'"
proof -
  obtain r fs where c: "ring_create (se_shaq env) (se_fs env) (mg_files m)
      (path_join (in_shm_dir inst) (ring_file_name (se_pid env) idx (in_connection_id inst))) (in_ring_capacity inst) = (r, fs)"
    by force
  have "m' = m\<lparr>mg_files := fs\<rparr>"
    using assms(4) c by (auto simp: Let_def split: result.splits)
  moreover have "task_ok env m t' \<and> (own_id t' = own_id (Create_Ring inst idx) \<or> own_id t' = None)"
    using assms(3,4) c ring_create_Ok(1) [OF assms(1)]
    by (auto simp: Let_def task_ok_def own_id_def split: result.splits)
  ultimately show ?thesis
    using files_keeps [OF assms(2)] by blast
qed

lemma eventfd_keeps:
  assumes "mgr_inv env m" and "task_ok env m (Create_Eventfd inst idx ring region)"
    and "task_step env now (Create_Eventfd inst idx ring region) m = (t', m')"
  shows "keeps env (Create_Eventfd inst idx ring region) m t' m'"
proof -
  have "task_ok env m t'" "own_id t' = own_id (Create_Eventfd inst idx ring region) \<or> own_id t' = None"
      "\<exists>fs. m' = m\<lparr>mg_files := fs\<rparr>"
    using assms(2,3) by (auto simp: task_ok_def own_id_def sink_shm_def split: sum.splits intro: exI [of _ "mg_files m"])
  then show ?thesis
    using files_keeps [OF assms(1)] by blast
qed

lemma refused_keeps:
  assumes "mgr_inv env m" and "task_ok env m (Refused inst sink)" and "task_step env now (Refused inst sink) m = (t', m')"
  shows "keeps env (Refused inst sink) m t' m'"
proof -
  have "task_ok env m t'" "own_id t' = own_id (Refused inst sink)"
    using assms(2,3) by (auto simp: task_ok_def own_id_def)
  then show ?thesis
    using files_keeps [OF assms(1), of t'] assms(3) by auto
qed

lemma install_keeps:
  assumes "mgr_inv env m" and "task_ok env m (Install inst idx sink)" and "task_step env now (Install inst idx sink) m = (t', m')"
  shows "keeps env (Install inst idx sink) m t' m'"
proof (cases "load_full m idx")
  case None
  let ?e = "\<lparr>mc_slot_index = idx, mc_connection_id = in_connection_id inst, mc_filter = in_filter inst, mc_sink = sink,
    mc_last_seen_ms = now\<rparr>"
  have i: "idx < MAX_CONNECTION_SLOTS" "reserved m (in_connection_id inst)" "filter_invar (se_bloom env) (in_filter inst)"
      "\<forall>c. ring_rep (se_shaq env) (sk_ring sink, c, sk_region sink) []"
    using assms(2) by (simp_all add: task_ok_def)
  have "conn_ok env ?e"
    using i by (auto simp: conn_ok_def sink_rep_def)
  then have "mgr_inv env (install m idx ?e)"
    using i(2) by (intro inv_install [OF assms(1) i(1)]) (simp_all add: reserved_def)
  moreover have "ids m (mg_next_ptr m) = None"
    using inv_fresh_ptr [OF assms(1)] by (simp add: ids_def)
  then have "evolves (Some (in_connection_id inst)) m (install m idx ?e)"
    by (auto simp: evolves_def ids_install map_le_def)
  ultimately show ?thesis
    using assms(3) None by (auto simp: task_ok_def own_id_def ids_install slot_token_new_def)
next
  case (Some p)
  with assms show ?thesis
    by (auto simp: task_ok_def own_id_def evolves_same)
qed

lemma task_step_keeps:
  assumes "sender_env_ok env" and "mgr_inv env m" and "task_ok env m t"
    and "taking_id t \<longrightarrow> mg_next_connection_id m \<noteq> - 1" and "task_step env now t m = (t', m')"
  shows "keeps env t m t' m'"
proof (cases "reading t")
  case True
  then have "m' = m"
    using reading_step [OF True, of env now m] assms(5) by simp
  moreover have "bloom_ok (se_bloom env)"
    using assms(1) by (simp add: sender_env_ok_def)
  ultimately show ?thesis
    using reading_task_ok [OF assms(2) _ assms(3) True] assms(2,5) evolves_same [of m m] by auto
next
  case False
  have env: "bloom_ok (se_bloom env)" "shaq_ok (se_shaq env)"
    using assms(1) by (simp_all add: sender_env_ok_def)
  from False assms(3,5) show ?thesis
  proof (cases t)
    case Close_Sink
    from assms(3,5) show ?thesis
      unfolding Close_Sink by (rule close_keeps [OF assms(1,2)])
  next
    case Swap_Out
    from assms(3,5) show ?thesis
      unfolding Swap_Out by (rule swap_keeps [OF assms(2)])
  next
    case Touch
    from assms(3,5) show ?thesis
      unfolding Touch by (rule touch_keeps [OF assms(2)])
  next
    case Store_Filter
    from assms(3,5) show ?thesis
      unfolding Store_Filter by (rule store_keeps [OF assms(2)])
  next
    case Take_Id
    then have "mg_next_connection_id m \<noteq> - 1"
      using assms(4) by simp
    from assms(5) show ?thesis
      unfolding Take_Id by (rule take_id_keeps [OF env(1) assms(2) \<open>mg_next_connection_id m \<noteq> - 1\<close>])
  next
    case Create_Ring
    from assms(3,5) show ?thesis
      unfolding Create_Ring by (rule create_keeps [OF env(2) assms(2)])
  next
    case Create_Eventfd
    from assms(3,5) show ?thesis
      unfolding Create_Eventfd by (rule eventfd_keeps [OF assms(2)])
  next
    case Install
    from assms(3,5) show ?thesis
      unfolding Install by (rule install_keeps [OF assms(2)])
  next
    case Refused
    from assms(3,5) show ?thesis
      unfolding Refused by (rule refused_keeps [OF assms(2)])
  next
    case Push_Frame
    from assms(3,5) show ?thesis
      unfolding Push_Frame by (rule push_keeps [OF assms(1,2)])
  qed simp_all
qed

lemma created_step:
  assumes "task_step env now t m = (t', m')" and "created t' = Some (p, token)"
  shows "p = mg_next_ptr m \<or> created t = Some (p, token)"
proof (cases t)
  case (Swap_Out k idx q)
  with assms show ?thesis by auto
qed (use assms in \<open>auto simp: deref_def Let_def split: if_splits option.splits result.splits sum.splits prod.splits purpose.splits\<close>)

end
