(* ===== verification/Tasks_System.thy ===== *)
theory Tasks_System
  imports Tasks_Invariant
begin

text \<open>
  Any number of concurrent tasks of the connection manager: the invariant of every reachable state, for
  all interleavings of their single accesses.
\<close>

section \<open>All tasks together\<close>

lemma tasks_invD:
  assumes "tasks_inv env s" and "i < length (ts_tasks s)"
  shows "task_ok env (ts_manager s) (ts_tasks s ! i)"
  using assms by (simp add: tasks_inv_def list_all_length)

lemma own_id_reserved:
  assumes "task_ok env m t" and "own_id t = Some cid"
  shows "reserved m cid"
  using assms unfolding task_ok_def own_id_def by auto

lemma own_id_not_next: "task_ok env m t \<Longrightarrow> own_id t \<noteq> Some (mg_next_connection_id m)"
  using own_id_reserved unfolding reserved_def by fastforce

lemma tasks_inv_move:
  assumes "sender_env_ok env" and "tasks_inv env s" and "task_move env i s s'"
    and "taking_id (ts_tasks s ! i) \<longrightarrow> mg_next_connection_id (ts_manager s) \<noteq> - 1"
  shows "tasks_inv env s'"
proof -
  let ?m = "ts_manager s" and ?ts = "ts_tasks s"
  obtain now t m where i: "i < length ?ts" and step: "task_step env now (?ts ! i) ?m = (t, m)"
      and s': "s' = s\<lparr>ts_manager := m, ts_tasks := ?ts[i := t]\<rparr>"
    using assms(3) by (rule task_moveE) blast
  have inv: "mgr_inv env ?m"
    using assms(2) by (simp add: tasks_inv_def)
  note ok = tasks_invD [OF assms(2)]
  note k = task_step_keeps [OF assms(1) inv ok [OF i] assms(4) step]
  have distinct: "own_id (?ts ! j) \<noteq> Some cid" if "j < length ?ts" "j \<noteq> i" "own_id (?ts ! i) = Some cid" for j cid
    using assms(2) i that unfolding tasks_inv_def by blast
  have fresh: "own_id (?ts ! j) \<noteq> own_id t" if j: "j < length ?ts" "j \<noteq> i" and "own_id t \<noteq> None" for j
  proof -
    obtain cid where t: "own_id t = Some cid"
      using \<open>own_id t \<noteq> None\<close> by blast
    then consider "own_id (?ts ! i) = Some cid" | "cid = mg_next_connection_id ?m"
      using k by auto
    then show ?thesis
      using distinct [OF j] own_id_not_next [OF ok [OF j(1)]] t by cases auto
  qed
  have others: "task_ok env m (?ts ! j)" if j: "j < length ?ts" "j \<noteq> i" for j
    using task_ok_evolves [OF ok [OF j(1)], of "own_id (?ts ! i)" m] k distinct [OF j] by (cases "own_id (?ts ! i)") auto
  have created: "created (?ts ! j) \<noteq> Some (p, token')"
    if j: "j < length ?ts" "j \<noteq> i" and c: "created t = Some (p, token)" for j p token token'
  proof
    assume a: "created (?ts ! j) = Some (p, token')"
    then have "ids ?m p \<noteq> None"
      using ok [OF j(1)] unfolding task_ok_def by auto
    then have "p \<noteq> mg_next_ptr ?m"
      using inv_fresh_ptr [OF inv] by (auto simp: ids_def)
    then have "created (?ts ! i) = Some (p, token)"
      using created_step [OF step c] by simp
    with assms(2) i j a show False
      unfolding tasks_inv_def by blast
  qed
  have nth: "?ts[i := t] ! n = (if n = i then t else ?ts ! n)" for n
    using i by (simp add: nth_list_update)
  have "own_id (?ts[i := t] ! b) \<noteq> Some cid"
    if "a < length ?ts" "b < length ?ts" "a \<noteq> b" "own_id (?ts[i := t] ! a) = Some cid" for a b cid
  proof -
    have "own_id (?ts ! a) = Some cid \<longrightarrow> own_id (?ts ! b) \<noteq> Some cid"
      using assms(2) that(1-3) unfolding tasks_inv_def by blast
    then show ?thesis
      using that fresh [of a] fresh [of b] by (cases "a = i"; cases "b = i") (auto simp: nth)
  qed
  moreover have "created (?ts[i := t] ! b) \<noteq> Some (p, token')"
    if "a < length ?ts" "b < length ?ts" "a \<noteq> b" "created (?ts[i := t] ! a) = Some (p, token)" for a b p token token'
  proof -
    have "created (?ts ! a) = Some (p, token) \<longrightarrow> created (?ts ! b) \<noteq> Some (p, token')"
      using assms(2) that(1-3) unfolding tasks_inv_def by blast
    then show ?thesis
      using that created [of a p token' token] created [of b p token token'] by (cases "a = i"; cases "b = i") (auto simp: nth)
  qed
  moreover have "list_all (task_ok env m) (?ts[i := t])"
    using others k by (simp add: list_all_length nth)
  ultimately show ?thesis
    using k unfolding tasks_inv_def s' by simp
qed

text \<open>Changes of the manager that no task notices.\<close>

lemma tasks_inv_manager:
  assumes "tasks_inv env s" and "mgr_inv env m" and "evolves None (ts_manager s) m"
  shows "tasks_inv env (s\<lparr>ts_manager := m, ts_reclaimed := R\<rparr>)"
  using assms task_ok_evolves [OF _ assms(3)] unfolding tasks_inv_def list_all_iff by simp

lemma valid_start_ok:
  assumes "valid_start t"
  shows "task_ok env m t \<and> own_id t = None \<and> created t = None"
  using assms
  by (auto simp: valid_start_def upsert_task_def ping_task_def dispatch_task_def task_ok_def own_id_def job_ok_def split: option.splits)

lemma valid_starts:
  "valid_start (upsert_task request dir cap)" "valid_start (ping_task ping)"
  "(\<And>frame. encode = Ok frame \<Longrightarrow> valid_frame frame) \<Longrightarrow> valid_start (dispatch_task matches encode)"
  unfolding valid_start_def by blast+

lemma tasks_inv_start:
  assumes "tasks_inv env s" and "valid_start t"
  shows "tasks_inv env (s\<lparr>ts_tasks := ts_tasks s @ [t]\<rparr>)"
proof -
  let ?ts = "ts_tasks s"
  note start = valid_start_ok [OF assms(2)]
  have nth: "(?ts @ [t]) ! n = (if n < length ?ts then ?ts ! n else t)" if "n < Suc (length ?ts)" for n
    using that by (auto simp: nth_append less_Suc_eq)
  have "own_id ((?ts @ [t]) ! b) \<noteq> Some cid"
    if "a < Suc (length ?ts)" "b < Suc (length ?ts)" "a \<noteq> b" "own_id ((?ts @ [t]) ! a) = Some cid" for a b cid
    using that assms(1) start unfolding tasks_inv_def by (simp add: nth split: if_splits)
  moreover have "created ((?ts @ [t]) ! b) \<noteq> Some (p, token')"
    if "a < Suc (length ?ts)" "b < Suc (length ?ts)" "a \<noteq> b" "created ((?ts @ [t]) ! a) = Some (p, token)" for a b p token token'
    using that assms(1) start unfolding tasks_inv_def by (simp add: nth split: if_splits)
  ultimately show ?thesis
    using assms(1) start unfolding tasks_inv_def by simp
qed

lemma tasks_inv_step:
  assumes "sender_env_ok env" and "tasks_inv env s" and "tasks_step env s s'"
  shows "tasks_inv env s'"
  using assms(3)
proof cases
  case (run_task i)
  then show ?thesis
    using tasks_inv_move [OF assms(1,2)] by blast
next
  case (start_task t)
  then show ?thesis
    using tasks_inv_start [OF assms(2)] by simp
next
  case (reclaim p e)
  let ?m = "(ts_manager s)\<lparr>mg_files := ring_drop (sk_ring (mc_sink e)) (mg_files (ts_manager s))\<rparr>"
  have "mgr_inv env ?m" "evolves None (ts_manager s) ?m"
    using assms(2) by (simp_all add: tasks_inv_def inv_files evolves_same)
  then show ?thesis
    unfolding reclaim(1) by (rule tasks_inv_manager [OF assms(2)])
next
  case (consumer_read p e c r c' region)
  let ?e = "e\<lparr>mc_sink := (mc_sink e)\<lparr>sk_region := region\<rparr>\<rparr>"
  have inv: "mgr_inv env (ts_manager s)"
    using assms(2) by (simp add: tasks_inv_def)
  have "mgr_inv env (set_connection (ts_manager s) p ?e)"
    by (rule inv_set_connection [OF inv consumer_read(2) conn_ok_read [OF mgr_inv_heap(1) [OF inv consumer_read(2)] consumer_read(3)]])
      simp_all
  moreover have "evolves None (ts_manager s) (set_connection (ts_manager s) p ?e)"
    using ids_set_connection [OF consumer_read(2), of ?e] by (intro evolves_same) simp_all
  ultimately show ?thesis
    using tasks_inv_manager [OF assms(2), of _ "ts_reclaimed s"] consumer_read(1) by simp
next
  case (consumer_drain p e r k)
  let ?e = "e\<lparr>mc_sink := (mc_sink e)\<lparr>sk_wakeup := k\<rparr>\<rparr>"
  have inv: "mgr_inv env (ts_manager s)"
    using assms(2) by (simp add: tasks_inv_def)
  have "conn_ok env ?e"
    using mgr_inv_heap(1) [OF inv consumer_drain(2)] by (simp add: conn_ok_def sink_rep_def)
  then have "mgr_inv env (set_connection (ts_manager s) p ?e)"
    by (intro inv_set_connection [OF inv consumer_drain(2)]) simp_all
  moreover have "evolves None (ts_manager s) (set_connection (ts_manager s) p ?e)"
    using ids_set_connection [OF consumer_drain(2), of ?e] by (intro evolves_same) simp_all
  ultimately show ?thesis
    using tasks_inv_manager [OF assms(2), of _ "ts_reclaimed s"] consumer_drain(1) by simp
qed

lemma tasks_inv_new: "tasks_inv env (tasks_new fs)"
  by (simp add: tasks_inv_def tasks_new_def inv_new)

lemma tasks_inv_reachable:
  assumes "sender_env_ok env" and "(tasks_step env)\<^sup>*\<^sup>* (tasks_new fs) s"
  shows "tasks_inv env s"
  using assms(2) by (induction rule: rtranclp_induct) (auto intro: tasks_inv_new tasks_inv_step [OF assms(1)])


section \<open>Schedules\<close>

text \<open>The run of a fixed list of tasks under a schedule: which task makes the next access, and its clock.\<close>

definition run_access :: "('q, 'k, 'b) sender_env \<Rightarrow> nat \<times> u64 \<Rightarrow> ('q, 'k, 'b) tasks \<Rightarrow> ('q, 'k, 'b) tasks" where
  "run_access env = (\<lambda>(i, now) s.
     if i < length (ts_tasks s) \<and> \<not> finished (ts_tasks s ! i) \<and> (taking_id (ts_tasks s ! i) \<longrightarrow> mg_next_connection_id (ts_manager s) \<noteq> - 1)
     then (case task_step env now (ts_tasks s ! i) (ts_manager s) of
             (t, m) \<Rightarrow> s\<lparr>ts_manager := m, ts_tasks := (ts_tasks s)[i := t]\<rparr>)
     else s)"

definition run_schedule :: "('q, 'k, 'b) sender_env \<Rightarrow> (nat \<times> u64) list \<Rightarrow> ('q, 'k, 'b) tasks \<Rightarrow> ('q, 'k, 'b) tasks" where
  "run_schedule env accesses s = fold (run_access env) accesses s"

definition start_tasks :: "('q, 'k, 'b) task list \<Rightarrow> ('q, 'k, 'b) tasks \<Rightarrow> ('q, 'k, 'b) tasks" where
  "start_tasks ts s = s\<lparr>ts_tasks := ts_tasks s @ ts\<rparr>"

lemma run_access_steps: "(tasks_step env)\<^sup>*\<^sup>* s (run_access env a s)"
proof (cases a)
  case (Pair i now)
  obtain t m where t: "task_step env now (ts_tasks s ! i) (ts_manager s) = (t, m)"
    by force
  show ?thesis
  proof (cases "i < length (ts_tasks s) \<and> \<not> finished (ts_tasks s ! i) \<and>
      (taking_id (ts_tasks s ! i) \<longrightarrow> mg_next_connection_id (ts_manager s) \<noteq> - 1)")
    case True
    then have "tasks_step env s (s\<lparr>ts_manager := m, ts_tasks := (ts_tasks s)[i := t]\<rparr>)"
      by (intro run_task [of _ i] move [OF _ _ t]) simp_all
    then show ?thesis
      using True t by (simp add: run_access_def Pair r_into_rtranclp)
  qed (auto simp: run_access_def Pair)
qed

lemma run_schedule_steps: "(tasks_step env)\<^sup>*\<^sup>* s (run_schedule env accesses s)"
proof (induction accesses arbitrary: s)
  case (Cons a accesses)
  from rtranclp_trans [OF run_access_steps [of env s a] Cons] show ?case
    by (simp add: run_schedule_def)
qed (simp add: run_schedule_def)

lemma start_tasks_steps: "list_all valid_start ts \<Longrightarrow> (tasks_step env)\<^sup>*\<^sup>* s (start_tasks ts s)"
proof (induction ts arbitrary: s)
  case (Cons t ts)
  have "tasks_step env s (start_tasks [t] s)"
    using start_task [of t env s] Cons.prems by (simp add: start_tasks_def)
  moreover have "(tasks_step env)\<^sup>*\<^sup>* (start_tasks [t] s) (start_tasks ts (start_tasks [t] s))"
    using Cons by simp
  ultimately have "(tasks_step env)\<^sup>*\<^sup>* s (start_tasks ts (start_tasks [t] s))"
    by (rule converse_rtranclp_into_rtranclp)
  then show ?case
    by (simp add: start_tasks_def)
qed (simp add: start_tasks_def)

lemma sample_digits: "show_nat 0 = ''0''" "show_nat (Suc 0) = ''1''" "show_nat 2 = ''2''" "show_nat 7 = ''7''"
  by (simp_all add: show_nat.simps digit_chars) code_simp?

lemma sample_ring:
  "path \<notin> fs \<Longrightarrow> ring_create list_shaq \<lparr>fe_create_dir = \<lambda>_. None, fe_open = \<lambda>_. None\<rparr> fs path 256 =
     (Ok (\<lparr>rp_capacity = 256, rp_path = path, rp_dropped_frames = 0, rp_owns_file = True\<rparr>, (256, [])), insert path fs)"
  by (simp add: ring_create_def list_shaq_def next_power_of_two_def next_power_from.simps)

lemma sample_env_fields:
  "se_shaq sample_env = list_shaq" "se_efd sample_env = nat_efd" "se_bloom sample_env = first_byte_bloom"
  "se_fs sample_env = \<lparr>fe_create_dir = \<lambda>_. None, fe_open = \<lambda>_. None\<rparr>" "se_eventfd sample_env = Inr 0" "se_pid sample_env = 7"
  by (simp_all add: sample_env_def)

lemmas sample_eval = run_access_def load_full_def deref_def is_stale_def sat_sub_def const_defs
  path_join_def ring_file_name_def sample_digits sample_ring sink_shm_def ring_drop_def slot_token_new_def
  set_connection_def sample_env_fields install_def Let_def

text \<open>Two subscriptions that race for slot 0: the second is refused there and goes on to slot 1.\<close>

definition race :: "(list_queue, nat, bytes list) tasks" where
  "race = run_schedule sample_env (map (\<lambda>i. (i, 1000)) [0, 1, 0, 1, 0, 1, 0, 1, 0, 1, 1, 1, 1, 1, 1, 1, 1])
     (start_tasks [upsert_task sample_request ''/dev/shm'' 256, upsert_task sample_request ''/dev/shm'' 256] (tasks_new {}))"

lemma race_reachable: "(tasks_step sample_env)\<^sup>*\<^sup>* (tasks_new {}) race"
proof -
  let ?t = "upsert_task sample_request ''/dev/shm'' 256"
  have "list_all valid_start [?t, ?t]"
    by (simp add: valid_starts)
  then show ?thesis
    unfolding race_def by (rule rtranclp_trans [OF start_tasks_steps run_schedule_steps])
qed

lemma sample_upsert_task: "upsert_task sample_request dir cap = Take_Id sample_request dir cap"
  by (simp add: upsert_task_def sample_request_def subscription_new_def)

lemma race_state:
  "ts_tasks race =
     [Finished (Provided (Ok (Created (slot_token_new 0 1) ''/dev/shm/7-0-1'' 256 0))),
      Finished (Provided (Ok (Created (slot_token_new 1 2) ''/dev/shm/7-1-2'' 256 1)))] \<and>
   load_full (ts_manager race) 0 = Some 0 \<and> load_full (ts_manager race) 1 = Some 1"
  unfolding race_def run_schedule_def start_tasks_def tasks_new_def manager_new_def sample_upsert_task
  by (simp add: sample_eval)

text \<open>
  C4: the manager's invariant holds after every single access, however the accesses of concurrent
  subscriptions, pings, dispatch passes, readers and drops interleave. No task ever follows a pointer to a
  connection that is gone, and no two subscriptions are ever given the same connection or the same
  generation.
\<close>

theorem concurrent_invariant:
  assumes "sender_env_ok env" and "(tasks_step env)\<^sup>*\<^sup>* (tasks_new fs) s"
  shows "mgr_inv env (ts_manager s) \<and> Finished Dangling \<notin> set (ts_tasks s) \<and>
    (\<forall>i < length (ts_tasks s). \<forall>j < length (ts_tasks s). \<forall>p q token token'.
       i \<noteq> j \<longrightarrow> created (ts_tasks s ! i) = Some (p, token) \<longrightarrow> created (ts_tasks s ! j) = Some (q, token') \<longrightarrow>
       p \<noteq> q \<and> st_generation token \<noteq> st_generation token')"
proof -
  note inv = tasks_inv_reachable [OF assms]
  have m: "mgr_inv env (ts_manager s)"
    using inv by (simp add: tasks_inv_def)
  have ids: "ids (ts_manager s) p = Some (st_generation token)"
    if "i < length (ts_tasks s)" "created (ts_tasks s ! i) = Some (p, token)" for i p token
    using tasks_invD [OF inv that(1)] that(2) by (simp add: task_ok_def)
  have "p \<noteq> q \<and> st_generation token \<noteq> st_generation token'"
    if h: "i < length (ts_tasks s)" "j < length (ts_tasks s)" "i \<noteq> j" "created (ts_tasks s ! i) = Some (p, token)"
      "created (ts_tasks s ! j) = Some (q, token')" for i j p q token token'
  proof -
    have "p \<noteq> q"
      using inv h unfolding tasks_inv_def by blast
    moreover obtain e d where "mg_heap (ts_manager s) p = Some e" "mc_connection_id e = st_generation token"
        "mg_heap (ts_manager s) q = Some d" "mc_connection_id d = st_generation token'"
      using ids [OF h(1,4)] ids [OF h(2,5)] by (auto simp: ids_def)
    ultimately show ?thesis
      using mgr_inv_conjuncts(4) [OF m] by metis
  qed
  moreover have "Finished Dangling \<notin> set (ts_tasks s)"
    using inv unfolding tasks_inv_def list_all_iff task_ok_def by blast
  ultimately show ?thesis
    using m by blast
qed

theorem concurrent_invariant_witness:
  "mgr_inv sample_env (ts_manager race) \<and> map created (ts_tasks race) = [Some (0, slot_token_new 0 1), Some (1, slot_token_new 1 2)]"
  using concurrent_invariant [OF sample_env_ok race_reachable] race_state by simp

end
