(* ===== verification/Tasks_Termination.thy ===== *)
theory Tasks_Termination
  imports Tasks_System
begin

text \<open>
  The operations of the manager end under every interleaving. The only loop without a bound of its own is
  the installation loop of \<open>upsert_shm\<close>, which starts again when another task took the slot it had found;
  but that other task is then done, so the tasks cannot keep each other from finishing.
\<close>

section \<open>The work that is left\<close>

text \<open>The number of accesses a task still makes if the slot it has found stays free.\<close>

definition visits_left :: "nat \<Rightarrow> nat" where
  "visits_left idx = 7 * (MAX_CONNECTION_SLOTS - idx) + 1"

definition scans_left :: "nat \<Rightarrow> nat" where
  "scans_left idx = 5 * (MAX_CONNECTION_SLOTS - idx) + 4"

primrec left_after :: "'b continuation \<Rightarrow> nat" where
  "left_after (Then_Not_Found purpose) = scans_left 0 + 1"
| "left_after (Then_Scan_Again inst idx) = scans_left (Suc idx) + 1"
| "left_after (Then_Visit job idx) = visits_left idx"

fun accesses_left :: "('q, 'k, 'b) task \<Rightarrow> nat" where
  "accesses_left (Lookup _ _) = scans_left 0 + 5"
| "accesses_left (Lookup_Stale _ _ _) = scans_left 0 + 4"
| "accesses_left (Close_Sink k _ _) = left_after k + 2"
| "accesses_left (Swap_Out k _ _) = left_after k + 1"
| "accesses_left (Touch _ _) = 3"
| "accesses_left (Load_Filter _ _) = 2"
| "accesses_left (Store_Filter _ _) = 1"
| "accesses_left (Take_Id _ _ _) = scans_left 0 + 1"
| "accesses_left (Scan _ idx) = scans_left idx"
| "accesses_left (Scan_Stale _ idx _) = scans_left (Suc idx) + 4"
| "accesses_left (Scan_Again _ idx _) = scans_left (Suc idx) + 1"
| "accesses_left (Create_Ring _ _) = 3"
| "accesses_left (Create_Eventfd _ _ _ _) = 2"
| "accesses_left (Install _ _ _) = 1"
| "accesses_left (Refused _ _) = scans_left 0 + 1"
| "accesses_left (Visit _ idx) = visits_left idx"
| "accesses_left (Visit_Stale _ idx _) = visits_left (Suc idx) + 6"
| "accesses_left (Match _ idx _) = visits_left (Suc idx) + 5"
| "accesses_left (Push_Frame _ _ idx _) = visits_left (Suc idx) + 4"
| "accesses_left (Evict _ idx _) = visits_left (Suc idx) + 3"
| "accesses_left (Finished _) = 0"

text \<open>The tasks that may still take a slot, and those whose slot has been taken by another.\<close>

primrec may_subscribe :: "purpose \<Rightarrow> bool" where
  "may_subscribe (Subscribing _ _ _) = True"
| "may_subscribe Pinging = False"

primrec may_install_after :: "'b continuation \<Rightarrow> bool" where
  "may_install_after (Then_Not_Found purpose) = may_subscribe purpose"
| "may_install_after (Then_Scan_Again _ _) = True"
| "may_install_after (Then_Visit _ _) = False"

fun may_install :: "('q, 'k, 'b) task \<Rightarrow> bool" where
  "may_install (Lookup purpose _) = may_subscribe purpose"
| "may_install (Lookup_Stale purpose _ _) = may_subscribe purpose"
| "may_install (Close_Sink k _ _) = may_install_after k"
| "may_install (Swap_Out k _ _) = may_install_after k"
| "may_install (Take_Id _ _ _) = True"
| "may_install (Scan _ _) = True"
| "may_install (Scan_Stale _ _ _) = True"
| "may_install (Scan_Again _ _ _) = True"
| "may_install (Create_Ring _ _) = True"
| "may_install (Create_Eventfd _ _ _ _) = True"
| "may_install (Install _ _ _) = True"
| "may_install (Refused _ _) = True"
| "may_install _ = False"

fun found_slot :: "('q, 'k, 'b) task \<Rightarrow> nat option" where
  "found_slot (Create_Ring _ idx) = Some idx"
| "found_slot (Create_Eventfd _ idx _ _) = Some idx"
| "found_slot (Install _ idx _) = Some idx"
| "found_slot _ = None"

definition beaten :: "('q, 'k, 'b) connection_manager \<Rightarrow> ('q, 'k, 'b) task \<Rightarrow> bool" where
  "beaten m t = (case found_slot t of None \<Rightarrow> False | Some idx \<Rightarrow> load_full m idx \<noteq> None)"

definition count :: "('a \<Rightarrow> bool) \<Rightarrow> 'a list \<Rightarrow> nat" where
  "count P xs = sum_list (map (\<lambda>x. of_bool (P x)) xs)"

definition work :: "('q, 'k, 'b) tasks \<Rightarrow> nat" where
  "work s = sum_list (map accesses_left (ts_tasks s)) +
     (scans_left 0 + 1) * (count (beaten (ts_manager s)) (ts_tasks s) + (count may_install (ts_tasks s))\<^sup>2)"


section \<open>Every access is progress\<close>

lemma sum_list_update_le:
  fixes f g :: "'a \<Rightarrow> nat"
  assumes "i < length xs" and "\<And>u. u \<in> set xs \<Longrightarrow> f u \<le> g u"
  shows "sum_list (map f (xs[i := x])) + g (xs ! i) \<le> sum_list (map g xs) + f x"
  using assms
proof (induction xs arbitrary: i)
  case (Cons a xs)
  show ?case
  proof (cases i)
    case 0
    have "sum_list (map f xs) \<le> sum_list (map g xs)"
      using Cons.prems(2) by (intro sum_list_mono) simp
    with 0 show ?thesis by simp
  next
    case (Suc j)
    then have "sum_list (map f (xs[j := x])) + g (xs ! j) \<le> sum_list (map g xs) + f x"
      using Cons.prems by (intro Cons.IH) simp_all
    with Suc Cons.prems(2) [of a] show ?thesis by simp
  qed
qed simp

lemma count_update:
  assumes "i < length xs" and "\<And>u. P u \<Longrightarrow> Q u"
  shows "count P (xs[i := x]) + of_bool (Q (xs ! i)) \<le> count Q xs + of_bool (P x)"
  unfolding count_def using assms by (intro sum_list_update_le) (auto simp: of_bool_def)

lemma count_mono: "(\<And>u. P u \<Longrightarrow> Q u) \<Longrightarrow> count P xs \<le> count Q xs"
  unfolding count_def by (intro sum_list_mono) (auto simp: of_bool_def)

lemma beaten_may_install: "beaten m t \<Longrightarrow> may_install t"
  unfolding beaten_def by (cases t) simp_all

lemma beaten_simps [simp]:
  "beaten m (Create_Ring inst idx) \<longleftrightarrow> load_full m idx \<noteq> None"
  "beaten m (Create_Eventfd inst idx ring region) \<longleftrightarrow> load_full m idx \<noteq> None"
  "beaten m (Install inst idx sink) \<longleftrightarrow> load_full m idx \<noteq> None"
  "found_slot t = None \<Longrightarrow> \<not> beaten m t"
  by (simp_all add: beaten_def)

text \<open>An access goes forward, takes a slot, or finds that the slot was taken.\<close>

definition goes_forward ::
  "('q, 'k, 'b) task \<Rightarrow> ('q, 'k, 'b) connection_manager \<Rightarrow> ('q, 'k, 'b) task \<Rightarrow> ('q, 'k, 'b) connection_manager \<Rightarrow> bool" where
  "goes_forward t m t' m' \<longleftrightarrow> accesses_left t' < accesses_left t \<and> (may_install t' \<longrightarrow> may_install t) \<and>
     (beaten m' t' \<longrightarrow> beaten m t) \<and> (\<forall>idx. load_full m' idx \<noteq> None \<longrightarrow> load_full m idx \<noteq> None)"

definition takes_slot :: "('q, 'k, 'b) task \<Rightarrow> ('q, 'k, 'b) task \<Rightarrow> bool" where
  "takes_slot t t' \<longleftrightarrow> accesses_left t' < accesses_left t \<and> may_install t \<and> \<not> may_install t'"

definition starts_again ::
  "('q, 'k, 'b) task \<Rightarrow> ('q, 'k, 'b) connection_manager \<Rightarrow> ('q, 'k, 'b) task \<Rightarrow> ('q, 'k, 'b) connection_manager \<Rightarrow> bool" where
  "starts_again t m t' m' \<longleftrightarrow> m' = m \<and> accesses_left t' < accesses_left t + (scans_left 0 + 1) \<and>
     may_install t \<and> beaten m t \<and> \<not> beaten m t'"

lemma visits_left_step: "idx < MAX_CONNECTION_SLOTS \<Longrightarrow> visits_left idx = visits_left (Suc idx) + 7"
  by (simp add: visits_left_def const_defs)

lemma scans_left_step: "idx < MAX_CONNECTION_SLOTS \<Longrightarrow> scans_left idx = scans_left (Suc idx) + 5"
  by (simp add: scans_left_def const_defs)

lemma left_pos: "0 < visits_left idx" "3 < scans_left idx" "scans_left (Suc idx) \<le> scans_left 0"
  by (simp_all add: visits_left_def scans_left_def)

lemma not_found_le: "accesses_left (not_found purpose) \<le> scans_left 0 + 1"
  by (cases purpose) simp_all

lemma not_found_less [simp]: "accesses_left (not_found purpose) < scans_left 0 + 5"
  by (cases purpose) simp_all

lemma resume_le [simp]: "accesses_left (resume k p) \<le> left_after k"
  by (cases k) (simp_all add: not_found_le [simplified])

lemma not_found_kind [simp]: "may_install (not_found purpose) = may_subscribe purpose" "found_slot (not_found purpose) = None"
  by (cases purpose; simp)+

lemma resume_kind [simp]: "may_install (resume k p) = may_install_after k" "found_slot (resume k p) = None"
  by (cases k; simp)+

lemma task_step_progress:
  assumes "\<not> finished t" and "task_step env now t m = (t', m')"
  shows "goes_forward t m t' m' \<or> takes_slot t t' \<or> starts_again t m t' m'"
proof (cases t)
  case (Swap_Out k idx p)
  then have "t' = resume k p" "\<forall>j. load_full m' j \<noteq> None \<longrightarrow> load_full m j \<noteq> None"
    using assms(2) by (auto simp: load_swap split: if_splits)
  then show ?thesis
    using Swap_Out by (intro disjI1) (simp add: goes_forward_def less_Suc_eq_le)
next
  case (Install inst idx sink)
  then show ?thesis
    using assms(2) by (auto simp: takes_slot_def starts_again_def split: if_splits)
next
  case (Scan inst idx)
  then show ?thesis
    using assms(2) left_pos(2) [of idx] scans_left_step [of idx]
    by (intro disjI1) (auto simp: goes_forward_def less_Suc_eq_le split: if_splits option.splits)
next
  case (Visit job idx)
  then show ?thesis
    using assms(2) left_pos(1) [of idx] visits_left_step [of idx]
    by (intro disjI1) (auto simp: goes_forward_def less_Suc_eq_le split: if_splits option.splits)
next
  case (Lookup purpose token)
  then show ?thesis
    using assms(2)
    by (intro disjI1) (auto simp: goes_forward_def less_Suc_eq_le Let_def deref_def split: if_splits option.splits result.splits sum.splits prod.splits purpose.splits)
next
  case (Lookup_Stale purpose idx p)
  then show ?thesis
    using assms(2) left_pos(2) [of 0]
    by (intro disjI1) (auto simp: goes_forward_def less_Suc_eq_le deref_def split: if_splits option.splits result.splits sum.splits prod.splits purpose.splits)
next
  case (Close_Sink k idx p)
  then show ?thesis
    using assms(2)
    by (intro disjI1) (auto simp: goes_forward_def less_Suc_eq_le deref_def split: if_splits option.splits result.splits sum.splits prod.splits purpose.splits)
next
  case (Touch purpose p)
  then show ?thesis
    using assms(2)
    by (intro disjI1) (auto simp: goes_forward_def less_Suc_eq_le deref_def split: if_splits option.splits result.splits sum.splits prod.splits purpose.splits)
next
  case (Load_Filter request p)
  then show ?thesis
    using assms(2)
    by (intro disjI1) (auto simp: goes_forward_def less_Suc_eq_le deref_def split: if_splits option.splits result.splits sum.splits prod.splits purpose.splits)
next
  case (Store_Filter flt p)
  then show ?thesis
    using assms(2)
    by (intro disjI1) (auto simp: goes_forward_def less_Suc_eq_le deref_def split: if_splits option.splits result.splits sum.splits prod.splits purpose.splits)
next
  case (Take_Id request dir cap)
  then show ?thesis
    using assms(2)
    by (intro disjI1) (auto simp: goes_forward_def less_Suc_eq_le load_full_def split: if_splits option.splits result.splits sum.splits prod.splits purpose.splits)
next
  case (Scan_Stale inst idx p)
  then show ?thesis
    using assms(2)
    by (intro disjI1) (auto simp: goes_forward_def less_Suc_eq_le deref_def split: if_splits option.splits result.splits sum.splits prod.splits purpose.splits)
next
  case (Scan_Again inst idx p)
  then show ?thesis
    using assms(2) left_pos(2) [of "Suc idx"]
    by (intro disjI1) (auto simp: goes_forward_def less_Suc_eq_le deref_def split: if_splits option.splits result.splits sum.splits prod.splits purpose.splits)
next
  case (Create_Ring inst idx)
  obtain r fs where "ring_create (se_shaq env) (se_fs env) (mg_files m)
      (path_join (in_shm_dir inst) (ring_file_name (se_pid env) idx (in_connection_id inst))) (in_ring_capacity inst) = (r, fs)"
    by force
  then show ?thesis
    using assms(2) Create_Ring by (intro disjI1) (cases r; auto simp: goes_forward_def Let_def)
next
  case (Create_Eventfd inst idx ring region)
  then show ?thesis
    using assms(2)
    by (intro disjI1) (auto simp: goes_forward_def less_Suc_eq_le  split: if_splits option.splits result.splits sum.splits prod.splits purpose.splits)
next
  case (Refused inst sink)
  then show ?thesis
    using assms(2)
    by (intro disjI1) (auto simp: goes_forward_def less_Suc_eq_le  split: if_splits option.splits result.splits sum.splits prod.splits purpose.splits)
next
  case (Visit_Stale job idx p)
  then show ?thesis
    using assms(2)
    by (intro disjI1) (auto simp: goes_forward_def less_Suc_eq_le deref_def split: if_splits option.splits result.splits sum.splits prod.splits purpose.splits)
next
  case (Match job idx p)
  then show ?thesis
    using assms(2) left_pos(1) [of "Suc idx"]
    by (intro disjI1) (auto simp: goes_forward_def less_Suc_eq_le deref_def split: if_splits option.splits result.splits sum.splits prod.splits purpose.splits)
next
  case (Push_Frame job frame idx p)
  then show ?thesis
    using assms(2) left_pos(1) [of "Suc idx"]
    by (intro disjI1) (auto simp: goes_forward_def less_Suc_eq_le deref_def split: if_splits option.splits result.splits sum.splits prod.splits purpose.splits)
next
  case (Evict job idx p)
  then show ?thesis
    using assms(2)
    by (intro disjI1) (auto simp: goes_forward_def less_Suc_eq_le deref_def split: if_splits option.splits result.splits sum.splits prod.splits purpose.splits)
qed (use assms(1) in simp)


lemma beaten_mono:
  assumes "\<forall>idx. load_full m' idx \<noteq> None \<longrightarrow> load_full m idx \<noteq> None" and "beaten m' t"
  shows "beaten m t"
  using assms by (auto simp: beaten_def split: option.splits)

lemma move_progress:
  assumes "task_move env i s s'"
  shows "work s' < work s"
proof -
  obtain now t m where i: "i < length (ts_tasks s)" "\<not> finished (ts_tasks s ! i)"
      and step: "task_step env now (ts_tasks s ! i) (ts_manager s) = (t, m)"
      and s': "s' = s\<lparr>ts_manager := m, ts_tasks := (ts_tasks s)[i := t]\<rparr>"
    using assms by (rule task_moveE) blast
  let ?ts = "ts_tasks s" and ?L = "scans_left 0 + 1"
  let ?u = "?ts ! i" and ?ts' = "?ts[i := t]"
  have a: "sum_list (map accesses_left ?ts') + accesses_left ?u \<le> sum_list (map accesses_left ?ts) + accesses_left t"
    by (rule sum_list_update_le [OF i(1)]) simp
  have c: "count may_install ?ts' + of_bool (may_install ?u) \<le> count may_install ?ts + of_bool (may_install t)"
    by (rule count_update [OF i(1)])
  from task_step_progress [OF i(2) step]
  consider (forward) "goes_forward ?u (ts_manager s) t m" | (taken) "takes_slot ?u t" | (again) "starts_again ?u (ts_manager s) t m"
    by blast
  then show ?thesis
  proof cases
    case forward
    then have le: "accesses_left t < accesses_left ?u" "may_install t \<longrightarrow> may_install ?u" "beaten m t \<longrightarrow> beaten (ts_manager s) ?u"
        "\<forall>idx. load_full m idx \<noteq> None \<longrightarrow> load_full (ts_manager s) idx \<noteq> None"
      by (simp_all add: goes_forward_def)
    have "count (beaten m) ?ts' \<le> count (beaten (ts_manager s)) ?ts"
      using count_update [OF i(1), where P = "beaten m" and Q = "beaten (ts_manager s)" and x = t] beaten_mono [OF le(4)] le(3) by (auto simp: of_bool_def split: if_splits)
    moreover have "count may_install ?ts' \<le> count may_install ?ts"
      using c le(2) by (auto simp: of_bool_def split: if_splits)
    ultimately have "?L * (count (beaten m) ?ts' + (count may_install ?ts')\<^sup>2) \<le>
        ?L * (count (beaten (ts_manager s)) ?ts + (count may_install ?ts)\<^sup>2)"
      by (intro mult_le_mono2 add_mono power_mono) simp_all
    then show ?thesis
      using a le(1) unfolding work_def s' by simp
  next
    case taken
    then have le: "accesses_left t < accesses_left ?u" "Suc (count may_install ?ts') \<le> count may_install ?ts"
      using c by (simp_all add: takes_slot_def)
    have "count (beaten m) ?ts' + (count may_install ?ts')\<^sup>2 \<le> count may_install ?ts' + (count may_install ?ts')\<^sup>2"
      by (intro add_mono count_mono beaten_may_install order_refl)
    also have "\<dots> \<le> Suc (count may_install ?ts') * Suc (count may_install ?ts')"
      by (simp add: power2_eq_square)
    also have "\<dots> \<le> (count may_install ?ts)\<^sup>2"
      unfolding power2_eq_square by (intro mult_le_mono le(2))
    finally have "?L * (count (beaten m) ?ts' + (count may_install ?ts')\<^sup>2) \<le>
        ?L * (count (beaten (ts_manager s)) ?ts + (count may_install ?ts)\<^sup>2)"
      by (intro mult_le_mono2) simp
    then show ?thesis
      using a le(1) unfolding work_def s' by simp
  next
    case again
    then have le: "accesses_left t < accesses_left ?u + ?L" "m = ts_manager s" "may_install ?u" "beaten m ?u" "\<not> beaten m t"
      by (simp_all add: starts_again_def)
    have b: "Suc (count (beaten m) ?ts') \<le> count (beaten m) ?ts"
      using count_update [OF i(1), where P = "beaten m" and Q = "beaten m" and x = t] le(4,5) by simp
    have "count may_install ?ts' \<le> count may_install ?ts"
      using c le(3) by (auto simp: of_bool_def split: if_splits)
    then have "Suc (count (beaten m) ?ts') + (count may_install ?ts')\<^sup>2 \<le> count (beaten m) ?ts + (count may_install ?ts)\<^sup>2"
      by (intro add_mono b power_mono) simp_all
    then have "?L * (Suc (count (beaten m) ?ts') + (count may_install ?ts')\<^sup>2) \<le>
        ?L * (count (beaten m) ?ts + (count may_install ?ts)\<^sup>2)"
      by (rule mult_le_mono2)
    then show ?thesis
      using a le(1,2) unfolding work_def s' by (simp add: algebra_simps)
  qed
qed

lemma moves_bounded:
  assumes "((\<lambda>s s'. \<exists>i. task_move env i s s') ^^ n) s s'"
  shows "n + work s' \<le> work s"
  using assms
proof (induction n arbitrary: s')
  case (Suc n)
  then obtain u i where "((\<lambda>s s'. \<exists>i. task_move env i s s') ^^ n) s u" and "task_move env i u s'"
    by auto
  with Suc.IH [of u] move_progress [of env i u s'] show ?case
    by simp
qed simp

text \<open>A task that is not finished can always make its next access: nothing blocks.\<close>

lemma no_move_finished:
  assumes "\<And>i s'. \<not> task_move env i s s'"
  shows "list_all finished (ts_tasks s)"
  unfolding list_all_length
proof (intro allI impI)
  fix i assume i: "i < length (ts_tasks s)"
  obtain t m where "task_step env 0 (ts_tasks s ! i) (ts_manager s) = (t, m)"
    by force
  with assms i show "finished (ts_tasks s ! i)"
    using move [of i s env 0 t m] by blast
qed

lemma valid_start_left:
  assumes "valid_start t"
  shows "accesses_left t \<le> 71" and "found_slot t = None"
  using assms unfolding valid_start_def
  by (auto simp: upsert_task_def ping_task_def dispatch_task_def scans_left_def visits_left_def const_defs split: option.splits)

lemma work_start:
  assumes "list_all valid_start (ts_tasks s)"
  shows "work s \<le> 71 * length (ts_tasks s) + 55 * (length (ts_tasks s))\<^sup>2"
proof -
  define ts where "ts = ts_tasks s"
  note assms = assms [folded ts_def]
  have "sum_list (map accesses_left ts) \<le> 71 * length ts"
    using assms valid_start_left(1) by (induction ts) (fastforce simp: algebra_simps)+
  moreover have "count (beaten (ts_manager s)) ts = 0"
    using assms unfolding count_def by (induction ts) (simp_all add: valid_start_left(2))
  moreover have "count may_install ts \<le> length ts"
    by (induction ts) (simp_all add: count_def of_bool_def)
  then have "55 * (count may_install ts)\<^sup>2 \<le> 55 * (length ts)\<^sup>2"
    by (intro mult_le_mono2 power_mono) simp_all
  ultimately show ?thesis
    by (simp del: mult_le_cancel1 nat_mult_le_cancel_disj power_mono_iff add: work_def scans_left_def const_defs flip: ts_def)
qed

lemma tasks_finish: "\<exists>s'. (\<lambda>s s'. \<exists>i. task_move env i s s')\<^sup>*\<^sup>* s s' \<and> list_all finished (ts_tasks s')"
proof (induction "work s" arbitrary: s rule: less_induct)
  case less
  show ?case
  proof (cases "\<exists>i u. task_move env i s u")
    case True
    then obtain i u where u: "task_move env i s u"
      by blast
    obtain s' where "(\<lambda>s s'. \<exists>i. task_move env i s s')\<^sup>*\<^sup>* u s'" "list_all finished (ts_tasks s')"
      using less [OF move_progress [OF u]] by blast
    then show ?thesis
      using converse_rtranclp_into_rtranclp [of "\<lambda>s s'. \<exists>i. task_move env i s s'" s u s'] u by blast
  next
    case False
    then have "list_all finished (ts_tasks s)"
      by (intro no_move_finished) blast
    then show ?thesis
      by blast
  qed
qed

text \<open>
  C6: the operations of the manager terminate under every interleaving and never block each other. Any
  number of subscriptions, pings and dispatch passes started together make at most
  \<open>71 n + 55 n\<^sup>2\<close> accesses for \<open>n\<close> tasks, whatever the schedule; a state where no task can move is one
  where all have returned; and from every state they can all be run to the end.
\<close>

theorem tasks_terminate:
  assumes "list_all valid_start (ts_tasks s)"
  shows "(\<forall>k s'. ((\<lambda>s s'. \<exists>i. task_move env i s s') ^^ k) s s' \<longrightarrow>
      k \<le> 71 * length (ts_tasks s) + 55 * (length (ts_tasks s))\<^sup>2 \<and>
      ((\<nexists>i s''. task_move env i s' s'') \<longrightarrow> list_all finished (ts_tasks s'))) \<and>
    (\<exists>s'. (\<lambda>s s'. \<exists>i. task_move env i s s')\<^sup>*\<^sup>* s s' \<and> list_all finished (ts_tasks s'))"
proof (intro conjI allI impI)
  fix k s' assume "((\<lambda>s s'. \<exists>i. task_move env i s s') ^^ k) s s'"
  then show "k \<le> 71 * length (ts_tasks s) + 55 * (length (ts_tasks s))\<^sup>2"
    using moves_bounded work_start [OF assms] by fastforce
qed (use no_move_finished tasks_finish in blast)+

theorem tasks_terminate_witness:
  "let s = start_tasks [upsert_task sample_request ''/dev/shm'' 256, ping_task \<lparr>pr_slot_token = slot_token_new 0 1\<rparr>]
       (tasks_new {} :: (list_queue, nat, bytes list) tasks)
   in (\<nexists>k s'. 362 < k \<and> ((\<lambda>s s'. \<exists>i. task_move sample_env i s s') ^^ k) s s') \<and>
      (\<exists>s'. (\<lambda>s s'. \<exists>i. task_move sample_env i s s')\<^sup>*\<^sup>* s s' \<and> list_all finished (ts_tasks s'))"
proof -
  let ?u = "upsert_task sample_request ''/dev/shm'' 256 :: (list_queue, nat, bytes list) task"
  let ?p = "ping_task \<lparr>pr_slot_token = slot_token_new 0 1\<rparr> :: (list_queue, nat, bytes list) task"
  let ?s = "start_tasks [?u, ?p] (tasks_new {})"
  have s: "list_all valid_start (ts_tasks ?s)" "length (ts_tasks ?s) = 2"
    by (simp_all add: start_tasks_def tasks_new_def valid_starts)
  from tasks_terminate [OF s(1), of sample_env] show ?thesis
    unfolding s(2) Let_def by fastforce
qed

end
