(* ===== verification/Tasks_Files.thy ===== *)
theory Tasks_Files
  imports Tasks_System
begin

text \<open>
  The files of the rings under concurrent tasks. A ring file is created by a subscription, handed to the
  connection that is installed, and unlinked when the last reference to its owner is dropped
  (\<open>Drop for ShmRingProducer\<close>, \<open>src/ring.rs\<close>). Each file has one owner at any time, and it is there as
  long as the owner lives.
\<close>

section \<open>Owners\<close>

text \<open>The path of a ring and whether dropping the ring unlinks it; the rings of the connections and of a task.\<close>

definition ring_id :: "ring_producer \<Rightarrow> string \<times> bool" where
  "ring_id ring = (rp_path ring, rp_owns_file ring)"

definition heap_rings :: "('q, 'k, 'b) connection_manager \<Rightarrow> ptr \<rightharpoonup> string \<times> bool" where
  "heap_rings m p = map_option (\<lambda>e. ring_id (sk_ring (mc_sink e))) (mg_heap m p)"

definition task_ring :: "('q, 'k, 'b) task \<Rightarrow> (string \<times> bool) option" where
  "task_ring t = map_option (\<lambda>(ring, region). ring_id ring) (own_ring t)"

text \<open>The owners: connections that have not been dropped, and tasks between creation and installation.\<close>

definition owner :: "('q, 'k, 'b) tasks \<Rightarrow> ptr + nat \<rightharpoonup> string \<times> bool" where
  "owner s x = (case x of
     Inl p \<Rightarrow> if p \<in> ts_reclaimed s then None else heap_rings (ts_manager s) p
   | Inr i \<Rightarrow> if i < length (ts_tasks s) then task_ring (ts_tasks s ! i) else None)"

abbreviation owned_paths :: "('x \<rightharpoonup> string \<times> bool) \<Rightarrow> string set" where
  "owned_paths own \<equiv> fst ` ran own"

definition owned_ok :: "file_system \<Rightarrow> ('x \<rightharpoonup> string \<times> bool) \<Rightarrow> file_system \<Rightarrow> bool" where
  "owned_ok fs0 own fs \<longleftrightarrow> fs0 \<subseteq> fs \<and>
     (\<forall>x path. own x \<noteq> Some (path, False)) \<and>
     (\<forall>x path b. own x = Some (path, b) \<longrightarrow> path \<in> fs \<and> path \<notin> fs0) \<and>
     (\<forall>x y path b b'. own x = Some (path, b) \<longrightarrow> own y = Some (path, b') \<longrightarrow> x = y)"

lemma owned_okD:
  assumes "owned_ok fs0 own fs" and "own x = Some (path, b)"
  shows "b" and "path \<in> fs" and "path \<notin> fs0" and "own y = Some (path, b') \<Longrightarrow> x = y"
proof -
  show b
    using assms unfolding owned_ok_def by (cases b) auto
qed (use assms in \<open>unfold owned_ok_def, blast+\<close>)

lemma owned_okI:
  assumes "fs0 \<subseteq> fs" and "\<And>x path b. own x = Some (path, b) \<Longrightarrow> b \<and> path \<in> fs \<and> path \<notin> fs0"
    and "\<And>x y path b b'. own x = Some (path, b) \<Longrightarrow> own y = Some (path, b') \<Longrightarrow> x = y"
  shows "owned_ok fs0 own fs"
  using assms unfolding owned_ok_def by blast

lemma owned_gain:
  assumes "owned_ok fs0 own fs" and "own x = None" and "path \<notin> fs"
  shows "owned_ok fs0 (own(x \<mapsto> (path, True))) (insert path fs)"
proof (rule owned_okI)
  have fs0: "fs0 \<subseteq> fs"
    using assms(1) by (simp add: owned_ok_def)
  then show "fs0 \<subseteq> insert path fs"
    by blast
  show "b \<and> q \<in> insert path fs \<and> q \<notin> fs0" if "(own(x \<mapsto> (path, True))) y = Some (q, b)" for y q b
    using that owned_okD(1-3) [OF assms(1), of y q b] assms(3) fs0 by (auto split: if_splits)
  show "y = z" if "(own(x \<mapsto> (path, True))) y = Some (q, b)" "(own(x \<mapsto> (path, True))) z = Some (q, b')" for y z q b b'
    using that owned_okD(2) [OF assms(1)] owned_okD(4) [OF assms(1), of y q b z b'] assms(3) by (auto split: if_splits)
qed

lemma owned_drop:
  assumes "owned_ok fs0 own fs" and "own x = Some (path, True)"
  shows "owned_ok fs0 (own(x := None)) (fs - {path})"
proof (rule owned_okI)
  show "fs0 \<subseteq> fs - {path}"
    using assms(1) owned_okD(3) [OF assms] by (auto simp: owned_ok_def)
  have old: "own y = Some w \<and> y \<noteq> x" if "(own(x := None)) y = Some w" for y w
    using that by (cases "y = x") simp_all
  show "c \<and> q \<in> fs - {path} \<and> q \<notin> fs0" if "(own(x := None)) y = Some (q, c)" for y q c
    using old [OF that] owned_okD(1-3) [OF assms(1), of y q c] owned_okD(4) [OF assms, of y c] by blast
  show "y = z" if "(own(x := None)) y = Some (q, b)" "(own(x := None)) z = Some (q, b')" for y z q b b'
    using old [OF that(1)] old [OF that(2)] owned_okD(4) [OF assms(1), of y q b z b'] by blast
qed

lemma owned_transfer:
  assumes "owned_ok fs0 own fs" and "own x = Some v" and "own y = None"
  shows "owned_ok fs0 (own(x := None, y \<mapsto> v)) fs"
proof (rule owned_okI)
  let ?own = "own(x := None, y \<mapsto> v)"
  have from_own: "\<exists>u. own u = Some w \<and> (z = y \<and> u = x \<or> z \<noteq> y \<and> u = z)" if "?own z = Some w" for z w
    using that assms(2) by (auto split: if_splits)
  show "fs0 \<subseteq> fs"
    using assms(1) by (simp add: owned_ok_def)
  show "b \<and> q \<in> fs \<and> q \<notin> fs0" if "?own z = Some (q, b)" for z q b
    using from_own [OF that] owned_okD(1-3) [OF assms(1), of _ q b] by blast
  show "z = z'" if "?own z = Some (q, b)" "?own z' = Some (q, b')" for z z' q b b'
    using from_own [OF that(1)] from_own [OF that(2)] owned_okD(4) [OF assms(1), of _ q b _ b'] that by (auto split: if_splits)
qed

lemma owned_mono: "owned_ok fs0 own fs \<Longrightarrow> fs \<subseteq> fs' \<Longrightarrow> owned_ok fs0 own fs'"
  unfolding owned_ok_def by blast

text \<open>No file besides the given ones and the owned ones.\<close>

definition tidy :: "file_system \<Rightarrow> ('x \<rightharpoonup> string \<times> bool) \<Rightarrow> file_system \<Rightarrow> bool" where
  "tidy fs0 own fs \<longleftrightarrow> fs \<subseteq> fs0 \<union> owned_paths own"

lemma tidyE:
  assumes "tidy fs0 own fs" and "path \<in> fs" and "path \<notin> fs0"
  obtains x b where "own x = Some (path, b)"
  using assms unfolding tidy_def ran_def by fastforce

lemma tidyI:
  assumes "\<And>path. path \<in> fs \<Longrightarrow> path \<notin> fs0 \<Longrightarrow> \<exists>x b. own x = Some (path, b)"
  shows "tidy fs0 own fs"
  using assms unfolding tidy_def ran_def by (force simp: image_iff)

lemma tidy_gain:
  assumes "tidy fs0 own fs" and "own x = None"
  shows "tidy fs0 (own(x \<mapsto> (path, True))) (insert path fs)"
proof (rule tidyI)
  fix q assume "q \<in> insert path fs" "q \<notin> fs0"
  then show "\<exists>y b. (own(x \<mapsto> (path, True))) y = Some (q, b)"
    using tidyE [OF assms(1), of q] assms(2) by (metis fun_upd_apply insert_iff option.distinct(1))
qed

lemma tidy_drop:
  assumes "tidy fs0 own fs" and "own x = Some (path, True)"
  shows "tidy fs0 (own(x := None)) (fs - {path})"
proof (rule tidyI)
  fix q assume q: "q \<in> fs - {path}" "q \<notin> fs0"
  then obtain y b where "own y = Some (q, b)"
    using tidyE [OF assms(1), of q] by blast
  with q assms(2) show "\<exists>y b. (own(x := None)) y = Some (q, b)"
    by (intro exI [of _ y] exI [of _ b]) auto
qed

lemma tidy_transfer:
  assumes "tidy fs0 own fs" and "own x = Some v" and "own y = None"
  shows "tidy fs0 (own(x := None, y \<mapsto> v)) fs"
proof (rule tidyI)
  fix q assume q: "q \<in> fs" "q \<notin> fs0"
  then obtain z b where z: "own z = Some (q, b)"
    using tidyE [OF assms(1), of q] by blast
  with assms(2,3) show "\<exists>z b. (own(x := None, y \<mapsto> v)) z = Some (q, b)"
    by (cases "z = x") (auto intro: exI [of _ y] exI [of _ z])
qed


section \<open>What an access does to the files\<close>

lemma ring_id_push: "sink_try_push sq ek sink frame = (r, sink') \<Longrightarrow> ring_id (sk_ring sink') = ring_id (sk_ring sink)"
  by (auto simp: sink_try_push_def ring_try_push_def ring_id_def Let_def split: option.splits if_splits prod.splits)

lemma ring_id_close [simp]: "ring_id (sk_ring (mc_sink (close_connection env e))) = ring_id (sk_ring (mc_sink e))"
  by (simp add: close_connection_def sink_close_def)

lemma heap_rings_set:
  "mg_heap m p = Some e \<Longrightarrow> ring_id (sk_ring (mc_sink e')) = ring_id (sk_ring (mc_sink e)) \<Longrightarrow>
     heap_rings (set_connection m p e') = heap_rings m"
  by (simp add: heap_rings_def fun_eq_iff)

lemma heap_rings_same [simp]:
  "heap_rings (m\<lparr>mg_files := fs\<rparr>) = heap_rings m"
  "heap_rings (m\<lparr>mg_next_connection_id := n\<rparr>) = heap_rings m"
  "heap_rings (snd (compare_and_swap m idx (Some p) None)) = heap_rings m"
  by (simp_all add: heap_rings_def fun_eq_iff)

lemma task_ring_simps [simp]:
  "task_ring (not_found purpose) = None" "task_ring (resume k p) = None" "own_ring t = None \<Longrightarrow> task_ring t = None"
  by (simp_all add: task_ring_def)

lemma ring_create_panic: "ring_create sq fe fs path cap = (Panic, fs') \<Longrightarrow> fs \<subseteq> fs'"
  by (auto simp: ring_create_def Let_def split: option.splits sum.splits if_splits)

datatype file_effect = Keeps | Gains string | Leaks | Drops | Hands_Over

fun has_effect ::
  "('q, 'k, 'b) task \<Rightarrow> ('q, 'k, 'b) connection_manager \<Rightarrow> ('q, 'k, 'b) task \<Rightarrow> ('q, 'k, 'b) connection_manager \<Rightarrow> file_effect \<Rightarrow> bool" where
  "has_effect t m t' m' Keeps \<longleftrightarrow> mg_files m' = mg_files m \<and> heap_rings m' = heap_rings m \<and> task_ring t' = task_ring t"
| "has_effect t m t' m' (Gains path) \<longleftrightarrow> path \<notin> mg_files m \<and> mg_files m' = insert path (mg_files m) \<and>
     heap_rings m' = heap_rings m \<and> task_ring t = None \<and> task_ring t' = Some (path, True)"
| "has_effect t m t' m' Leaks \<longleftrightarrow> mg_files m \<subseteq> mg_files m' \<and> heap_rings m' = heap_rings m \<and> task_ring t = None \<and>
     t' = Finished (Provided Panic)"
| "has_effect t m t' m' Drops \<longleftrightarrow> heap_rings m' = heap_rings m \<and> task_ring t' = None \<and>
     (\<exists>path b. task_ring t = Some (path, b) \<and> mg_files m' = (if b then mg_files m - {path} else mg_files m))"
| "has_effect t m t' m' Hands_Over \<longleftrightarrow> mg_files m' = mg_files m \<and> task_ring t' = None \<and>
     (\<exists>v. task_ring t = Some v \<and> heap_rings m' = (heap_rings m)(mg_next_ptr m \<mapsto> v))"

lemma reading_effect:
  assumes "reading t" and "task_step env now t m = (t', m')"
  shows "has_effect t m t' m' Keeps"
proof -
  have "m' = m"
    using reading_step [OF assms(1), of env now m] assms(2) by simp
  moreover have "own_ring t = None" "own_ring t' = None"
    using assms by (cases t; auto simp: deref_def Let_def split: if_splits option.splits result.splits)+
  ultimately show ?thesis
    by simp
qed

lemma task_step_effect:
  assumes "shaq_ok (se_shaq env)" and "task_step env now t m = (t', m')"
  shows "\<exists>x. has_effect t m t' m' x"
proof (cases "reading t")
  case False
  have ok: "rp_owns_file ring \<and> rp_path ring = path \<and> path \<notin> fs \<and> fs' = insert path fs"
    if "ring_create (se_shaq env) fe fs path cap = (Ok (ring, region), fs')" for fe fs path cap ring region fs'
    using ring_create_Ok(5-8) [OF assms(1) that] by blast
  show ?thesis
  proof (cases t)
    case (Close_Sink k idx p)
    with assms(2) show ?thesis
      by (intro exI [of _ Keeps]) (auto simp: deref_def heap_rings_set split: option.splits)
  next
    case (Swap_Out k idx p)
    with assms(2) show ?thesis
      by (intro exI [of _ Keeps]) auto
  next
    case (Touch purpose p)
    with assms(2) show ?thesis
      by (intro exI [of _ Keeps]) (auto simp: deref_def heap_rings_set split: option.splits purpose.splits)
  next
    case (Store_Filter flt p)
    with assms(2) show ?thesis
      by (intro exI [of _ Keeps]) (auto simp: deref_def heap_rings_set split: option.splits)
  next
    case (Take_Id request dir cap)
    with assms(2) show ?thesis
      by (intro exI [of _ Keeps]) auto
  next
    case (Create_Ring inst idx)
    obtain path r fs where c: "path = path_join (in_shm_dir inst) (ring_file_name (se_pid env) idx (in_connection_id inst))"
        "ring_create (se_shaq env) (se_fs env) (mg_files m) path (in_ring_capacity inst) = (r, fs)"
      by (metis surj_pair)
    show ?thesis
    proof (cases r)
      case (Ok x)
      with assms(2) Create_Ring c ok show ?thesis
        by (intro exI [of _ "Gains path"]) (cases x, auto simp: Let_def task_ring_def ring_id_def)
    next
      case (Err e)
      with assms(2) Create_Ring c ring_create_not_Ok [OF c(2)] show ?thesis
        by (intro exI [of _ Keeps]) (auto simp: Let_def)
    next
      case Panic
      with assms(2) Create_Ring c ring_create_panic show ?thesis
        by (intro exI [of _ Leaks]) (fastforce simp: Let_def)
    qed
  next
    case (Create_Eventfd inst idx ring region)
    with assms(2) show ?thesis
      by (cases "se_eventfd env")
        (auto simp: task_ring_def sink_shm_def ring_drop_def ring_id_def intro: exI [of _ Keeps] exI [of _ Drops])
  next
    case (Install inst idx sink)
    with assms(2) show ?thesis
      by (cases "load_full m idx")
        (auto simp: task_ring_def heap_rings_def install_def fun_eq_iff intro: exI [of _ Keeps] exI [of _ Hands_Over])
  next
    case (Refused inst sink)
    with assms(2) show ?thesis
      by (intro exI [of _ Drops]) (auto simp: task_ring_def ring_drop_def ring_id_def)
  next
    case (Push_Frame job frame idx p)
    with assms(2) show ?thesis
      by (intro exI [of _ Keeps]) (auto simp: deref_def heap_rings_set ring_id_push split: option.splits prod.splits sum.splits)
  qed (use False in simp_all)
qed (use reading_effect assms(2) in blast)


section \<open>The invariant of the files\<close>

text \<open>
  Slots and tasks only point to connections that have not been dropped, and a subscription was told the
  path of the ring of its connection. A file that nobody owns can only come from a subscription that
  panicked.
\<close>

definition files_inv :: "file_system \<Rightarrow> ('q, 'k, 'b) tasks \<Rightarrow> bool" where
  "files_inv fs0 s \<longleftrightarrow> owned_ok fs0 (owner s) (mg_files (ts_manager s)) \<and>
     (Finished (Provided Panic) \<in> set (ts_tasks s) \<or> tidy fs0 (owner s) (mg_files (ts_manager s))) \<and>
     (\<forall>idx p. load_full (ts_manager s) idx = Some p \<longrightarrow> p \<notin> ts_reclaimed s) \<and>
     (\<forall>i p. i < length (ts_tasks s) \<longrightarrow> held (ts_tasks s ! i) = Some p \<longrightarrow> p \<notin> ts_reclaimed s) \<and>
     ts_reclaimed s \<subseteq> dom (mg_heap (ts_manager s)) \<and>
     (\<forall>i token path cap p. i < length (ts_tasks s) \<longrightarrow>
        ts_tasks s ! i = Finished (Provided (Ok (Created token path cap p))) \<longrightarrow>
        (\<exists>b. heap_rings (ts_manager s) p = Some (path, b)))"

lemma held_step:
  assumes "task_step env now t m = (t', m')" and "held t' = Some p"
  shows "held t = Some p \<or> (\<exists>idx. load_full m idx = Some p)"
proof (cases t)
  case (Swap_Out k idx q)
  with assms held_resume [of k q p] show ?thesis by auto
next
  case (Lookup purpose token)
  with assms show ?thesis
    by (auto simp: deref_def Let_def split: if_splits option.splits)
next
  case (Evict job idx q)
  with assms show ?thesis
    by (auto simp: deref_def split: if_splits option.splits)
qed (use assms in \<open>auto simp: deref_def Let_def split: if_splits option.splits result.splits sum.splits prod.splits purpose.splits\<close>)

lemma load_step:
  assumes "task_step env now t m = (t', m')" and "load_full m' idx = Some p"
  shows "load_full m idx = Some p \<or> p = mg_next_ptr m"
proof (cases "reading t")
  case True
  then show ?thesis
    using reading_step [OF True, of env now m] assms by simp
next
  case False
  then show ?thesis
  proof (cases t)
    case (Swap_Out k j q)
    with assms show ?thesis by (auto simp: load_swap split: if_splits)
  next
    case (Install inst j sink)
    with assms show ?thesis
      by (auto simp: load_full_def install_def nth_list_update split: if_splits)
  qed (use assms False in \<open>auto simp: deref_def Let_def split: if_splits option.splits result.splits sum.splits prod.splits\<close>)
qed

lemma not_provided [simp]: "not_found purpose \<noteq> Finished (Provided r)" "resume k p \<noteq> Finished (Provided r)"
proof -
  show n: "not_found purpose \<noteq> Finished (Provided r)" for purpose :: purpose
    by (cases purpose) simp_all
  show "resume k p \<noteq> Finished (Provided r)"
    by (cases k) (simp_all add: n)
qed

lemma created_ring:
  assumes "task_step env now t m = (Finished (Provided (Ok (Created token path cap p))), m')" and "\<not> finished t"
  shows "\<exists>b. heap_rings m' p = Some (path, b)"
proof (cases t)
  case (Install inst idx sink)
  with assms show ?thesis
    by (auto simp: heap_rings_def install_def ring_id_def split: if_splits)
qed (use assms in \<open>auto simp: deref_def Let_def split: if_splits option.splits result.splits sum.splits prod.splits purpose.splits\<close>)

lemma owner_move:
  assumes "i < length (ts_tasks s)"
  shows "owner (s\<lparr>ts_manager := m, ts_tasks := (ts_tasks s)[i := t]\<rparr>) =
    (\<lambda>x. case x of Inl p \<Rightarrow> if p \<in> ts_reclaimed s then None else heap_rings m p
        | Inr j \<Rightarrow> if j = i then task_ring t else owner s (Inr j))"
  using assms by (auto simp: owner_def fun_eq_iff nth_list_update split: sum.splits)

lemma owner_at: "i < length (ts_tasks s) \<Longrightarrow> owner s (Inr i) = task_ring (ts_tasks s ! i)"
  by (simp add: owner_def)

lemma owner_same_heap:
  assumes "i < length (ts_tasks s)" and "heap_rings m = heap_rings (ts_manager s)"
  shows "owner (s\<lparr>ts_manager := m, ts_tasks := (ts_tasks s)[i := t]\<rparr>) = (owner s)(Inr i := task_ring t)"
  unfolding owner_move [OF assms(1)] using assms(2) by (auto simp: owner_def fun_eq_iff split: sum.splits)

lemma owner_hand_over:
  assumes "i < length (ts_tasks s)" and "heap_rings m = (heap_rings (ts_manager s))(q \<mapsto> v)" and "q \<notin> ts_reclaimed s"
    and "task_ring t = None"
  shows "owner (s\<lparr>ts_manager := m, ts_tasks := (ts_tasks s)[i := t]\<rparr>) = (owner s)(Inr i := None, Inl q \<mapsto> v)"
  unfolding owner_move [OF assms(1)] using assms(2-4) by (auto simp: owner_def fun_eq_iff split: sum.splits)

lemma dom_heap_rings: "dom (heap_rings m) = dom (mg_heap m)"
  by (auto simp: heap_rings_def dom_def)

lemma heap_rings_le:
  assumes "has_effect t m t' m' x" and "mg_heap m (mg_next_ptr m) = None" and "heap_rings m p = Some v"
  shows "heap_rings m' p = Some v"
proof -
  have "p \<noteq> mg_next_ptr m"
    using assms(2,3) by (auto simp: heap_rings_def)
  then show ?thesis
    using assms(1,3) by (cases x) auto
qed

lemma owned_move:
  assumes "owned_ok fs0 (owner s) (mg_files (ts_manager s))" and "i < length (ts_tasks s)"
    and "has_effect (ts_tasks s ! i) (ts_manager s) t m x" and "mg_heap (ts_manager s) (mg_next_ptr (ts_manager s)) = None"
    and "mg_next_ptr (ts_manager s) \<notin> ts_reclaimed s"
  defines "s' \<equiv> s\<lparr>ts_manager := m, ts_tasks := (ts_tasks s)[i := t]\<rparr>"
  shows "owned_ok fs0 (owner s') (mg_files m) \<and>
    (tidy fs0 (owner s) (mg_files (ts_manager s)) \<longrightarrow> x = Leaks \<or> tidy fs0 (owner s') (mg_files m))"
proof (cases x)
  case Keeps
  then have "owner s' = owner s" "mg_files m = mg_files (ts_manager s)"
    using assms(3) owner_same_heap [OF assms(2), of m t] owner_at [OF assms(2)] by (simp_all add: s'_def fun_upd_idem)
  then show ?thesis
    using assms(1) by simp
next
  case (Gains path)
  then have "owner s' = (owner s)(Inr i \<mapsto> (path, True))" "owner s (Inr i) = None" "path \<notin> mg_files (ts_manager s)"
      "mg_files m = insert path (mg_files (ts_manager s))"
    using assms(3) owner_same_heap [OF assms(2), of m t] owner_at [OF assms(2)] by (simp_all add: s'_def)
  then show ?thesis
    using owned_gain [OF assms(1)] tidy_gain by metis
next
  case Leaks
  then have "owner s' = owner s" "mg_files (ts_manager s) \<subseteq> mg_files m"
    using assms(3) owner_same_heap [OF assms(2), of m t] owner_at [OF assms(2)]
    by (simp_all add: s'_def fun_upd_idem task_ring_def)
  then show ?thesis
    using owned_mono [OF assms(1)] Leaks by simp
next
  case Drops
  then obtain path b where d: "task_ring (ts_tasks s ! i) = Some (path, b)" "task_ring t = None"
      "mg_files m = (if b then mg_files (ts_manager s) - {path} else mg_files (ts_manager s))"
      "heap_rings m = heap_rings (ts_manager s)"
    using assms(3) by auto
  then have o: "owner s (Inr i) = Some (path, b)" "owner s' = (owner s)(Inr i := None)"
    using owner_same_heap [OF assms(2), of m t] owner_at [OF assms(2)] by (simp_all add: s'_def)
  then have "owner s (Inr i) = Some (path, True)" "mg_files m = mg_files (ts_manager s) - {path}"
    using owned_okD(1) [OF assms(1) o(1)] d(3) by simp_all
  then show ?thesis
    using owned_drop [OF assms(1)] tidy_drop o(2) by metis
next
  case Hands_Over
  then obtain v where h: "task_ring (ts_tasks s ! i) = Some v" "task_ring t = None" "mg_files m = mg_files (ts_manager s)"
      "heap_rings m = (heap_rings (ts_manager s))(mg_next_ptr (ts_manager s) \<mapsto> v)"
    using assms(3) by auto
  then have "owner s (Inr i) = Some v" "owner s (Inl (mg_next_ptr (ts_manager s))) = None"
      "owner s' = (owner s)(Inr i := None, Inl (mg_next_ptr (ts_manager s)) \<mapsto> v)"
    using owner_hand_over [OF assms(2) h(4) assms(5) h(2)] owner_at [OF assms(2)] assms(4)
    by (simp_all add: s'_def owner_def heap_rings_def)
  then show ?thesis
    using owned_transfer [OF assms(1)] tidy_transfer h(3) by metis
qed

lemma files_inv_move:
  assumes "sender_env_ok env" and "tasks_inv env s" and "files_inv fs0 s" and "task_move env i s s'"
  shows "files_inv fs0 s'"
proof -
  let ?m = "ts_manager s" and ?ts = "ts_tasks s" and ?R = "ts_reclaimed s"
  obtain now t m where i: "i < length ?ts" "\<not> finished (?ts ! i)" and step: "task_step env now (?ts ! i) ?m = (t, m)"
      and s': "s' = s\<lparr>ts_manager := m, ts_tasks := ?ts[i := t]\<rparr>"
    using assms(4) by (rule task_moveE) blast
  have "shaq_ok (se_shaq env)"
    using assms(1) by (simp add: sender_env_ok_def)
  then obtain x where x: "has_effect (?ts ! i) ?m t m x"
    using task_step_effect [OF _ step] by blast
  note inv = assms(3) [unfolded files_inv_def]
  have slot_live: "p \<notin> ?R" if "load_full ?m idx = Some p" for idx p
    using inv that by blast
  have held_live: "p \<notin> ?R" if "j < length ?ts" "held (?ts ! j) = Some p" for j p
    using inv that by blast
  have fresh: "mg_heap ?m (mg_next_ptr ?m) = None"
    by (rule inv_fresh_ptr [OF conjunct1 [OF assms(2) [unfolded tasks_inv_def]]])
  then have "mg_next_ptr ?m \<notin> ?R"
    using inv by (auto simp: subset_iff)
  note owned = owned_move [OF conjunct1 [OF inv] i(1) x fresh this]
  note le = heap_rings_le [OF x fresh]
  have nth: "?ts[i := t] ! n = (if n = i then t else ?ts ! n)" for n
    using i by (simp add: nth_list_update)
  have "Finished (Provided Panic) \<in> set (?ts[i := t])" if "Finished (Provided Panic) \<in> set ?ts \<or> x = Leaks"
    using that
  proof
    assume "Finished (Provided Panic) \<in> set ?ts"
    then obtain j where "j < length ?ts" "?ts ! j = Finished (Provided Panic)" "j \<noteq> i"
      using i(2) by (metis finished.simps(1) in_set_conv_nth)
    then show ?thesis
      using nth [of j] by (metis length_list_update nth_mem)
  qed (use x i(1) in \<open>simp add: set_update_memI\<close>)
  moreover have "p \<notin> ?R" if "load_full m idx = Some p" for idx p
    using load_step [OF step that] slot_live \<open>mg_next_ptr ?m \<notin> ?R\<close> by blast
  moreover have "p \<notin> ?R" if "j < length ?ts" "held (?ts[i := t] ! j) = Some p" for j p
  proof (cases "j = i")
    case True
    then have "held t = Some p"
      using that nth by simp
    then show ?thesis
      using held_step [OF step, of p] slot_live held_live [OF i(1)] by blast
  qed (use that nth held_live [of j p] in simp)
  moreover have "?R \<subseteq> dom (mg_heap m)"
  proof -
    have "dom (heap_rings ?m) \<subseteq> dom (heap_rings m)"
      using le by blast
    moreover have "?R \<subseteq> dom (mg_heap ?m)"
      using inv by blast
    ultimately show ?thesis
      unfolding dom_heap_rings by (rule order_trans [rotated])
  qed
  moreover have "\<exists>b. heap_rings m p = Some (path, b)"
    if c: "j < length ?ts" "?ts[i := t] ! j = Finished (Provided (Ok (Created token path cap p)))" for j token path cap p
  proof (cases "j = i")
    case True
    then have "t = Finished (Provided (Ok (Created token path cap p)))"
      using c(2) nth by simp
    then show ?thesis
      using created_ring [OF _ i(2)] step by blast
  next
    case False
    then have "?ts ! j = Finished (Provided (Ok (Created token path cap p)))"
      using c(2) nth by simp
    then obtain b where "heap_rings ?m p = Some (path, b)"
      using inv c(1) by blast
    then show ?thesis
      using le by blast
  qed
  moreover have "Finished (Provided Panic) \<in> set (?ts[i := t]) \<or> tidy fs0 (owner s') (mg_files m)"
    using owned inv calculation(1) unfolding s' by blast
  ultimately show ?thesis
    using owned unfolding files_inv_def s' by simp
qed

text \<open>A new task, a dropped connection, and the consumers.\<close>

lemma files_inv_start:
  assumes "files_inv fs0 s" and "valid_start t"
  shows "files_inv fs0 (s\<lparr>ts_tasks := ts_tasks s @ [t]\<rparr>)"
proof -
  let ?s = "s\<lparr>ts_tasks := ts_tasks s @ [t]\<rparr>"
  have t: "held t = None" "own_ring t = None" "t \<noteq> Finished r" for r
    using assms(2) by (auto simp: valid_start_def upsert_task_def ping_task_def dispatch_task_def split: option.splits)
  have nth: "(ts_tasks s @ [t]) ! n = (if n < length (ts_tasks s) then ts_tasks s ! n else t)" if "n < Suc (length (ts_tasks s))" for n
    using that by (auto simp: nth_append less_Suc_eq)
  have "owner ?s = owner s"
    using t(2) by (auto simp: owner_def fun_eq_iff nth less_Suc_eq split: sum.splits)
  then show ?thesis
    using assms(1) t(1,3) unfolding files_inv_def by (simp add: nth)
qed

lemma files_inv_manager:
  assumes "files_inv fs0 s" and "heap_rings m = heap_rings (ts_manager s)" and "load_full m = load_full (ts_manager s)"
    and "mg_files m = mg_files (ts_manager s)"
  shows "files_inv fs0 (s\<lparr>ts_manager := m\<rparr>)"
proof -
  have "owner (s\<lparr>ts_manager := m\<rparr>) = owner s"
    using assms(2) by (auto simp: owner_def fun_eq_iff split: sum.splits)
  then show ?thesis
    using assms by (simp add: files_inv_def flip: dom_heap_rings)
qed

lemma files_inv_reclaim:
  assumes "files_inv fs0 s" and "mg_heap (ts_manager s) p = Some e" and "p \<notin> ts_reclaimed s"
    and "\<forall>idx. load_full (ts_manager s) idx \<noteq> Some p" and "\<forall>t \<in> set (ts_tasks s). held t \<noteq> Some p"
  shows "files_inv fs0 (s\<lparr>ts_manager := (ts_manager s)\<lparr>mg_files := ring_drop (sk_ring (mc_sink e)) (mg_files (ts_manager s))\<rparr>,
      ts_reclaimed := insert p (ts_reclaimed s)\<rparr>)"
    (is "files_inv fs0 ?s")
proof -
  let ?path = "rp_path (sk_ring (mc_sink e))" and ?fs = "mg_files (ts_manager s)"
  have o: "owner s (Inl p) = Some (?path, rp_owns_file (sk_ring (mc_sink e)))"
    using assms(2,3) by (simp add: owner_def heap_rings_def ring_id_def)
  have ok: "owned_ok fs0 (owner s) ?fs"
    using assms(1) by (simp add: files_inv_def)
  have own: "rp_owns_file (sk_ring (mc_sink e))"
    by (rule owned_okD(1) [OF ok o])
  have s: "owner ?s = (owner s)(Inl p := None)"
    by (auto simp: owner_def fun_eq_iff split: sum.splits)
  have "owned_ok fs0 (owner ?s) (?fs - {?path})" "tidy fs0 (owner s) ?fs \<longrightarrow> tidy fs0 (owner ?s) (?fs - {?path})"
    unfolding s using owned_drop [OF ok] tidy_drop o own by metis+
  moreover have "insert p (ts_reclaimed s) \<subseteq> dom (mg_heap (ts_manager s))"
    using assms(1,2) by (auto simp: files_inv_def)
  moreover have "held (ts_tasks s ! j) \<noteq> Some p" if "j < length (ts_tasks s)" for j
    using assms(5) that by (simp add: all_set_conv_all_nth)
  ultimately show ?thesis
    using assms(1,4) own unfolding files_inv_def by (simp add: ring_drop_def) blast
qed

lemma files_inv_step:
  assumes "sender_env_ok env" and "tasks_inv env s" and "files_inv fs0 s" and "tasks_step env s s'"
  shows "files_inv fs0 s'"
  using assms(4)
proof cases
  case (run_task i)
  then show ?thesis
    using files_inv_move [OF assms(1-3)] by blast
next
  case (start_task t)
  then show ?thesis
    using files_inv_start [OF assms(3)] by simp
next
  case (reclaim p e)
  then show ?thesis
    using files_inv_reclaim [OF assms(3) reclaim(2-5)] by simp
next
  case (consumer_read p e c r c' region)
  then show ?thesis
    using files_inv_manager [OF assms(3)] heap_rings_set [OF consumer_read(2)] by (simp add: fun_eq_iff set_connection_def)
next
  case (consumer_drain p e r k)
  then show ?thesis
    using files_inv_manager [OF assms(3)] heap_rings_set [OF consumer_drain(2)] by (simp add: fun_eq_iff set_connection_def)
qed

lemma files_inv_reachable:
  assumes "sender_env_ok env" and "(tasks_step env)\<^sup>*\<^sup>* (tasks_new fs0) s"
  shows "files_inv fs0 s"
  using assms(2)
proof (induction rule: rtranclp_induct)
  case base
  show ?case
    by (auto simp: files_inv_def owned_ok_def tidy_def owner_def heap_rings_def tasks_new_def manager_new_def load_full_def
        ran_def split: sum.splits if_splits)
next
  case (step s s')
  then show ?case
    using files_inv_step [OF assms(1) tasks_inv_reachable [OF assms(1)]] by blast
qed

text \<open>What the invariant says about the slots, the answers and the files that are left.\<close>

lemma slot_owner:
  assumes "files_inv fs0 s" and "load_full (ts_manager s) idx = Some p" and "mg_heap (ts_manager s) p = Some e"
  shows "\<exists>b. owner s (Inl p) = Some (rp_path (sk_ring (mc_sink e)), b)"
  using assms by (auto simp: files_inv_def owner_def heap_rings_def ring_id_def)

lemma slot_file_unique:
  assumes "mgr_inv env (ts_manager s)" and "files_inv fs0 s"
    and "load_full (ts_manager s) idx = Some p" and "mg_heap (ts_manager s) p = Some e"
    and "load_full (ts_manager s) idx' = Some p'" and "mg_heap (ts_manager s) p' = Some e'"
    and "rp_path (sk_ring (mc_sink e')) = rp_path (sk_ring (mc_sink e))"
  shows "idx' = idx"
proof -
  obtain b where b: "owner s (Inl p) = Some (rp_path (sk_ring (mc_sink e)), b)"
    using slot_owner [OF assms(2-4)] by blast
  obtain b' where b': "owner s (Inl p') = Some (rp_path (sk_ring (mc_sink e)), b')"
    using slot_owner [OF assms(2,5,6)] assms(7) by auto
  have "owned_ok fs0 (owner s) (mg_files (ts_manager s))"
    using assms(2) by (simp add: files_inv_def)
  from owned_okD(4) [OF this b b'] have "p = p'"
    by simp
  then show ?thesis
    using mgr_inv_conjuncts(2) [OF assms(1,3)] mgr_inv_conjuncts(2) [OF assms(1,5)] by auto
qed

lemma told_path_exists:
  assumes "files_inv fs0 s" and "Finished (Provided (Ok (Created token path cap p))) \<in> set (ts_tasks s)"
    and "load_full (ts_manager s) idx = Some p"
  shows "path \<in> mg_files (ts_manager s)"
proof -
  obtain b where "heap_rings (ts_manager s) p = Some (path, b)"
  proof -
    obtain i where "i < length (ts_tasks s)" "ts_tasks s ! i = Finished (Provided (Ok (Created token path cap p)))"
      using assms(2) by (metis in_set_conv_nth)
    then show thesis
      using assms(1) that unfolding files_inv_def by blast
  qed
  moreover have "p \<notin> ts_reclaimed s"
    using assms(1,3) by (simp add: files_inv_def)
  ultimately have "owner s (Inl p) = Some (path, b)"
    by (simp add: owner_def)
  moreover have "owned_ok fs0 (owner s) (mg_files (ts_manager s))"
    using assms(1) by (simp add: files_inv_def)
  ultimately show ?thesis
    using owned_okD(2) by metis
qed

lemma file_left:
  assumes "files_inv fs0 s" and "list_all finished (ts_tasks s)" and "Finished (Provided Panic) \<notin> set (ts_tasks s)"
    and "\<forall>p \<in> dom (mg_heap (ts_manager s)). (\<exists>idx. load_full (ts_manager s) idx = Some p) \<or> p \<in> ts_reclaimed s"
    and "path \<in> mg_files (ts_manager s)" and "path \<notin> fs0"
  shows "\<exists>idx p e. path = rp_path (sk_ring (mc_sink e)) \<and> load_full (ts_manager s) idx = Some p \<and> mg_heap (ts_manager s) p = Some e"
proof -
  have "own_ring t = None" if "finished t" for t :: "('a, 'b, 'c) task"
    using that by (cases t) simp_all
  then have "task_ring (ts_tasks s ! i) = None" if "i < length (ts_tasks s)" for i
    using assms(2) that by (simp add: list_all_length)
  moreover obtain x b where "owner s x = Some (path, b)"
    using tidyE [OF _ assms(5,6)] assms(1,3) unfolding files_inv_def by blast
  ultimately obtain p e where "p \<notin> ts_reclaimed s" "mg_heap (ts_manager s) p = Some e" "rp_path (sk_ring (mc_sink e)) = path"
    by (auto simp: owner_def heap_rings_def ring_id_def split: sum.splits if_splits)
  with assms(4) show ?thesis
    by blast
qed

text \<open>
  C5: the ring files are kept right under every interleaving. The file of a connection that is in a slot
  exists, it is not one that was there before, and no other slot's connection has the same one; the path a
  subscriber was told exists as long as its connection is in its slot; files that were there before are
  never removed; and when all tasks have returned, none panicked and the dropped connections are gone, no
  other file is left behind.
\<close>

theorem ring_files:
  assumes "sender_env_ok env" and "(tasks_step env)\<^sup>*\<^sup>* (tasks_new fs0) s"
  defines "m \<equiv> ts_manager s"
  shows "(\<forall>idx p e. load_full m idx = Some p \<and> mg_heap m p = Some e \<longrightarrow>
        rp_path (sk_ring (mc_sink e)) \<in> mg_files m - fs0 \<and>
        (\<forall>idx' p' e'. load_full m idx' = Some p' \<and> mg_heap m p' = Some e' \<and>
           rp_path (sk_ring (mc_sink e')) = rp_path (sk_ring (mc_sink e)) \<longrightarrow> idx' = idx)) \<and>
     (\<forall>token path cap p idx. Finished (Provided (Ok (Created token path cap p))) \<in> set (ts_tasks s) \<and>
        load_full m idx = Some p \<longrightarrow> path \<in> mg_files m) \<and>
     fs0 \<subseteq> mg_files m \<and>
     (list_all finished (ts_tasks s) \<and> Finished (Provided Panic) \<notin> set (ts_tasks s) \<and>
      (\<forall>p \<in> dom (mg_heap m). (\<exists>idx. load_full m idx = Some p) \<or> p \<in> ts_reclaimed s) \<longrightarrow>
      mg_files m = fs0 \<union> {rp_path (sk_ring (mc_sink e)) | idx p e. load_full m idx = Some p \<and> mg_heap m p = Some e})"
proof -
  have inv: "mgr_inv env m"
    using tasks_inv_reachable [OF assms(1,2)] by (simp add: tasks_inv_def m_def)
  note fi = files_inv_reachable [OF assms(1,2)]
  have ok: "owned_ok fs0 (owner s) (mg_files m)"
    using fi by (simp add: files_inv_def m_def)
  have fs0: "fs0 \<subseteq> mg_files m"
    using ok by (simp add: owned_ok_def)
  have slot: "rp_path (sk_ring (mc_sink e)) \<in> mg_files m - fs0" if "load_full m idx = Some p" "mg_heap m p = Some e" for idx p e
    using slot_owner [OF fi, folded m_def, OF that] owned_okD(2,3) [OF ok] by blast
  show ?thesis
  proof (intro conjI allI impI)
    show "rp_path (sk_ring (mc_sink e)) \<in> mg_files m - fs0" if "load_full m idx = Some p \<and> mg_heap m p = Some e" for idx p e
      using slot that by blast
    show "idx' = idx"
      if "load_full m idx = Some p \<and> mg_heap m p = Some e"
        "load_full m idx' = Some p' \<and> mg_heap m p' = Some e' \<and> rp_path (sk_ring (mc_sink e')) = rp_path (sk_ring (mc_sink e))"
      for idx p e idx' p' e'
      using that by (elim conjE) (rule slot_file_unique [OF _ fi, folded m_def, OF inv])
    show "path \<in> mg_files m" if "Finished (Provided (Ok (Created token path cap p))) \<in> set (ts_tasks s) \<and> load_full m idx = Some p"
      for token path cap p idx
      using that by (elim conjE) (rule told_path_exists [OF fi, folded m_def])
    show "mg_files m = fs0 \<union> {rp_path (sk_ring (mc_sink e)) | idx p e. load_full m idx = Some p \<and> mg_heap m p = Some e}"
      if "list_all finished (ts_tasks s) \<and> Finished (Provided Panic) \<notin> set (ts_tasks s) \<and>
        (\<forall>p \<in> dom (mg_heap m). (\<exists>idx. load_full m idx = Some p) \<or> p \<in> ts_reclaimed s)"
      using that file_left [OF fi, folded m_def] slot fs0 by blast
  qed (rule fs0)
qed

theorem ring_files_witness: "{''/dev/shm/7-0-1'', ''/dev/shm/7-1-2''} \<subseteq> mg_files (ts_manager race)"
proof -
  let ?created = "\<lambda>token path p. Finished (Provided (Ok (Created token path 256 p)))"
  have told: "path \<in> mg_files (ts_manager race)"
    if "?created token path p \<in> set (ts_tasks race)" "load_full (ts_manager race) idx = Some p" for token path p idx
    using ring_files [OF sample_env_ok race_reachable] that by blast
  show ?thesis
    using told [of "slot_token_new 0 1" "''/dev/shm/7-0-1''" 0 0] told [of "slot_token_new 1 2" "''/dev/shm/7-1-2''" 1 1] race_state
    by simp
qed

end
