(* ===== verification/Tasks_Atomic.thy ===== *)
theory Tasks_Atomic
  imports Tasks_System
begin

text \<open>
  The two models of the manager agree: whatever a sequence of whole operations does
  (\<open>mgr_step\<close>, \<open>Sender_Steps\<close>), the tasks do when they run one after the other. So the
  operations of \<open>Connection_Manager\<close> and the programs of \<open>Manager_Tasks\<close> are renderings of one code.
\<close>

section \<open>One task at work\<close>

text \<open>A state where all tasks but the last have returned. Dropped connections are in no slot.\<close>

abbreviation alone ::
  "('q, 'k, 'b) task list \<Rightarrow> ('q, 'k, 'b) task \<Rightarrow> ('q, 'k, 'b) connection_manager \<Rightarrow> ptr set \<Rightarrow> ('q, 'k, 'b) tasks" where
  "alone ts t m R \<equiv> \<lparr>ts_manager = m, ts_tasks = ts @ [t], ts_reclaimed = R\<rparr>"

definition live :: "('q, 'k, 'b) connection_manager \<Rightarrow> ptr set \<Rightarrow> bool" where
  "live m R \<longleftrightarrow> (\<forall>idx p. load_full m idx = Some p \<longrightarrow> p \<notin> R) \<and> R \<subseteq> dom (mg_heap m)"

text \<open>
  The task can get from one point to another by its own accesses alone (\<open>accesses\<close>), or while nothing else
  happens but drops (\<open>runs\<close>).
\<close>

definition accesses ::
  "('q, 'k, 'b) sender_env \<Rightarrow> ('q, 'k, 'b) task \<times> ('q, 'k, 'b) connection_manager \<Rightarrow>
     ('q, 'k, 'b) task \<times> ('q, 'k, 'b) connection_manager \<Rightarrow> bool" where
  "accesses env = (\<lambda>(t, m) (t', m'). \<forall>ts R. (tasks_step env)\<^sup>*\<^sup>* (alone ts t m R) (alone ts t' m' R))"

definition runs ::
  "('q, 'k, 'b) sender_env \<Rightarrow> ('q, 'k, 'b) task \<times> ('q, 'k, 'b) connection_manager \<Rightarrow>
     ('q, 'k, 'b) task \<times> ('q, 'k, 'b) connection_manager \<Rightarrow> bool" where
  "runs env = (\<lambda>(t, m) (t', m'). \<forall>ts R. list_all finished ts \<longrightarrow> live m R \<longrightarrow>
     (\<exists>R'. live m' R' \<and> (tasks_step env)\<^sup>*\<^sup>* (alone ts t m R) (alone ts t' m' R')))"

lemma accesses_trans: "accesses env c d \<Longrightarrow> accesses env d f \<Longrightarrow> accesses env c f"
  unfolding accesses_def by (clarsimp split: prod.splits) (meson rtranclp_trans)

lemma runs_refl: "runs env c c"
  by (cases c) (auto simp: runs_def)

lemma runs_trans: "runs env c d \<Longrightarrow> runs env d f \<Longrightarrow> runs env c f"
  unfolding runs_def by (clarsimp split: prod.splits) (meson rtranclp_trans)

lemma access:
  fixes t :: "('q, 'k, 'b) task"
  assumes "task_step env now t m = (t', m')" and "\<not> finished t" and "taking_id t \<longrightarrow> mg_next_connection_id m \<noteq> - 1"
  shows "accesses env (t, m) (t', m')"
  unfolding accesses_def
proof (clarsimp)
  fix ts :: "('q, 'k, 'b) task list" and R
  have "tasks_step env (alone ts t m R) (alone ts t' m' R)"
  proof (rule run_task)
    show "task_move env (length ts) (alone ts t m R) (alone ts t' m' R)"
      using move [of "length ts" "alone ts t m R" env now t' m'] assms(1,2) by simp
  qed (use assms(3) in simp)
  then show "(tasks_step env)\<^sup>*\<^sup>* (alone ts t m R) (alone ts t' m' R)"
    by (rule r_into_rtranclp)
qed

lemma runs_accesses:
  assumes "accesses env (t, m) (t', m')"
    and "\<And>idx p. load_full m' idx = Some p \<Longrightarrow> load_full m idx = Some p \<or> mg_heap m p = None"
    and "dom (mg_heap m) \<subseteq> dom (mg_heap m')"
  shows "runs env (t, m) (t', m')"
proof -
  have "live m' R" if "live m R" for R
    using that assms(2,3) unfolding live_def by (meson domIff subset_eq)
  then show ?thesis
    using assms(1) unfolding runs_def accesses_def by auto
qed

lemma runs_read:
  assumes "task_step env now t m = (t', m)" and "\<not> finished t" and "\<not> taking_id t"
  shows "runs env (t, m) (t', m)"
  using assms by (intro runs_accesses access [of env now]) simp_all

lemma runs_write:
  assumes "task_step env now t m = (t', m')" and "\<not> finished t" and "taking_id t \<longrightarrow> mg_next_connection_id m \<noteq> - 1"
    and "\<And>idx. load_full m' idx = load_full m idx" and "dom (mg_heap m) \<subseteq> dom (mg_heap m')"
  shows "runs env (t, m) (t', m')"
  using assms by (intro runs_accesses access [of env now]) simp_all

text \<open>A connection that the accesses took out of its slot and that the task has let go is dropped.\<close>

lemma runs_drop:
  fixes t :: "('q, 'k, 'b) task"
  assumes "accesses env (t, m) (t', m')" and "load_full m idx = Some p" and "mg_heap m' p = Some e" and "held t' \<noteq> Some p"
    and "\<And>j. load_full m' j = (if j = idx then None else load_full m j)" and "\<And>j. load_full m j = Some p \<Longrightarrow> j = idx"
    and "dom (mg_heap m) \<subseteq> dom (mg_heap m')"
  shows "runs env (t, m) (t', m'\<lparr>mg_files := ring_drop (sk_ring (mc_sink e)) (mg_files m')\<rparr>)"
  unfolding runs_def
proof (clarsimp)
  let ?m = "m'\<lparr>mg_files := ring_drop (sk_ring (mc_sink e)) (mg_files m')\<rparr>"
  fix ts :: "('q, 'k, 'b) task list" and R
  assume ts: "list_all finished ts" and l: "live m R"
  have p: "p \<notin> R"
    using l assms(2) by (simp add: live_def)
  have slots: "load_full m' j \<noteq> Some p" for j
    using assms(5,6) [of j] by auto
  have held: "held u \<noteq> Some p" if "u \<in> set (ts @ [t'])" for u
  proof -
    have "held u = None" if "finished u" for u :: "('q, 'k, 'b) task"
      using that by (cases u) simp_all
    then show ?thesis
      using that ts assms(4) by (auto simp: list_all_iff)
  qed
  have "tasks_step env (alone ts t' m' R) (alone ts t' ?m (insert p R))"
    using reclaim [of "alone ts t' m' R" p e env] assms(3) p slots held by simp
  then have run: "(tasks_step env)\<^sup>*\<^sup>* (alone ts t m R) (alone ts t' ?m (insert p R))"
    using assms(1) unfolding accesses_def by (auto intro: rtranclp.rtrancl_into_rtrancl)
  have "R \<subseteq> dom (mg_heap m')"
    using l assms(7) unfolding live_def by blast
  moreover have "q \<notin> insert p R" if "load_full m' j = Some q" for j q
    using that slots [of j] assms(5) [of j] l by (auto simp: live_def split: if_splits)
  ultimately have "live ?m (insert p R)"
    using assms(3) unfolding live_def by auto
  with run show "\<exists>R'. live ?m R' \<and> (tasks_step env)\<^sup>*\<^sup>* (alone ts t m R) (alone ts t' ?m R')"
    by blast
qed


section \<open>The operations\<close>

text \<open>Closing and swapping out a connection that is in its slot.\<close>

lemma slots_ok_cleanup:
  assumes "slots_ok m" and "load_full m idx = Some p" and "mg_heap m p = Some e"
  shows "slots_ok (swap_out (set_connection m p (close_connection env e)) idx p e)"
  unfolding slots_ok_def
proof (intro allI impI)
  fix j q
  assume "load_full (swap_out (set_connection m p (close_connection env e)) idx p e) j = Some q"
  then have j: "load_full m j = Some q" "j \<noteq> idx"
    using assms(2) by (auto simp: load_swap_out split: if_splits)
  then have "q \<noteq> p"
    using slots_ok_inj [OF assms(1,2)] by blast
  with slots_okD [OF assms(1) j(1)]
  show "\<exists>d. mg_heap (swap_out (set_connection m p (close_connection env e)) idx p e) q = Some d \<and> mc_slot_index d = j"
    by auto
qed

lemma accesses_cleanup:
  assumes "load_full m idx = Some p" and "mg_heap m p = Some e"
  shows "accesses env (Close_Sink k idx p, m)
    (resume k p, (set_connection m p (close_connection env e))\<lparr>mg_connections := (mg_connections m)[idx := None]\<rparr>)"
proof -
  let ?m = "set_connection m p (close_connection env e)"
  have "accesses env (Close_Sink k idx p, m) (Swap_Out k idx p, ?m)"
    using assms by (intro access [of env 0]) (simp_all add: deref_def)
  moreover have "accesses env (Swap_Out k idx p, ?m)
      (resume k p, ?m\<lparr>mg_connections := (mg_connections m)[idx := None]\<rparr>)"
    using assms by (intro access [of env 0]) (simp_all add: compare_and_swap_def Let_def set_connection_def)
  ultimately show ?thesis
    by (rule accesses_trans)
qed

lemma swap_out_cleanup:
  assumes "load_full m idx = Some p"
  shows "swap_out (set_connection m p (close_connection env e)) idx p e =
    (let m' = (set_connection m p (close_connection env e))\<lparr>mg_connections := (mg_connections m)[idx := None]\<rparr>
     in m'\<lparr>mg_files := ring_drop (sk_ring (mc_sink (close_connection env e))) (mg_files m')\<rparr>)"
  using assms by (simp add: swap_out_same set_connection_def close_connection_def sink_close_def)

lemma runs_cleanup_to:
  assumes "slots_ok m" and "load_full m idx = Some p" and "mg_heap m p = Some e" and "held t \<noteq> Some p"
    and "accesses env (resume k p, (set_connection m p (close_connection env e))\<lparr>mg_connections := (mg_connections m)[idx := None]\<rparr>)
      (t, (set_connection m p (close_connection env e))\<lparr>mg_connections := (mg_connections m)[idx := None]\<rparr>)"
  shows "runs env (Close_Sink k idx p, m) (t, swap_out (set_connection m p (close_connection env e)) idx p e)"
proof -
  have inj: "j = idx" if "load_full m j = Some p" for j
    using slots_ok_inj [OF assms(1) that assms(2)] .
  show ?thesis
    unfolding swap_out_cleanup [OF assms(2)] Let_def
    by (rule runs_drop [OF accesses_trans [OF accesses_cleanup [OF assms(2,3)] assms(5)] assms(2) _ assms(4) _ inj])
      (use assms(2,3) in \<open>auto simp: load_full_def set_connection_def nth_list_update split: if_splits\<close>)
qed

lemma runs_cleanup:
  fixes env :: "('q, 'k, 'b) sender_env"
  assumes "slots_ok m" and "load_full m idx = Some p" and "mg_heap m p = Some e"
    and "held (resume k p :: ('q, 'k, 'b) task) \<noteq> Some p"
  shows "runs env (Close_Sink k idx p, m) (resume k p, swap_out (set_connection m p (close_connection env e)) idx p e)"
  using assms by (intro runs_cleanup_to) (simp_all add: accesses_def)

lemma runs_cleanup_scan:
  assumes "slots_ok m" and "load_full m idx = Some p" and "mg_heap m p = Some e"
  shows "runs env (Close_Sink (Then_Scan_Again inst idx) idx p, m)
    (Create_Ring inst idx, swap_out (set_connection m p (close_connection env e)) idx p e)"
  using assms
  by (intro runs_cleanup_to access [of env 0])
    (simp_all add: load_full_def set_connection_def)

text \<open>Looking up a token, pinging.\<close>

lemma held_not_found [simp]: "held (not_found purpose) \<noteq> Some p"
  by simp

lemma runs_lookup:
  assumes "slots_ok m" and "lookup_by_token env now m token = (r, m')"
  shows "runs env (Lookup purpose token, m) (case r of None \<Rightarrow> not_found purpose | Some p \<Rightarrow> Touch purpose p, m') \<and>
    (\<forall>p. r = Some p \<longrightarrow> m' = m \<and> (\<exists>e. mg_heap m p = Some e))"
proof -
  let ?idx = "unat (st_slot_index token)"
  consider (none) "?idx \<ge> MAX_CONNECTION_SLOTS \<or> load_full m ?idx = None"
    | (some) p e where "\<not> ?idx \<ge> MAX_CONNECTION_SLOTS" "load_full m ?idx = Some p" "mg_heap m p = Some e"
    using slots_okD [OF assms(1)] by (metis option.exhaust)
  then show ?thesis
  proof cases
    case none
    then have "r = None" "m' = m"
      using assms(2) by (auto simp: lookup_by_token_def Let_def split: if_splits)
    then show ?thesis
      using none by (auto intro!: runs_read [of env now] simp: Let_def)
  next
    case (some p e)
    show ?thesis
    proof (cases "mc_connection_id e = st_generation token")
      case False
      then have "r = None" "m' = m"
        using assms(2) some by (auto simp: lookup_by_token_def Let_def)
      then show ?thesis
        using some False by (auto intro!: runs_read [of env now] simp: Let_def deref_def)
    next
      case True
      have start: "runs env (Lookup purpose token, m) (Lookup_Stale purpose ?idx p, m)"
        using some True by (intro runs_read [of env now]) (simp_all add: Let_def deref_def)
      show ?thesis
      proof (cases "is_stale now e")
        case False
        then have "r = Some p" "m' = m"
          using assms(2) some True by (auto simp: lookup_by_token_def Let_def maybe_cleanup_stale_slot_def)
        moreover have "runs env (Lookup_Stale purpose ?idx p, m) (Touch purpose p, m)"
          using some False by (intro runs_read [of env now]) (simp_all add: deref_def)
        ultimately show ?thesis
          using runs_trans [OF start] some by auto
      next
        case stale: True
        then have "r = None" "m' = swap_out (set_connection m p (close_connection env e)) ?idx p e"
          using assms(2) some True by (auto simp: lookup_by_token_def Let_def maybe_cleanup_stale_slot_def)
        moreover have "runs env (Lookup_Stale purpose ?idx p, m) (Close_Sink (Then_Not_Found purpose) ?idx p, m)"
          using some stale by (intro runs_read [of env now]) (simp_all add: deref_def)
        moreover have "runs env (Close_Sink (Then_Not_Found purpose) ?idx p, m)
            (not_found purpose, swap_out (set_connection m p (close_connection env e)) ?idx p e)"
          using runs_cleanup [OF assms(1) some(2,3), of "Then_Not_Found purpose" env] by simp
        ultimately show ?thesis
          using runs_trans [OF start] runs_trans by fastforce
      qed
    qed
  qed
qed

lemma runs_touch:
  assumes "mg_heap m p = Some e"
  shows "runs env (Touch Pinging p, m) (Finished (Ping_Answer True), set_connection m p (e\<lparr>mc_last_seen_ms := now\<rparr>))"
    and "runs env (Touch (Subscribing request dir cap) p, m)
      (Load_Filter request p, set_connection m p (e\<lparr>mc_last_seen_ms := now\<rparr>))"
  using assms by (auto intro!: runs_write [of env now] simp: deref_def)

lemma runs_ping:
  assumes "slots_ok m" and "touch_ping env now1 now2 m ping = (b, m')"
  shows "runs env (ping_task ping, m) (Finished (Ping_Answer b), m')"
proof -
  obtain r m1 where l: "lookup_by_token env now1 m (pr_slot_token ping) = (r, m1)"
    by force
  note look = runs_lookup [OF assms(1) l, of Pinging]
  show ?thesis
  proof (cases r)
    case None
    with assms(2) l look show ?thesis
      by (auto simp: touch_ping_def ping_task_def)
  next
    case (Some p)
    then obtain e where "m1 = m" "mg_heap m p = Some e"
      using look by blast
    with assms(2) l Some look runs_touch(1) [of m p e env now2] show ?thesis
      by (auto simp: touch_ping_def ping_task_def touch_connection_def intro: runs_trans)
  qed
qed

text \<open>Subscribing.\<close>

abbreviation exhausted :: "('q, 'k, 'b) task" where
  "exhausted \<equiv> Finished (Provided (Err (ConfigError (''connection slots exhausted (max '' @ show_nat MAX_CONNECTION_SLOTS @ '')''))))"

lemma runs_scan:
  assumes "slots_ok m" and "find_free_from env clk [idx..<MAX_CONNECTION_SLOTS] m = (r, m')"
  shows "runs env (Scan inst idx, m) (case r of None \<Rightarrow> exhausted | Some i \<Rightarrow> Create_Ring inst i, m')"
  using assms
proof (induction "MAX_CONNECTION_SLOTS - idx" arbitrary: idx m)
  case 0
  then have "r = None" "m' = m"
    by simp_all
  with 0 show ?case
    by (auto intro!: runs_read [of env 0])
next
  case (Suc n)
  then have idx: "idx < MAX_CONNECTION_SLOTS" "[idx..<MAX_CONNECTION_SLOTS] = idx # [Suc idx..<MAX_CONNECTION_SLOTS]"
    by (simp_all add: upt_conv_Cons)
  show ?case
  proof (cases "load_full m idx")
    case None
    then have "r = Some idx" "m' = m"
      using Suc.prems(2) idx by auto
    with idx None show ?thesis
      by (auto intro!: runs_read [of env 0])
  next
    case (Some p)
    then obtain e where e: "mg_heap m p = Some e"
      using slots_okD [OF Suc.prems(1)] by blast
    have start: "runs env (Scan inst idx, m) (Scan_Stale inst idx p, m)"
      using idx Some by (intro runs_read [of env 0]) simp_all
    show ?thesis
    proof (cases "is_stale (clk idx) e")
      case True
      let ?m = "swap_out (set_connection m p (close_connection env e)) idx p e"
      have "r = Some idx" "m' = ?m"
        using Suc.prems(2) idx Some e True by (auto simp: maybe_cleanup_stale_slot_def load_swap_out)
      moreover have "runs env (Scan_Stale inst idx p, m) (Close_Sink (Then_Scan_Again inst idx) idx p, m)"
        using e True by (intro runs_read [of env "clk idx"]) (simp_all add: deref_def)
      ultimately show ?thesis
        using runs_trans [OF start] runs_trans runs_cleanup_scan [OF Suc.prems(1) Some e] by fastforce
    next
      case False
      have "find_free_from env clk [Suc idx..<MAX_CONNECTION_SLOTS] m = (r, m')"
        using Suc.prems(2) idx Some e False by (auto simp: maybe_cleanup_stale_slot_def)
      then have "runs env (Scan inst (Suc idx), m) (case r of None \<Rightarrow> exhausted | Some i \<Rightarrow> Create_Ring inst i, m')"
        using Suc.hyps Suc.prems(1) by simp
      moreover have "runs env (Scan_Stale inst idx p, m) (Scan inst (Suc idx), m)"
        using e False by (intro runs_read [of env "clk idx"]) (simp_all add: deref_def)
      ultimately show ?thesis
        using runs_trans [OF start] runs_trans by blast
    qed
  qed
qed

text \<open>From a free slot to the installed connection, or the error.\<close>

lemma runs_create:
  assumes "load_full m idx = None" and "mg_heap m (mg_next_ptr m) = None"
    and "path = path_join (in_shm_dir inst) (ring_file_name (se_pid env) idx (in_connection_id inst))"
    and "ring_create (se_shaq env) (se_fs env) (mg_files m) path (in_ring_capacity inst) = (c, fs)"
    and "shaq_ok (se_shaq env)"
  shows "\<lbrakk>c = Ok (ring, region); se_eventfd env = Inr k; idx < length (mg_connections m)\<rbrakk> \<Longrightarrow> runs env (Create_Ring inst idx, m)
      (Finished (Provided (Ok (Created (slot_token_new (of_nat idx) (in_connection_id inst)) path
         (of_nat (in_ring_capacity inst)) (mg_next_ptr m)))),
       install (m\<lparr>mg_files := fs\<rparr>) idx \<lparr>mc_slot_index = idx, mc_connection_id = in_connection_id inst,
         mc_filter = in_filter inst, mc_sink = sink_shm ring region k, mc_last_seen_ms = now\<rparr>)"
    and "\<lbrakk>c = Ok (ring, region); se_eventfd env = Inl e\<rbrakk> \<Longrightarrow> runs env (Create_Ring inst idx, m)
      (Finished (Provided (Err (ShmError (''eventfd: '' @ e)))), m\<lparr>mg_files := ring_drop ring fs\<rparr>)"
    and "c = Err err \<Longrightarrow> runs env (Create_Ring inst idx, m) (Finished (Provided (Err err)), m\<lparr>mg_files := fs\<rparr>)"
    and "c = Panic \<Longrightarrow> runs env (Create_Ring inst idx, m) (Finished (Provided Panic), m\<lparr>mg_files := fs\<rparr>)"
proof -
  have opened: "runs env (Create_Ring inst idx, m) (Create_Eventfd inst idx ring region, m\<lparr>mg_files := fs\<rparr>)" if "c = Ok (ring, region)"
    using assms(3,4) that by (intro runs_write [of env 0]) (simp_all add: Let_def)
  show "runs env (Create_Ring inst idx, m) (Finished (Provided (Err err)), m\<lparr>mg_files := fs\<rparr>)" if "c = Err err"
    using assms(3,4) that by (intro runs_write [of env 0]) (simp_all add: Let_def)
  show "runs env (Create_Ring inst idx, m) (Finished (Provided Panic), m\<lparr>mg_files := fs\<rparr>)" if "c = Panic"
    using assms(3,4) that by (intro runs_write [of env 0]) (simp_all add: Let_def)
  show "runs env (Create_Ring inst idx, m) (Finished (Provided (Err (ShmError (''eventfd: '' @ e)))), m\<lparr>mg_files := ring_drop ring fs\<rparr>)"
    if "c = Ok (ring, region)" "se_eventfd env = Inl e"
    using that(2) by (intro runs_trans [OF opened [OF that(1)]] runs_write [of env 0]) simp_all
  show "runs env (Create_Ring inst idx, m)
      (Finished (Provided (Ok (Created (slot_token_new (of_nat idx) (in_connection_id inst)) path
         (of_nat (in_ring_capacity inst)) (mg_next_ptr m)))),
       install (m\<lparr>mg_files := fs\<rparr>) idx \<lparr>mc_slot_index = idx, mc_connection_id = in_connection_id inst,
         mc_filter = in_filter inst, mc_sink = sink_shm ring region k, mc_last_seen_ms = now\<rparr>)"
    if "c = Ok (ring, region)" "se_eventfd env = Inr k" "idx < length (mg_connections m)"
  proof -
    have "runs env (Create_Eventfd inst idx ring region, m\<lparr>mg_files := fs\<rparr>) (Install inst idx (sink_shm ring region k), m\<lparr>mg_files := fs\<rparr>)"
      using that(2) by (intro runs_read [of env 0]) simp_all
    moreover have "rp_path ring = path"
      using ring_create_Ok(7) [OF assms(5)] assms(4) that(1) by blast
    ultimately show ?thesis
      using assms(1,2) that
      by (intro runs_trans [OF opened [OF that(1)]] runs_trans [OF \<open>runs env (Create_Eventfd inst idx ring region, m\<lparr>mg_files := fs\<rparr>) _\<close>]
          runs_accesses access [of env now])
        (auto simp: sink_shm_def install_def load_full_def nth_list_update split: if_splits)
  qed
qed

lemma runs_install:
  assumes "sender_env_ok env" and "mgr_inv env m"
    and "install_loop env clk now (in_filter inst) (in_connection_id inst) (in_shm_dir inst) (in_ring_capacity inst) m = Some (r, m')"
  shows "runs env (Scan inst 0, m) (Finished (Provided r), m')"
proof -
  obtain free m1 where f: "find_free_slot env clk m = (free, m1)"
    by force
  have sq: "shaq_ok (se_shaq env)"
    using assms(1) by (simp add: sender_env_ok_def)
  have scan: "runs env (Scan inst 0, m) (case free of None \<Rightarrow> exhausted | Some i \<Rightarrow> Create_Ring inst i, m1)"
    using runs_scan [OF mgr_inv_slots_ok [OF assms(2)]] f by (simp add: find_free_slot_def)
  have inv1: "mgr_inv env m1"
    using quiet_inv [OF quiet_find_free_from [OF assms(1,2)]] f by (simp add: find_free_slot_def)
  show ?thesis
  proof (cases free)
    case None
    with assms(3) f scan show ?thesis
      by (subst (asm) install_loop.simps) auto
  next
    case (Some i)
    have free: "load_full m1 i = None" "i < length (mg_connections m1)"
      using find_free_from_slot [of env clk "[0..<MAX_CONNECTION_SLOTS]" m i m1] f Some mgr_inv_conjuncts(1) [OF inv1]
      by (simp_all add: find_free_slot_def)
    define path where "path = path_join (in_shm_dir inst) (ring_file_name (se_pid env) i (in_connection_id inst))"
    obtain c fs where c: "ring_create (se_shaq env) (se_fs env) (mg_files m1) path (in_ring_capacity inst) = (c, fs)"
      by force
    note create = runs_create [OF free(1) inv_fresh_ptr [OF inv1] path_def c sq]
    have "runs env (Create_Ring inst i, m1) (Finished (Provided r), m')"
    proof (cases c)
      case (Ok x)
      then obtain ring region where x: "c = Ok (ring, region)"
        by (cases x) simp
      show ?thesis
      proof (cases "se_eventfd env")
        case (Inl e)
        with assms(3) f Some c x create(2) [OF x Inl] show ?thesis
          by (subst (asm) install_loop.simps) (simp add: Let_def path_def)
      next
        case (Inr k)
        have "ring_create (se_shaq env) (se_fs env) (mg_files m1) path (in_ring_capacity inst) = (Ok (ring, region), fs)"
          using c x by simp
        from install_loop_created [OF f [unfolded Some] free(1) path_def this Inr] create(1) [OF x Inr free(2), of now]
        show ?thesis
          using assms(3) by simp
      qed
    next
      case (Err e)
      with assms(3) f Some c create(3) [OF Err] show ?thesis
        by (subst (asm) install_loop.simps) (simp add: Let_def path_def)
    next
      case Panic
      with assms(3) f Some c create(4) [OF Panic] show ?thesis
        by (subst (asm) install_loop.simps) (simp add: Let_def path_def)
    qed
    then show ?thesis
      using scan Some runs_trans by fastforce
  qed
qed

lemma runs_refresh:
  assumes "mg_heap m p = Some e"
  shows "runs env (Touch (Subscribing request dir cap) p, m)
    (Finished (Provided (Ok (Existing (connection_token e)))),
     set_connection m p (apply_request (se_bloom env) (e\<lparr>mc_last_seen_ms := now\<rparr>) request))"
proof -
  let ?m = "set_connection m p (e\<lparr>mc_last_seen_ms := now\<rparr>)"
  let ?flt = "filter_with_request (se_bloom env) (mc_filter e) request"
  have "runs env (Load_Filter request p, ?m) (Store_Filter ?flt p, ?m)"
    by (intro runs_read [of env 0]) (simp_all add: deref_def)
  moreover have "runs env (Store_Filter ?flt p, ?m)
      (Finished (Provided (Ok (Existing (connection_token e)))),
       set_connection m p (apply_request (se_bloom env) (e\<lparr>mc_last_seen_ms := now\<rparr>) request))"
    by (intro runs_write [of env 0])
      (auto simp: deref_def set_connection_def connection_token_def apply_request_def)
  ultimately show ?thesis
    using runs_trans [OF runs_touch(2) [OF assms]] runs_trans by blast
qed

lemma runs_upsert:
  assumes "sender_env_ok env" and "mgr_inv env m" and "mg_next_connection_id m \<noteq> - 1"
    and "upsert_shm env now1 clk now2 request dir cap m = Some (r, m')"
  shows "runs env (upsert_task request dir cap, m) (Finished (Provided r), m')"
proof -
  have new: "runs env (Take_Id request dir cap, m1) (Finished (Provided r), m')"
    if q: "quiet env m m1" and inst: "install_loop env clk now2 (filter_from_request (se_bloom env) request)
      (mg_next_connection_id m1) dir cap (take_id m1) = Some (r, m')" for m1
  proof -
    have id: "mg_next_connection_id m1 \<noteq> - 1"
      using q assms(3) by (simp add: quiet_def same_identity_def)
    let ?inst = "\<lparr>in_filter = filter_from_request (se_bloom env) request, in_connection_id = mg_next_connection_id m1,
      in_shm_dir = dir, in_ring_capacity = cap\<rparr>"
    have "runs env (Take_Id request dir cap, m1) (Scan ?inst 0, take_id m1)"
      using id by (intro runs_write [of env 0]) simp_all
    moreover have "runs env (Scan ?inst 0, take_id m1) (Finished (Provided r), m')"
      using runs_install [OF assms(1) inv_take_id [OF quiet_inv [OF q] id], of clk now2 ?inst] inst by simp
    ultimately show ?thesis
      by (rule runs_trans)
  qed
  show ?thesis
  proof (cases "sr_slot_token request")
    case None
    then show ?thesis
      using new [OF quiet_refl [OF assms(2)]] assms(4) by (simp add: upsert_task_def upsert_shm_def Let_def)
  next
    case (Some token)
    obtain l m1 where l: "lookup_by_token env now1 m token = (l, m1)"
      by force
    note look = runs_lookup [OF mgr_inv_slots_ok [OF assms(2)] l, of "Subscribing request dir cap"]
    show ?thesis
    proof (cases l)
      case None
      then show ?thesis
        using new [OF quiet_lookup [OF assms(1,2) l]] assms(4) l Some look
        by (auto simp: upsert_task_def upsert_shm_def Let_def intro: runs_trans)
    next
      case (Some p)
      then obtain e where e: "m1 = m" "mg_heap m p = Some e"
        using look by blast
      then show ?thesis
        using runs_refresh [OF e(2), of env request dir cap now2] assms(4) l Some \<open>sr_slot_token request = Some token\<close> look
        by (auto simp: upsert_task_def upsert_shm_def Let_def connection_token_def apply_request_def intro: runs_trans)
    qed
  qed
qed

text \<open>Dispatching.\<close>

lemma slots_ok_set:
  assumes "slots_ok m" and "mg_heap m p = Some e" and "mc_slot_index e' = mc_slot_index e"
  shows "slots_ok (set_connection m p e')"
  unfolding slots_ok_def
proof (intro allI impI)
  fix i q assume "load_full (set_connection m p e') i = Some q"
  then have "load_full m i = Some q"
    by simp
  then obtain d where "mg_heap m q = Some d" "mc_slot_index d = i"
    using slots_okD [OF assms(1)] by blast
  then show "\<exists>d. mg_heap (set_connection m p e') q = Some d \<and> mc_slot_index d = i"
    using assms(2,3) by (auto simp: set_connection_def)
qed

lemma runs_push:
  assumes "slots_ok m" and "load_full m idx = Some p" and "mg_heap m p = Some e"
    and "push_to_entry env now_us p frame (m, metrics) = (m', metrics')"
  shows "runs env (Push_Frame job frame idx p, m) (Visit job (Suc idx), m')" and "slots_ok m'"
proof -
  have slot: "mc_slot_index e = idx"
    using slots_okD [OF assms(1,2)] assms(3) by fastforce
  obtain r sink where push: "sink_try_push (se_shaq env) (se_efd env) (mc_sink e) frame = (r, sink)"
    by force
  let ?e = "e\<lparr>mc_sink := sink\<rparr>"
  let ?m = "set_connection m p ?e"
  have ok: "slots_ok ?m"
    by (rule slots_ok_set [OF assms(1,3)]) simp
  have "runs env (Push_Frame job frame idx p, m) (Visit job (Suc idx), m') \<and> slots_ok m'"
  proof (cases r)
    case (Inr _)
    then have "m' = ?m"
      using assms(3,4) push by (simp add: push_to_entry_def)
    moreover have "runs env (Push_Frame job frame idx p, m) (Visit job (Suc idx), ?m)"
      using assms(3) push Inr by (intro runs_write [of env 0]) (auto simp: deref_def)
    ultimately show ?thesis
      using ok by simp
  next
    case (Inl _)
    have l: "load_full ?m idx = Some p" "mg_heap ?m p = Some ?e"
      using assms(2) by simp_all
    have "m' = swap_out (set_connection ?m p (close_connection env ?e)) idx p ?e"
      using assms(2-4) push Inl slot by (simp add: push_to_entry_def cleanup_if_same_def)
    moreover have "runs env (Push_Frame job frame idx p, m) (Evict job idx p, ?m)"
      using assms(3) push Inl by (intro runs_write [of env 0]) (auto simp: deref_def)
    moreover have "runs env (Evict job idx p, ?m) (Close_Sink (Then_Visit job (Suc idx)) idx p, ?m)"
      using assms(2) slot by (intro runs_read [of env 0]) (simp_all add: deref_def)
    moreover have "runs env (Close_Sink (Then_Visit job (Suc idx)) idx p, ?m)
        (Visit job (Suc idx), swap_out (set_connection ?m p (close_connection env ?e)) idx p ?e)"
      using runs_cleanup [OF ok l, of "Then_Visit job (Suc idx)" env] by simp
    ultimately show ?thesis
      using runs_trans slots_ok_cleanup [OF ok l] by metis
  qed
  then show "runs env (Push_Frame job frame idx p, m) (Visit job (Suc idx), m')" and "slots_ok m'"
    by blast+
qed

lemma runs_dispatch_slots:
  assumes "slots_ok m" and "dispatch_slots env clk clk_us matches encode [idx..<MAX_CONNECTION_SLOTS] shared (m, metrics) = (m', metrics')"
  shows "runs env (Visit \<lparr>jb_matches = matches, jb_encode = encode, jb_shared_frame = shared\<rparr> idx, m) (Finished Dispatched, m')"
  using assms
proof (induction "MAX_CONNECTION_SLOTS - idx" arbitrary: idx m shared metrics)
  case 0
  then have "m' = m"
    by simp
  with 0 show ?case
    by (auto intro!: runs_read [of env 0])
next
  case (Suc n)
  let ?job = "\<lambda>shared. \<lparr>jb_matches = matches, jb_encode = encode, jb_shared_frame = shared\<rparr>"
  have idx: "idx < MAX_CONNECTION_SLOTS" "[idx..<MAX_CONNECTION_SLOTS] = idx # [Suc idx..<MAX_CONNECTION_SLOTS]"
    using Suc.hyps(2) by (simp_all add: upt_conv_Cons)
  have rest: "runs env (Visit (?job shared) (Suc idx), m) (Finished Dispatched, m')"
    if "slots_ok m" "dispatch_slots env clk clk_us matches encode [Suc idx..<MAX_CONNECTION_SLOTS] shared (m, metrics) = (m', metrics')"
    for m shared metrics
    using Suc.hyps that by simp
  show ?case
  proof (cases "load_full m idx")
    case None
    then have "runs env (Visit (?job shared) idx, m) (Visit (?job shared) (Suc idx), m)"
      using idx by (intro runs_read [of env 0]) simp_all
    with None Suc.prems idx show ?thesis
      by (intro runs_trans [OF _ rest [of m shared metrics]]) simp_all
  next
    case (Some p)
    then obtain e where e: "mg_heap m p = Some e"
      using slots_okD [OF Suc.prems(1)] by blast
    have start: "runs env (Visit (?job shared) idx, m) (Visit_Stale (?job shared) idx p, m)"
      using idx Some by (intro runs_read [of env 0]) simp_all
    show ?thesis
    proof (cases "is_stale (clk idx) e")
      case True
      let ?m = "swap_out (set_connection m p (close_connection env e)) idx p e"
      have "runs env (Visit_Stale (?job shared) idx p, m) (Close_Sink (Then_Visit (?job shared) (Suc idx)) idx p, m)"
        using e True by (intro runs_read [of env "clk idx"]) (simp_all add: deref_def)
      moreover have "runs env (Close_Sink (Then_Visit (?job shared) (Suc idx)) idx p, m) (Visit (?job shared) (Suc idx), ?m)"
        using runs_cleanup [OF Suc.prems(1) Some e, of "Then_Visit (?job shared) (Suc idx)" env] by simp
      moreover have "runs env (Visit (?job shared) (Suc idx), ?m) (Finished Dispatched, m')"
        using Suc.prems(2) idx Some e True
        by (intro rest [where metrics = metrics] slots_ok_cleanup [OF Suc.prems(1) Some e]) (simp add: maybe_cleanup_stale_slot_def)
      ultimately show ?thesis
        using runs_trans start by blast
    next
      case fresh: False
      have stale: "runs env (Visit_Stale (?job shared) idx p, m) (Match (?job shared) idx p, m)"
        using e fresh by (intro runs_read [of env "clk idx"]) (simp_all add: deref_def)
      note start = runs_trans [OF start stale]
      show ?thesis
      proof (cases "matches (mc_filter e)")
        case False
        have "runs env (Match (?job shared) idx p, m) (Visit (?job shared) (Suc idx), m)"
          using e False by (intro runs_read [of env 0]) (simp_all add: deref_def)
        moreover have "runs env (Visit (?job shared) (Suc idx), m) (Finished Dispatched, m')"
          using Suc.prems idx Some e fresh False by (intro rest [where metrics = metrics]) (simp_all add: maybe_cleanup_stale_slot_def)
        ultimately show ?thesis
          using runs_trans start by blast
      next
        case True
        define first where "first = (case shared of Some frame \<Rightarrow> Ok frame | None \<Rightarrow> encode)"
        have match: "task_step env 0 (Match (?job shared) idx p) m =
            (case first of Ok frame \<Rightarrow> (Push_Frame (?job (Some frame)) frame idx p, m) | _ \<Rightarrow> (Finished Dispatched, m))"
          using e True by (auto simp: deref_def first_def split: result.split option.split)
        have pass: "(case first of
            Ok frame \<Rightarrow> dispatch_slots env clk clk_us matches encode [Suc idx..<MAX_CONNECTION_SLOTS] (Some frame)
              (push_to_entry env (clk_us idx) p frame (m, metrics))
          | _ \<Rightarrow> (m, metrics)) = (m', metrics')"
          using Suc.prems idx Some e fresh True by (auto simp: maybe_cleanup_stale_slot_def first_def split: result.splits option.splits)
        show ?thesis
        proof (cases first)
          case (Ok frame)
          obtain m2 metrics2 where p: "push_to_entry env (clk_us idx) p frame (m, metrics) = (m2, metrics2)"
            by force
          have "runs env (Match (?job shared) idx p, m) (Push_Frame (?job (Some frame)) frame idx p, m)"
            using match Ok by (intro runs_read [of env 0]) simp_all
          moreover have "runs env (Push_Frame (?job (Some frame)) frame idx p, m) (Visit (?job (Some frame)) (Suc idx), m2)"
            by (rule runs_push(1) [OF Suc.prems(1) Some e p])
          moreover have "runs env (Visit (?job (Some frame)) (Suc idx), m2) (Finished Dispatched, m')"
            using pass Ok p by (intro rest [where metrics = metrics2] runs_push(2) [OF Suc.prems(1) Some e p]) simp
          ultimately show ?thesis
            using runs_trans start by blast
        next
          case (Err x)
          then have "m' = m" "runs env (Match (?job shared) idx p, m) (Finished Dispatched, m)"
            using match pass by (auto intro: runs_read [of env 0])
          then show ?thesis
            using runs_trans start by blast
        next
          case Panic
          then have "m' = m" "runs env (Match (?job shared) idx p, m) (Finished Dispatched, m)"
            using match pass by (auto intro: runs_read [of env 0])
          then show ?thesis
            using runs_trans start by blast
        qed
      qed
    qed
  qed
qed

lemma runs_dispatch:
  assumes "slots_ok m" and "dispatch_with env clk clk_us start finish matches encode (m, metrics) = (m', metrics')"
  shows "runs env (dispatch_task matches encode, m) (Finished Dispatched, m')"
  using assms(2) runs_dispatch_slots [OF assms(1), of env clk clk_us matches encode 0 None metrics m']
  by (auto simp: dispatch_with_def dispatch_task_def split: prod.splits)


section \<open>The atomic model is the sequential part of the concurrent one\<close>

text \<open>A new task run to its end, and a step of a consumer, from a state where all tasks have returned.\<close>

definition returned :: "('q, 'k, 'b) connection_manager \<Rightarrow> ('q, 'k, 'b) tasks \<Rightarrow> bool" where
  "returned m s \<longleftrightarrow> ts_manager s = m \<and> list_all finished (ts_tasks s) \<and> live m (ts_reclaimed s)"

lemma returned_task:
  assumes "returned m s" and "valid_start t" and "runs env (t, m) (Finished r, m')"
  shows "\<exists>s'. (tasks_step env)\<^sup>*\<^sup>* s s' \<and> returned m' s'"
proof -
  let ?ts = "ts_tasks s" and ?R = "ts_reclaimed s"
  have s: "s\<lparr>ts_tasks := ?ts @ [t]\<rparr> = alone ?ts t m ?R" "list_all finished ?ts" "live m ?R"
    using assms(1) by (auto simp: returned_def)
  have "tasks_step env s (alone ?ts t m ?R)"
    using start_task [OF assms(2), of env s] unfolding s(1) .
  moreover obtain R where "live m' R" "(tasks_step env)\<^sup>*\<^sup>* (alone ?ts t m ?R) (alone ?ts (Finished r) m' R)"
    using assms(3) s(2,3) unfolding runs_def by fastforce
  ultimately have "(tasks_step env)\<^sup>*\<^sup>* s (alone ?ts (Finished r) m' R)" "returned m' (alone ?ts (Finished r) m' R)"
    using s(2) by (auto simp: returned_def intro: converse_rtranclp_into_rtranclp)
  then show ?thesis
    by blast
qed

lemma returned_write:
  assumes "returned m s" and "tasks_step env s (s\<lparr>ts_manager := set_connection m p e\<rparr>)" and "mg_heap m p \<noteq> None"
  shows "\<exists>s'. (tasks_step env)\<^sup>*\<^sup>* s s' \<and> returned (set_connection m p e) s'"
  using assms by (intro exI [of _ "s\<lparr>ts_manager := set_connection m p e\<rparr>"]) (auto simp: returned_def live_def)

lemma returned_step:
  assumes "sender_env_ok env" and "mgr_inv env m" and "mgr_step env m m'" and "returned m s"
  shows "\<exists>s'. (tasks_step env)\<^sup>*\<^sup>* s s' \<and> returned m' s'"
proof -
  note slots = mgr_inv_slots_ok [OF assms(2)]
  have m: "ts_manager s = m"
    using assms(4) by (simp add: returned_def)
  from assms(3) show ?thesis
  proof cases
    case (step_upsert now1 clk now2 request dir cap r)
    show ?thesis
      by (rule returned_task [OF assms(4) valid_starts(1) runs_upsert [OF assms(1,2) step_upsert]])
  next
    case (step_ping now1 now2 ping b)
    show ?thesis
      by (rule returned_task [OF assms(4) valid_starts(2) runs_ping [OF slots step_ping]])
  next
    case (step_account u clk clk_us t1 t2 instant nanos metrics metrics')
    then show ?thesis
      using returned_task [OF assms(4) valid_starts(3) runs_dispatch [OF slots step_account(2) [unfolded dispatch_account_update_def]]]
        valid_account_frame by blast
  next
    case (step_transaction u clk clk_us t1 t2 instant nanos metrics metrics')
    then show ?thesis
      using returned_task [OF assms(4) valid_starts(3)
          runs_dispatch [OF slots step_transaction(2) [unfolded dispatch_transaction_update_def]]]
        valid_transaction_frame by blast
  next
    case (step_slot clk clk_us t1 t2 instant nanos u metrics metrics')
    then show ?thesis
      using returned_task [OF assms(4) valid_starts(3) runs_dispatch [OF slots step_slot [unfolded dispatch_slot_update_def]]]
        valid_slot_frame by blast
  next
    case (step_read p e c r c' region)
    with consumer_read [of s p e env c r c' region] m show ?thesis
      unfolding step_read(1) by (intro returned_write [OF assms(4)]) simp_all
  next
    case (step_drain p e r k)
    with consumer_drain [of s p e env r k] m show ?thesis
      unfolding step_drain(1) by (intro returned_write [OF assms(4)]) simp_all
  qed
qed

text \<open>
  C7: the two models of the connection manager agree. Every state that a sequence of whole operations
  reaches is reached by the concurrent tasks too, with all of them returned, by running them one after the
  other; so every theorem about all interleavings of single accesses holds for the atomic operations.
\<close>

theorem atomic_operations_simulated:
  assumes "sender_env_ok env" and "mgr_steps env (manager_new fs) m"
  shows "\<exists>s. (tasks_step env)\<^sup>*\<^sup>* (tasks_new fs) s \<and> ts_manager s = m \<and> list_all finished (ts_tasks s)"
proof -
  have "\<exists>s. (tasks_step env)\<^sup>*\<^sup>* (tasks_new fs) s \<and> returned m s"
    using assms(2)
  proof (induction rule: rtranclp_induct)
    case base
    have "returned (manager_new fs) (tasks_new fs)"
      by (auto simp: returned_def live_def tasks_new_def)
    then show ?case
      by blast
  next
    case (step m m')
    then obtain s where s: "(tasks_step env)\<^sup>*\<^sup>* (tasks_new fs) s" "returned m s"
      by blast
    have "mgr_inv env m"
      using steps_keep [OF assms(1) inv_new step.hyps(1)] by blast
    from returned_step [OF assms(1) this step.hyps(2) s(2)] s(1) show ?case
      by (meson rtranclp_trans)
  qed
  then show ?thesis
    by (auto simp: returned_def)
qed

theorem atomic_operations_simulated_witness:
  "\<exists>s. (tasks_step sample_env)\<^sup>*\<^sup>* (tasks_new {}) s \<and> ts_manager s = sample_manager \<and> list_all finished (ts_tasks s)"
  by (rule atomic_operations_simulated [OF sample_env_ok sample_reachable])

end
