(* ===== verification/Tasks_Delivery.thy ===== *)
theory Tasks_Delivery
  imports Tasks_System Delivery Consumer "HOL-Library.Sublist"
begin

text \<open>
  One connection from the dispatchers to the application, at the grain of single accesses: the concurrent
  tasks of the sender (\<open>Manager_Tasks\<close>), the reader task of the consumer, and the application
  that takes updates out of the queues (\<open>try_next_update\<close> and its siblings, \<open>src/consumer/shm.rs\<close>) and may drop the
  consumer, which aborts a reader that waits. \<open>Delivery\<close> has what holds in addition when the operations of the sender are atomic.
\<close>

section \<open>The system\<close>

text \<open>
  The history variables are the bodies of the frames that the ring of the connection has accepted, those
  the reader has popped, and the updates the application has taken.
\<close>

record ('q, 'k, 'b, 'u, 't, 's) channel =
  dc_tasks :: "('q, 'k, 'b) tasks"
  dc_consumer :: "('u, 't, 's) shm_consumer"
  dc_phase :: phase
  dc_sent :: "bytes list"
  dc_got :: "bytes list"
  dc_taken :: "account_update list \<times> transaction_update list \<times> slot_update list"

text \<open>The frame an access puts into the ring of the connection at \<open>p\<close>, if it does.\<close>

definition accepted ::
  "('q, 'k, 'b) sender_env \<Rightarrow> ptr \<Rightarrow> ('q, 'k, 'b) task \<Rightarrow> ('q, 'k, 'b) connection_manager \<Rightarrow> bytes list" where
  "accepted env p t m =
     (case (t, mg_heap m p) of
        (Push_Frame _ frame _ q, Some e) \<Rightarrow>
          if q = p \<and> fst (sink_try_push (se_shaq env) (se_efd env) (mc_sink e) frame) = Inr () then [frame_body frame] else []
      | _ \<Rightarrow> [])"

abbreviation set_region :: "('q, 'k, 'b) managed_connection \<Rightarrow> 'q \<Rightarrow> ('q, 'k, 'b) managed_connection" where
  "set_region e region \<equiv> e\<lparr>mc_sink := (mc_sink e)\<lparr>sk_region := region\<rparr>\<rparr>"

abbreviation set_wakeup :: "('q, 'k, 'b) managed_connection \<Rightarrow> 'k \<Rightarrow> ('q, 'k, 'b) managed_connection" where
  "set_wakeup e k \<equiv> e\<lparr>mc_sink := (mc_sink e)\<lparr>sk_wakeup := k\<rparr>\<rparr>"

abbreviation set_entry :: "('q, 'k, 'b) tasks \<Rightarrow> ptr \<Rightarrow> ('q, 'k, 'b) managed_connection \<Rightarrow> ('q, 'k, 'b) tasks" where
  "set_entry ts p e \<equiv> ts\<lparr>ts_manager := set_connection (ts_manager ts) p e\<rparr>"

inductive channel_step ::
  "('q, 'k, 'b) sender_env \<Rightarrow> ('q, 'u, 't, 's) consumer_env \<Rightarrow> ptr \<Rightarrow>
     ('q, 'k, 'b, 'u, 't, 's) channel \<Rightarrow> ('q, 'k, 'b, 'u, 't, 's) channel \<Rightarrow> bool"
  for env ce p where
  sender_access: "ts = dc_tasks s \<Longrightarrow> i < length (ts_tasks ts) \<Longrightarrow> \<not> finished (ts_tasks ts ! i) \<Longrightarrow>
    (taking_id (ts_tasks ts ! i) \<longrightarrow> mg_next_connection_id (ts_manager ts) \<noteq> - 1) \<Longrightarrow>
    task_step env now (ts_tasks ts ! i) (ts_manager ts) = (t, m) \<Longrightarrow>
    channel_step env ce p s (s\<lparr>dc_tasks := ts\<lparr>ts_manager := m, ts_tasks := (ts_tasks ts)[i := t]\<rparr>,
      dc_sent := dc_sent s @ accepted env p (ts_tasks ts ! i) (ts_manager ts)\<rparr>)"
| sender_start: "ts = dc_tasks s \<Longrightarrow> valid_start t \<Longrightarrow>
    channel_step env ce p s (s\<lparr>dc_tasks := ts\<lparr>ts_tasks := ts_tasks ts @ [t]\<rparr>\<rparr>)"
| sender_drop: "ts = dc_tasks s \<Longrightarrow> mg_heap (ts_manager ts) q = Some e \<Longrightarrow> q \<notin> ts_reclaimed ts \<Longrightarrow>
    (\<forall>idx. load_full (ts_manager ts) idx \<noteq> Some q) \<Longrightarrow> (\<forall>t \<in> set (ts_tasks ts). held t \<noteq> Some q) \<Longrightarrow>
    channel_step env ce p s (s\<lparr>dc_tasks := ts\<lparr>ts_manager := (ts_manager ts)\<lparr>mg_files :=
        ring_drop (sk_ring (mc_sink e)) (mg_files (ts_manager ts))\<rparr>, ts_reclaimed := insert q (ts_reclaimed ts)\<rparr>\<rparr>)"
| other_pop: "ts = dc_tasks s \<Longrightarrow> q \<noteq> p \<Longrightarrow> mg_heap (ts_manager ts) q = Some e \<Longrightarrow>
    ring_try_pop (se_shaq env) c (sk_region (mc_sink e)) = (r, c', region) \<Longrightarrow>
    channel_step env ce p s (s\<lparr>dc_tasks := set_entry ts q (set_region e region)\<rparr>)"
| other_wake: "ts = dc_tasks s \<Longrightarrow> q \<noteq> p \<Longrightarrow> mg_heap (ts_manager ts) q = Some e \<Longrightarrow>
    efd_drain (se_efd env) (sk_wakeup (mc_sink e)) = (r, k) \<Longrightarrow>
    channel_step env ce p s (s\<lparr>dc_tasks := set_entry ts q (set_wakeup e k)\<rparr>)"
| reader_pop: "ts = dc_tasks s \<Longrightarrow> rd = sc_reader (dc_consumer s) \<Longrightarrow> dc_phase s = Draining \<Longrightarrow>
    mg_heap (ts_manager ts) p = Some e \<Longrightarrow>
    ring_try_pop (ce_shaq ce) (rd_ring rd) (sk_region (mc_sink e)) = (Some bs, ring, region) \<Longrightarrow>
    channel_step env ce p s (s\<lparr>dc_tasks := set_entry ts p (set_region e region), dc_got := dc_got s @ [bs],
      dc_consumer := (dc_consumer s)\<lparr>sc_reader := handle_ring_frame ce clk bs (rd\<lparr>rd_ring := ring\<rparr>)\<rparr>\<rparr>)"
| reader_end: "ts = dc_tasks s \<Longrightarrow> rd = sc_reader (dc_consumer s) \<Longrightarrow> dc_phase s = Draining \<Longrightarrow>
    mg_heap (ts_manager ts) p = Some e \<Longrightarrow>
    ring_try_pop (ce_shaq ce) (rd_ring rd) (sk_region (mc_sink e)) = (None, ring, region) \<Longrightarrow>
    channel_step env ce p s (s\<lparr>dc_tasks := set_entry ts p (set_region e region),
      dc_consumer := (dc_consumer s)\<lparr>sc_reader := rd\<lparr>rd_ring := ring\<rparr>\<rparr>,
      dc_phase := (if ring_is_closed ring (mg_files (ts_manager ts)) then Stopped else Waiting)\<rparr>)"
| reader_wake: "ts = dc_tasks s \<Longrightarrow> dc_phase s = Waiting \<Longrightarrow> mg_heap (ts_manager ts) p = Some e \<Longrightarrow>
    efd_drain (se_efd env) (sk_wakeup (mc_sink e)) = (Inr n, k) \<Longrightarrow> n \<noteq> 0 \<Longrightarrow>
    channel_step env ce p s (s\<lparr>dc_tasks := set_entry ts p (set_wakeup e k), dc_phase := Draining\<rparr>)"
| take_update: "try_next_update ce (dc_consumer s) = (Some u, sc) \<Longrightarrow> dc_taken s = (us, xs, ss) \<Longrightarrow>
    channel_step env ce p s (s\<lparr>dc_consumer := sc, dc_taken := (us @ [u], xs, ss)\<rparr>)"
| take_transaction: "try_next_transaction ce (dc_consumer s) = (Some x, sc) \<Longrightarrow> dc_taken s = (us, xs, ss) \<Longrightarrow>
    channel_step env ce p s (s\<lparr>dc_consumer := sc, dc_taken := (us, xs @ [x], ss)\<rparr>)"
| take_slot: "try_next_slot ce (dc_consumer s) = (Some l, sc) \<Longrightarrow> dc_taken s = (us, xs, ss) \<Longrightarrow>
    channel_step env ce p s (s\<lparr>dc_consumer := sc, dc_taken := (us, xs, ss @ [l])\<rparr>)"
| consumer_dropped: "dc_phase s = Waiting \<Longrightarrow> channel_step env ce p s (s\<lparr>dc_phase := Stopped\<rparr>)"

text \<open>The sender has just started, and the application has not taken anything yet.\<close>

definition channel_new :: "file_system \<Rightarrow> ('u, 't, 's) shm_consumer \<Rightarrow> ('q, 'k, 'b, 'u, 't, 's) channel" where
  "channel_new fs sc = \<lparr>dc_tasks = tasks_new fs, dc_consumer = sc, dc_phase = Draining, dc_sent = [], dc_got = [],
     dc_taken = ([], [], [])\<rparr>"

lemma channel_step_tasks:
  assumes "linked env ce" and "channel_step env ce p s s'"
  shows "(tasks_step env)\<^sup>*\<^sup>* (dc_tasks s) (dc_tasks s')"
  using assms(2)
proof cases
  case (sender_access ts i now t m)
  then have "tasks_step env ts (ts\<lparr>ts_manager := m, ts_tasks := (ts_tasks ts)[i := t]\<rparr>)"
    by (intro run_task [of _ i] move) simp_all
  then show ?thesis
    using sender_access by auto
next
  case (sender_start ts t)
  then show ?thesis
    using start_task [of t env ts] by auto
next
  case (sender_drop ts q e)
  then show ?thesis
    using reclaim [of ts q e env] by auto
next
  case (other_pop ts q e c r c' region)
  then show ?thesis
    using consumer_read [of ts q e env c r c' region] by auto
next
  case (other_wake ts q e r k)
  then show ?thesis
    using consumer_drain [of ts q e env r k] by auto
next
  case (reader_pop ts rd e bs ring region clk)
  then show ?thesis
    using consumer_read [of ts p e env _ _ _ region] assms(1) by (auto simp: linked_def)
next
  case (reader_end ts rd e ring region)
  then show ?thesis
    using consumer_read [of ts p e env _ _ _ region] assms(1) by (auto simp: linked_def)
next
  case (reader_wake ts e n k)
  then show ?thesis
    using consumer_drain [of ts p e env _ k] by auto
qed simp_all

lemma channel_steps_tasks:
  assumes "linked env ce" and "(channel_step env ce p)\<^sup>*\<^sup>* s s'"
  shows "(tasks_step env)\<^sup>*\<^sup>* (dc_tasks s) (dc_tasks s')"
  using assms(2) by (induction rule: rtranclp_induct) (auto dest: channel_step_tasks [OF assms(1)])


section \<open>The ring under concurrent tasks\<close>

fun frame_bodies :: "ring_item list \<Rightarrow> bytes list" where
  "frame_bodies (Frame b # items) = b # frame_bodies items"
| "frame_bodies (CloseMark # items) = frame_bodies items"
| "frame_bodies [] = []"

lemma frame_bodies_append [simp]: "frame_bodies (xs @ ys) = frame_bodies xs @ frame_bodies ys"
  by (induction xs rule: frame_bodies.induct) simp_all

text \<open>An access of the sender to the sink of a connection: it appends, and if so it wakes the reader.\<close>

definition sink_grows ::
  "('q, 'k, 'b) sender_env \<Rightarrow> ('q, 'k) slot_sink \<Rightarrow> ring_item list \<Rightarrow> ('q, 'k) slot_sink \<Rightarrow> bytes list \<Rightarrow> bool" where
  "sink_grows env sink items sink' new \<longleftrightarrow>
     (\<exists>items'. sink_rep (se_shaq env) sink' items' \<and> frame_bodies items' = frame_bodies items @ new \<and>
        (items' = items \<and> sk_wakeup sink' = sk_wakeup sink \<or> 0 < ek_count (se_efd env) (sk_wakeup sink')))"

lemma sink_grows_refl: "sink_rep (se_shaq env) sink items \<Longrightarrow> sink_grows env sink items sink []"
  by (auto simp: sink_grows_def)

lemma sink_grows_close:
  assumes "efd_ok (se_efd env)" and "sink_rep (se_shaq env) sink items"
  shows "sink_grows env sink items (sink_close (se_shaq env) (se_efd env) sink) []"
  using sink_close_rep(1,3) [OF assms(2,1)] by (auto simp: sink_grows_def split: if_splits)

lemma sink_grows_push:
  assumes "efd_ok (se_efd env)" and "sink_rep (se_shaq env) sink items" and "valid_frame frame"
    and "sink_try_push (se_shaq env) (se_efd env) sink frame = (r, sink')"
  shows "sink_grows env sink items sink' (if r = Inr () then [frame_body frame] else [])"
proof (cases "sink_fits sink items frame")
  case True
  obtain sink1 where "sink_try_push (se_shaq env) (se_efd env) sink frame = (Inr (), sink1)"
      "sink_rep (se_shaq env) sink1 (items @ [Frame (frame_body frame)])" "0 < ek_count (se_efd env) (sk_wakeup sink1)"
    by (rule sink_try_push_fits [OF assms(2,1) _ True]) (use assms(3) in simp_all)
  with assms(4) show ?thesis
    by (auto simp: sink_grows_def)
next
  case False
  obtain d q where "sink_try_push (se_shaq env) (se_efd env) sink frame =
        (Inl frame, sink\<lparr>sk_ring := (sk_ring sink)\<lparr>rp_dropped_frames := d\<rparr>, sk_region := q\<rparr>)"
      "sink_rep (se_shaq env) (sink\<lparr>sk_ring := (sk_ring sink)\<lparr>rp_dropped_frames := d\<rparr>, sk_region := q\<rparr>) items"
    by (rule sink_try_push_refused [OF assms(2) False])
  with assms(4) show ?thesis
    by (auto simp: sink_grows_def)
qed

lemma accepted_simps:
  "accepted env p (Push_Frame job frame idx q) m =
     (case mg_heap m p of None \<Rightarrow> [] | Some e \<Rightarrow>
        if q = p \<and> fst (sink_try_push (se_shaq env) (se_efd env) (mc_sink e) frame) = Inr () then [frame_body frame] else [])"
  "pushing t = None \<Longrightarrow> accepted env p t m = []"
  by (simp add: accepted_def split: option.split) (cases t; simp add: accepted_def)

text \<open>What one access of a task does to the connection at \<open>p\<close>.\<close>

lemma access_sink:
  assumes "sender_env_ok env" and "task_ok env m t" and "task_step env now t m = (t', m')"
    and "mg_heap m p = Some e" and "sink_rep (se_shaq env) (mc_sink e) items" and "p \<noteq> mg_next_ptr m"
  shows "\<exists>e'. mg_heap m' p = Some e' \<and> sink_grows env (mc_sink e) items (mc_sink e') (accepted env p t m)"
proof -
  have efd: "efd_ok (se_efd env)"
    using assms(1) by (simp add: sender_env_ok_def)
  note same = sink_grows_refl [OF assms(5)]
  show ?thesis
  proof (cases "reading t")
    case True
    have "m' = m"
      using reading_step [OF True, of env now m] assms(3) by simp
    moreover have "pushing t = None"
      using True by (cases t) simp_all
    ultimately show ?thesis
      using assms(4) same by (simp add: accepted_simps)
  next
    case False
    then show ?thesis
    proof (cases t)
      case (Close_Sink k idx q)
      with assms(3,4) same sink_grows_close [OF efd assms(5)] show ?thesis
        by (auto simp: deref_def accepted_simps close_connection_def split: option.splits)
    next
      case (Swap_Out k idx q)
      with assms(3,4) same show ?thesis
        by (auto simp: accepted_simps)
    next
      case (Touch purpose q)
      with assms(3,4) same show ?thesis
        by (auto simp: deref_def accepted_simps split: option.splits)
    next
      case (Store_Filter flt q)
      with assms(3,4) same show ?thesis
        by (auto simp: deref_def accepted_simps split: option.splits)
    next
      case (Take_Id request dir cap)
      with assms(3,4) same show ?thesis
        by (auto simp: accepted_simps)
    next
      case (Create_Ring inst idx)
      obtain r fs where "ring_create (se_shaq env) (se_fs env) (mg_files m)
          (path_join (in_shm_dir inst) (ring_file_name (se_pid env) idx (in_connection_id inst))) (in_ring_capacity inst) = (r, fs)"
        by force
      with assms(3,4) same Create_Ring show ?thesis
        by (cases r) (auto simp: Let_def accepted_simps)
    next
      case (Create_Eventfd inst idx ring region)
      with assms(3,4) same show ?thesis
        by (auto simp: accepted_simps split: sum.splits)
    next
      case (Install inst idx sink)
      with assms(3,4,6) same show ?thesis
        by (auto simp: accepted_simps install_def split: if_splits)
    next
      case (Refused inst sink)
      with assms(3,4) same show ?thesis
        by (auto simp: accepted_simps)
    next
      case (Push_Frame job frame idx q)
      obtain d where d: "mg_heap m q = Some d"
        by (rule task_ok_held [OF assms(2), of q]) (simp add: Push_Frame)
      obtain r sink where push: "sink_try_push (se_shaq env) (se_efd env) (mc_sink d) frame = (r, sink)"
        by force
      have m': "m' = set_connection m q (d\<lparr>mc_sink := sink\<rparr>)"
        using assms(3) d push Push_Frame by (auto simp: deref_def split: sum.splits)
      show ?thesis
      proof (cases "q = p")
        case True
        moreover have "valid_frame frame"
          using assms(2) Push_Frame by (simp add: task_ok_def)
        ultimately show ?thesis
          using sink_grows_push [OF efd assms(5)] assms(4) d push m' Push_Frame by (simp add: accepted_simps)
      next
        case False
        then show ?thesis
          using assms(4) same m' Push_Frame by (simp add: accepted_simps)
      qed
    qed simp_all
  qed
qed

text \<open>A connection comes into being with an empty ring.\<close>

lemma access_install:
  assumes "task_ok env m t" and "task_step env now t m = (t', m')" and "mg_heap m p = None" and "mg_heap m' p = Some e"
  shows "sink_rep (se_shaq env) (mc_sink e) []"
proof (cases t)
  case (Install inst idx sink)
  then have "mc_sink e = sink"
    using assms(2-4) by (auto simp: install_def split: if_splits)
  then show ?thesis
    using assms(1) Install by (simp add: task_ok_def sink_rep_def)
qed (use assms(2-4) in \<open>auto simp: deref_def Let_def split: if_splits option.splits result.splits sum.splits prod.splits\<close>)


section \<open>The invariant of a channel\<close>

definition ring_inv :: "('q, 'k, 'b) sender_env \<Rightarrow> ptr \<Rightarrow> ('q, 'k, 'b, 'u, 't, 's) channel \<Rightarrow> bool" where
  "ring_inv env p s \<longleftrightarrow>
     (case mg_heap (ts_manager (dc_tasks s)) p of
        None \<Rightarrow> dc_sent s = [] \<and> dc_got s = []
      | Some e \<Rightarrow> \<exists>items. sink_rep (se_shaq env) (mc_sink e) items \<and> dc_sent s = dc_got s @ frame_bodies items \<and>
          (dc_phase s = Waiting \<and> items \<noteq> [] \<longrightarrow> 0 < ek_count (se_efd env) (sk_wakeup (mc_sink e))))"

definition queue_inv :: "('q, 'u, 't, 's) consumer_env \<Rightarrow> ('q, 'k, 'b, 'u, 't, 's) channel \<Rightarrow> bool" where
  "queue_inv ce s \<longleftrightarrow>
     (case dc_taken s of (us, xs, ss) \<Rightarrow> case queues ce (sc_reader (dc_consumer s)) of (us', xs', ss') \<Rightarrow>
        subseq (us @ us') (List.map_filter account_of (frames_of ce (dc_got s))) \<and>
        subseq (xs @ xs') (List.map_filter transaction_of (frames_of ce (dc_got s))) \<and>
        subseq (ss @ ss') (List.map_filter slot_of (frames_of ce (dc_got s))))"

lemma ring_inv_unchanged:
  assumes "ring_inv env p s" and "mg_heap (ts_manager (dc_tasks s')) p = mg_heap (ts_manager (dc_tasks s)) p"
    and "dc_sent s' = dc_sent s" and "dc_got s' = dc_got s" and "dc_phase s' = dc_phase s"
  shows "ring_inv env p s'"
  using assms(1) unfolding ring_inv_def assms(2-5) .

lemma ring_inv_access:
  assumes "sender_env_ok env" and "tasks_inv env ts" and "ring_inv env p s" and "ts = dc_tasks s" and "i < length (ts_tasks ts)"
    and "task_step env now (ts_tasks ts ! i) (ts_manager ts) = (t, m)"
  shows "ring_inv env p (s\<lparr>dc_tasks := ts\<lparr>ts_manager := m, ts_tasks := (ts_tasks ts)[i := t]\<rparr>,
      dc_sent := dc_sent s @ accepted env p (ts_tasks ts ! i) (ts_manager ts)\<rparr>)"
proof -
  note ok = tasks_invD [OF assms(2,5)]
  show ?thesis
  proof (cases "mg_heap (ts_manager ts) p")
    case None
    then have "accepted env p (ts_tasks ts ! i) (ts_manager ts) = []" "dc_sent s = []" "dc_got s = []"
      using assms(3,4) by (simp_all add: accepted_def ring_inv_def split: task.split)
    then show ?thesis
      using access_install [OF ok assms(6) None] unfolding ring_inv_def
      by (auto split: option.split intro!: exI [of _ "[]"])
  next
    case (Some e)
    then obtain items where items: "sink_rep (se_shaq env) (mc_sink e) items" "dc_sent s = dc_got s @ frame_bodies items"
        "dc_phase s = Waiting \<and> items \<noteq> [] \<longrightarrow> 0 < ek_count (se_efd env) (sk_wakeup (mc_sink e))"
      using assms(3,4) by (auto simp: ring_inv_def)
    have "p \<noteq> mg_next_ptr (ts_manager ts)"
      using inv_fresh_ptr [OF conjunct1 [OF assms(2) [unfolded tasks_inv_def]]] Some by auto
    from access_sink [OF assms(1) ok assms(6) Some items(1) this]
    obtain e' items' where "mg_heap m p = Some e'" "sink_rep (se_shaq env) (mc_sink e') items'"
        "frame_bodies items' = frame_bodies items @ accepted env p (ts_tasks ts ! i) (ts_manager ts)"
        "items' = items \<and> sk_wakeup (mc_sink e') = sk_wakeup (mc_sink e) \<or> 0 < ek_count (se_efd env) (sk_wakeup (mc_sink e'))"
      unfolding sink_grows_def by blast
    then show ?thesis
      using items(2,3) unfolding ring_inv_def by (auto intro!: exI [of _ items'])
  qed
qed

lemma pop_items:
  assumes "sink_rep sq sink items" and "ring_try_pop sq c (sk_region sink) = (r, c', q)"
  shows "\<exists>items'. sink_rep sq (sink\<lparr>sk_region := q\<rparr>) items' \<and>
    (case r of Some b \<Rightarrow> items = Frame b # items' | None \<Rightarrow> items = [] \<and> items' = [] \<or> items = CloseMark # items' \<and> rc_closed c')"
proof (cases items)
  case Nil
  then show ?thesis
    using assms sink_pop_empty [of sq sink c] by auto
next
  case (Cons x items')
  show ?thesis
  proof (cases x)
    case (Frame b)
    obtain q' where "ring_try_pop sq c (sk_region sink) = (Some b, c, q')" "sink_rep sq (sink\<lparr>sk_region := q'\<rparr>) items'"
      by (rule sink_pop_frame [OF assms(1) [unfolded Cons Frame]])
    with assms(2) Cons Frame show ?thesis by auto
  next
    case CloseMark
    obtain q' where "ring_try_pop sq c (sk_region sink) = (None, c\<lparr>rc_closed := True\<rparr>, q')" "sink_rep sq (sink\<lparr>sk_region := q'\<rparr>) items'"
      by (rule sink_pop_close [OF assms(1) [unfolded Cons CloseMark]])
    with assms(2) Cons CloseMark show ?thesis by auto
  qed
qed

lemma queue_push:
  assumes "array_queue_ok aq" and "subseq (taken @ aq_contents aq q) received"
  shows "subseq (taken @ aq_contents aq (snd (aq_force_push aq q x))) (received @ [x])"
proof -
  have "suffix (newest (aq_capacity aq q) (aq_contents aq q @ [x])) (aq_contents aq q @ [x])"
    unfolding newest_def by (rule suffix_drop)
  then have "subseq (aq_contents aq (snd (aq_force_push aq q x))) (aq_contents aq q @ [x])"
    unfolding array_queue_force_push(1) [OF assms(1)] by (rule suffix_imp_subseq)
  then have "subseq (taken @ aq_contents aq (snd (aq_force_push aq q x))) ((taken @ aq_contents aq q) @ [x])"
    by (simp add: list_emb_append_mono)
  moreover have "subseq ((taken @ aq_contents aq q) @ [x]) (received @ [x])"
    using assms(2) by (rule list_emb_append_mono) simp
  ultimately show ?thesis
    by (rule subseq_order.trans)
qed

lemma frames_of_snoc: "frames_of ce (bs @ [b]) = frames_of ce bs @ (case frame_of ce b of None \<Rightarrow> [] | Some f \<Rightarrow> [f])"
  by (simp add: frames_of_def List.map_filter_def split: option.split)

lemma map_filter_snoc: "List.map_filter f (xs @ [x]) = List.map_filter f xs @ (case f x of None \<Rightarrow> [] | Some y \<Rightarrow> [y])"
  by (simp add: List.map_filter_def split: option.split)

lemma frames_of_skip:
  assumes "\<And>f. frame_of ce b = Some f \<Longrightarrow> g f = None"
  shows "List.map_filter g (frames_of ce (bs @ [b])) = List.map_filter g (frames_of ce bs)"
  using assms by (simp add: frames_of_snoc map_filter_snoc split: option.split)

text \<open>What handling a frame does to the queues, by what the frame decodes to.\<close>

lemma handle_ring_frame_cases:
  "frame_of ce bs = Some (SM_AccountUpdate u meta) \<Longrightarrow> queues ce (handle_ring_frame ce clk bs rd) =
     (aq_contents (ce_updates ce) (snd (aq_force_push (ce_updates ce) (rd_updates rd) u)),
      aq_contents (ce_transactions ce) (rd_transactions rd), aq_contents (ce_slots ce) (rd_slots rd))"
  "frame_of ce bs = Some (SM_TransactionUpdate x meta) \<Longrightarrow> queues ce (handle_ring_frame ce clk bs rd) =
     (aq_contents (ce_updates ce) (rd_updates rd),
      aq_contents (ce_transactions ce) (snd (aq_force_push (ce_transactions ce) (rd_transactions rd) x)),
      aq_contents (ce_slots ce) (rd_slots rd))"
  "frame_of ce bs = Some (SM_SlotUpdate l meta) \<Longrightarrow> queues ce (handle_ring_frame ce clk bs rd) =
     (aq_contents (ce_updates ce) (rd_updates rd), aq_contents (ce_transactions ce) (rd_transactions rd),
      aq_contents (ce_slots ce) (snd (aq_force_push (ce_slots ce) (rd_slots rd) l)))"
  "(\<And>f. frame_of ce bs = Some f \<Longrightarrow> account_of f = None \<and> transaction_of f = None \<and> slot_of f = None) \<Longrightarrow>
     queues ce (handle_ring_frame ce clk bs rd) = queues ce rd"
  by (auto simp: frame_of_def handle_ring_frame_def queues_def split: result.splits server_frame_with_meta.splits)

lemma queue_inv_pop:
  assumes "consumer_env_ok ce" and "queue_inv ce s"
  shows "queue_inv ce (s\<lparr>dc_tasks := ts, dc_got := dc_got s @ [bs],
    dc_consumer := (dc_consumer s)\<lparr>sc_reader := handle_ring_frame ce clk bs ((sc_reader (dc_consumer s))\<lparr>rd_ring := ring\<rparr>)\<rparr>\<rparr>)"
proof -
  let ?rd = "sc_reader (dc_consumer s)"
  have ok: "array_queue_ok (ce_updates ce)" "array_queue_ok (ce_transactions ce)" "array_queue_ok (ce_slots ce)"
    using assms(1) by (simp_all add: consumer_env_ok_def)
  obtain us xs ss where taken: "dc_taken s = (us, xs, ss)"
    by (cases "dc_taken s")
  have inv: "subseq (us @ aq_contents (ce_updates ce) (rd_updates ?rd)) (List.map_filter account_of (frames_of ce (dc_got s)))"
      "subseq (xs @ aq_contents (ce_transactions ce) (rd_transactions ?rd)) (List.map_filter transaction_of (frames_of ce (dc_got s)))"
      "subseq (ss @ aq_contents (ce_slots ce) (rd_slots ?rd)) (List.map_filter slot_of (frames_of ce (dc_got s)))"
    using assms(2) taken by (simp_all add: queue_inv_def queues_def)
  note push = queue_push [OF ok(1) inv(1)] queue_push [OF ok(2) inv(2)] queue_push [OF ok(3) inv(3)]
  note simps = queue_inv_def taken frames_of_snoc map_filter_snoc
  consider (account) u meta where "frame_of ce bs = Some (SM_AccountUpdate u meta)"
    | (transaction) x meta where "frame_of ce bs = Some (SM_TransactionUpdate x meta)"
    | (slot) l meta where "frame_of ce bs = Some (SM_SlotUpdate l meta)"
    | (other) "\<And>f. frame_of ce bs = Some f \<Longrightarrow> account_of f = None \<and> transaction_of f = None \<and> slot_of f = None"
  proof (cases "frame_of ce bs")
    case (Some f)
    then show thesis
      using that by (cases f) simp_all
  qed (use that(4) in simp)
  then show ?thesis
  proof cases
    case account
    then show ?thesis
      using push(1) inv(2,3) by (simp add: simps handle_ring_frame_cases(1))
  next
    case transaction
    then show ?thesis
      using push(2) inv(1,3) by (simp add: simps handle_ring_frame_cases(2))
  next
    case slot
    then show ?thesis
      using push(3) inv(1,2) by (simp add: simps handle_ring_frame_cases(3))
  next
    case other
    then have "queues ce (handle_ring_frame ce clk bs (?rd\<lparr>rd_ring := ring\<rparr>)) = queues ce ?rd"
      by (simp add: handle_ring_frame_cases(4))
    with other assms(2) show ?thesis
      unfolding queue_inv_def by (simp add: frames_of_skip)
  qed
qed

lemma queue_take:
  assumes "array_queue_ok aq" and "aq_pop aq q = (Some x, q')"
  shows "aq_contents aq q = x # aq_contents aq q'"
  using array_queue_pop [OF assms] by (auto split: list.splits)

lemma queue_inv_unchanged:
  assumes "queue_inv ce s" and "dc_taken s' = dc_taken s" and "dc_got s' = dc_got s"
    and "queues ce (sc_reader (dc_consumer s')) = queues ce (sc_reader (dc_consumer s))"
  shows "queue_inv ce s'"
  using assms(1) unfolding queue_inv_def assms(2-4) .

lemma queue_inv_step:
  assumes "consumer_env_ok ce" and "queue_inv ce s" and "channel_step env ce p s s'"
  shows "queue_inv ce s'"
  using assms(3)
proof cases
  case (reader_pop ts rd e bs ring region clk)
  show ?thesis
    unfolding reader_pop(1,3) by (rule queue_inv_pop [OF assms(1,2)])
next
  case (take_update u sc us xs ss)
  then obtain q where "aq_pop (ce_updates ce) (rd_updates (sc_reader (dc_consumer s))) = (Some u, q)"
      "sc = (dc_consumer s)\<lparr>sc_reader := (sc_reader (dc_consumer s))\<lparr>rd_updates := q\<rparr>\<rparr>"
    by (auto simp: try_next_update_def split: prod.splits)
  with queue_take [of "ce_updates ce"] assms(1,2) take_update(1,3) show ?thesis
    by (auto simp: queue_inv_def queues_def consumer_env_ok_def)
next
  case (take_transaction x sc us xs ss)
  then obtain q where "aq_pop (ce_transactions ce) (rd_transactions (sc_reader (dc_consumer s))) = (Some x, q)"
      "sc = (dc_consumer s)\<lparr>sc_reader := (sc_reader (dc_consumer s))\<lparr>rd_transactions := q\<rparr>\<rparr>"
    by (auto simp: try_next_transaction_def split: prod.splits)
  with queue_take [of "ce_transactions ce"] assms(1,2) take_transaction(1,3) show ?thesis
    by (auto simp: queue_inv_def queues_def consumer_env_ok_def)
next
  case (take_slot l sc us xs ss)
  then obtain q where "aq_pop (ce_slots ce) (rd_slots (sc_reader (dc_consumer s))) = (Some l, q)"
      "sc = (dc_consumer s)\<lparr>sc_reader := (sc_reader (dc_consumer s))\<lparr>rd_slots := q\<rparr>\<rparr>"
    by (auto simp: try_next_slot_def split: prod.splits)
  with queue_take [of "ce_slots ce"] assms(1,2) take_slot(1,3) show ?thesis
    by (auto simp: queue_inv_def queues_def consumer_env_ok_def)
qed (auto intro!: queue_inv_unchanged [OF assms(2)])

lemma ring_inv_step:
  assumes "linked env ce" and "tasks_inv env (dc_tasks s)" and "ring_inv env p s" and "channel_step env ce p s s'"
  shows "ring_inv env p s'"
proof -
  have env: "sender_env_ok env" "ce_shaq ce = se_shaq env"
    using assms(1) by (simp_all add: linked_def)
  have popped: "\<exists>items items'. sink_rep (se_shaq env) (mc_sink e) items \<and> dc_sent s = dc_got s @ frame_bodies items \<and>
      sink_rep (se_shaq env) ((mc_sink e)\<lparr>sk_region := region\<rparr>) items' \<and>
      (case r of Some b \<Rightarrow> items = Frame b # items' | None \<Rightarrow> items = [] \<and> items' = [] \<or> items = CloseMark # items' \<and> rc_closed c')"
    if h: "mg_heap (ts_manager (dc_tasks s)) p = Some e" "ring_try_pop (ce_shaq ce) c (sk_region (mc_sink e)) = (r, c', region)"
    for e c r c' region
  proof -
    obtain items where items: "sink_rep (se_shaq env) (mc_sink e) items" "dc_sent s = dc_got s @ frame_bodies items"
      using assms(3) h(1) by (auto simp: ring_inv_def)
    then show ?thesis
      using pop_items [OF items(1) h(2) [unfolded env(2)]] by blast
  qed
  from assms(4) show ?thesis
  proof cases
    case (sender_access ts i now t m)
    then show ?thesis
      using ring_inv_access [OF env(1) _ assms(3), of ts i now t m] assms(2) by simp
  next
    case (reader_pop ts rd e bs ring region clk)
    then show ?thesis
      using popped [of e "rd_ring rd" "Some bs" ring region] by (auto simp: ring_inv_def)
  next
    case (reader_end ts rd e ring region)
    then show ?thesis
      using popped [of e "rd_ring rd" None ring region] by (auto simp: ring_inv_def ring_is_closed_def)
  next
    case (reader_wake ts e n k)
    then show ?thesis
      using assms(3) by (auto simp: ring_inv_def sink_rep_wakeup)
  next
    case consumer_dropped
    then show ?thesis
      using assms(3) unfolding ring_inv_def by (auto split: option.splits; blast)
  qed (auto intro!: ring_inv_unchanged [OF assms(3)])
qed

lemma channel_inv_reachable:
  assumes "linked env ce" and "queues ce (sc_reader sc) = ([], [], [])" and "(channel_step env ce p)\<^sup>*\<^sup>* (channel_new fs sc) s"
  shows "ring_inv env p s \<and> queue_inv ce s"
  using assms(3)
proof (induction rule: rtranclp_induct)
  case base
  show ?case
    using assms(2) by (simp add: ring_inv_def queue_inv_def channel_new_def tasks_new_def manager_new_def)
next
  case (step s s')
  have "(tasks_step env)\<^sup>*\<^sup>* (tasks_new fs) (dc_tasks s)"
    using channel_steps_tasks [OF assms(1) step.hyps(1)] by (simp add: channel_new_def)
  then have "tasks_inv env (dc_tasks s)"
    using assms(1) by (intro tasks_inv_reachable) (simp_all add: linked_def)
  then show ?case
    using ring_inv_step [OF assms(1) _ _ step.hyps(2)] queue_inv_step [OF _ _ step.hyps(2)] step.IH assms(1)
    by (simp add: linked_def)
qed

text \<open>
  C3: delivery under full concurrency. However the single accesses of any number of dispatchers,
  subscriptions and pings, the reader and the application interleave: every frame that the ring of a
  connection accepted has been popped by the reader, or is still in the ring, in the order of acceptance; what the
  application has taken and what waits in its queues are updates of the popped frames of their kind, in that order,
  none twice and none made up; and a reader that sleeps while its ring holds anything has a wakeup pending.
\<close>

theorem concurrent_delivery:
  assumes "linked env ce" and "queues ce (sc_reader sc) = ([], [], [])" and "(channel_step env ce p)\<^sup>*\<^sup>* (channel_new fs sc) s"
    and "mg_heap (ts_manager (dc_tasks s)) p = Some e"
    and "dc_taken s = (us, xs, ss)" and "queues ce (sc_reader (dc_consumer s)) = (us', xs', ss')"
  shows "(\<exists>items. sink_rep (se_shaq env) (mc_sink e) items \<and> dc_sent s = dc_got s @ frame_bodies items \<and>
        (dc_phase s = Waiting \<and> items \<noteq> [] \<longrightarrow> 0 < ek_count (se_efd env) (sk_wakeup (mc_sink e)))) \<and>
     subseq (us @ us') (List.map_filter account_of (frames_of ce (dc_got s))) \<and>
     subseq (xs @ xs') (List.map_filter transaction_of (frames_of ce (dc_got s))) \<and>
     subseq (ss @ ss') (List.map_filter slot_of (frames_of ce (dc_got s)))"
  using channel_inv_reachable [OF assms(1-3)] assms(4-6) by (simp add: ring_inv_def queue_inv_def)

text \<open>A subscription, a slot update for it, its delivery and the call of the application, on the sample instances.\<close>

definition channel_access ::
  "('q, 'k, 'b) sender_env \<Rightarrow> ptr \<Rightarrow> nat \<times> u64 \<Rightarrow> ('q, 'k, 'b, 'u, 't, 's) channel \<Rightarrow> ('q, 'k, 'b, 'u, 't, 's) channel" where
  "channel_access env p a s =
     (let ts = dc_tasks s; i = fst a
      in if i < length (ts_tasks ts) \<and> \<not> finished (ts_tasks ts ! i) \<and>
            (taking_id (ts_tasks ts ! i) \<longrightarrow> mg_next_connection_id (ts_manager ts) \<noteq> - 1)
         then s\<lparr>dc_tasks := run_access env a ts, dc_sent := dc_sent s @ accepted env p (ts_tasks ts ! i) (ts_manager ts)\<rparr>
         else s)"

lemma channel_access_step: "(channel_step env ce p)\<^sup>*\<^sup>* s (channel_access env p a s)"
proof (cases a)
  case (Pair i now)
  obtain t m where t: "task_step env now (ts_tasks (dc_tasks s) ! i) (ts_manager (dc_tasks s)) = (t, m)"
    by force
  then show ?thesis
    using sender_access [OF refl _ _ _ t, of ce p] by (auto simp: channel_access_def run_access_def Let_def Pair)
qed

lemma channel_accesses_step: "(channel_step env ce p)\<^sup>*\<^sup>* s (fold (channel_access env p) as s)"
proof (induction as arbitrary: s)
  case (Cons a as)
  from rtranclp_trans [OF channel_access_step [of env ce p s a] Cons] show ?case
    by simp
qed simp

definition sample_shm_consumer ::
  "(nat \<times> account_update list, nat \<times> transaction_update list, nat \<times> slot_update list) shm_consumer" where
  "sample_shm_consumer = \<lparr>sc_stream = \<lparr>ud_in = \<lparr>is_bytes = [], is_end = UnexpectedEof\<rparr>,
     ud_out = \<lparr>os_bytes = [], os_fail = None\<rparr>, ud_attached = []\<rparr>, sc_slot_token_index = 0,
     sc_slot_token_generation = 1, sc_reader = sample_reader\<rparr>"

abbreviation sample_slot_update :: slot_update where
  "sample_slot_update \<equiv> \<lparr>su_slot = 1\<rparr>"

abbreviation sample_job :: "outbound_frame \<Rightarrow> bytes list job" where
  "sample_job frame \<equiv> \<lparr>jb_matches = \<lambda>_. True, jb_encode = Ok frame, jb_shared_frame = Some frame\<rparr>"

lemma sample_frame:
  obtains frame where "encode_slot_frame 7 5 sample_slot_update = Ok frame" and "valid_frame frame" and "frame_body frame = slot_frame 1"
proof -
  obtain frame where f: "encode_slot_frame 7 5 sample_slot_update = Ok frame" "frame_body frame = slot_frame 1"
    by (auto simp: encode_slot_frame_def bindR_eq_Ok slot_encode_parts_at_def slot_frame_def)
  with valid_slot_frame [OF f(1)] that show thesis
    by blast
qed

text \<open>Up to the push.\<close>

definition sample_pushing :: "outbound_frame \<Rightarrow>
    (list_queue, nat, bytes list, nat \<times> account_update list, nat \<times> transaction_update list, nat \<times> slot_update list) channel" where
  "sample_pushing frame = fold (channel_access sample_env 0) (map (\<lambda>i. (i, 1000)) [0, 0, 0, 0, 0, 1, 1, 1])
     ((channel_new {} sample_shm_consumer)\<lparr>dc_tasks :=
        start_tasks [upsert_task sample_request ''/dev/shm'' 256, dispatch_task (\<lambda>_. True) (Ok frame)] (tasks_new {})\<rparr>)"

lemma sample_pushing_state:
  "ts_tasks (dc_tasks (sample_pushing frame)) =
     [Finished (Provided (Ok (Created (slot_token_new 0 1) ''/dev/shm/7-0-1'' 256 0))), Push_Frame (sample_job frame) frame 0 0]"
  "mg_heap (ts_manager (dc_tasks (sample_pushing frame))) = [0 \<mapsto> sample_connection]"
  "dc_sent (sample_pushing frame) = []" "dc_got (sample_pushing frame) = []" "dc_phase (sample_pushing frame) = Draining"
  "dc_consumer (sample_pushing frame) = sample_shm_consumer" "dc_taken (sample_pushing frame) = ([], [], [])"
  unfolding sample_pushing_def channel_new_def start_tasks_def tasks_new_def manager_new_def sample_upsert_task
  by (simp_all add: sample_eval channel_access_def dispatch_task_def accepted_simps sample_connection_def)

lemma sample_pushing_reachable:
  assumes "valid_frame frame"
  shows "(channel_step sample_env sample_consumer_env 0)\<^sup>*\<^sup>* (channel_new {} sample_shm_consumer) (sample_pushing frame)"
proof -
  let ?c = "channel_new {} sample_shm_consumer :: (list_queue, nat, bytes list, _, _, _) channel"
  let ?u = "upsert_task sample_request ''/dev/shm'' 256" and ?d = "dispatch_task (\<lambda>_. True) (Ok frame)"
  have start: "channel_step sample_env sample_consumer_env 0 s (s\<lparr>dc_tasks := start_tasks [t] (dc_tasks s)\<rparr>)" if "valid_start t" for s t
    using sender_start [OF refl that, of sample_env sample_consumer_env 0 s] by (simp add: start_tasks_def)
  have "valid_start ?u" "valid_start ?d"
    by (rule valid_starts(1)) (rule valid_starts(3), use assms in simp)
  then have one: "channel_step sample_env sample_consumer_env 0 ?c (?c\<lparr>dc_tasks := start_tasks [?u] (tasks_new {})\<rparr>)"
    and two: "channel_step sample_env sample_consumer_env 0 (?c\<lparr>dc_tasks := start_tasks [?u] (tasks_new {})\<rparr>)
      (?c\<lparr>dc_tasks := start_tasks [?u, ?d] (tasks_new {})\<rparr>)"
    using start [of ?u ?c] start [of ?d "?c\<lparr>dc_tasks := start_tasks [?u] (tasks_new {})\<rparr>"]
    by (simp_all add: channel_new_def start_tasks_def)
  let ?s = "?c\<lparr>dc_tasks := start_tasks [?u, ?d] (tasks_new {})\<rparr>"
  have "(channel_step sample_env sample_consumer_env 0)\<^sup>*\<^sup>* ?c ?s"
    using one two by simp
  moreover have "(channel_step sample_env sample_consumer_env 0)\<^sup>*\<^sup>* ?s (sample_pushing frame)"
    unfolding sample_pushing_def by (rule channel_accesses_step)
  ultimately show ?thesis
    by (rule rtranclp_trans)
qed

theorem concurrent_delivery_witness:
  "\<exists>s e items. (channel_step sample_env sample_consumer_env 0)\<^sup>*\<^sup>* (channel_new {} sample_shm_consumer) s \<and>
     dc_sent s = [slot_frame 1] \<and> mg_heap (ts_manager (dc_tasks s)) 0 = Some e \<and>
     sink_rep (se_shaq sample_env) (mc_sink e) items \<and> dc_got s @ frame_bodies items = [slot_frame 1]"
proof -
  obtain frame where f: "valid_frame frame" "frame_body frame = slot_frame 1"
    by (rule sample_frame)
  let ?s = "sample_pushing frame" and ?sq = "se_shaq sample_env" and ?ek = "se_efd sample_env"
  let ?s' = "channel_access sample_env 0 (1, 1000) ?s"
  have rep: "sink_rep ?sq (mc_sink sample_connection) []"
    by (simp add: sink_rep_def ring_rep_def sample_connection_def sample_env_fields list_shaq_ok) (simp add: list_shaq_def)
  obtain sink where push: "sink_try_push ?sq ?ek (mc_sink sample_connection) frame = (Inr (), sink)"
    by (rule sink_try_push_fits [OF rep, of ?ek frame])
      (use f in \<open>simp_all add: sample_env_fields nat_efd_ok slot_frame_def sample_connection_def\<close>)
  have s': "dc_sent ?s' = [slot_frame 1]" "mg_heap (ts_manager (dc_tasks ?s')) 0 = Some (sample_connection\<lparr>mc_sink := sink\<rparr>)"
      "dc_consumer ?s' = sample_shm_consumer" "dc_taken ?s' = ([], [], [])"
    using push f(2) by (simp_all add: channel_access_def run_access_def sample_pushing_state accepted_simps deref_def Let_def)
  have run: "(channel_step sample_env sample_consumer_env 0)\<^sup>*\<^sup>* (channel_new {} sample_shm_consumer) ?s'"
    using sample_pushing_reachable [OF f(1)] channel_access_step [of sample_env sample_consumer_env 0 ?s "(1, 1000)"]
    by (rule rtranclp_trans)
  have q: "queues sample_consumer_env (sc_reader sample_shm_consumer) = ([], [], [])"
    using sample_queues by (simp add: sample_shm_consumer_def)
  then have q': "queues sample_consumer_env (sc_reader (dc_consumer ?s')) = ([], [], [])"
    unfolding s'(3) .
  obtain items where "sink_rep ?sq (mc_sink (sample_connection\<lparr>mc_sink := sink\<rparr>)) items"
      "dc_sent ?s' = dc_got ?s' @ frame_bodies items"
    using concurrent_delivery [OF sample_linked q run s'(2,4) q'] by (elim conjE exE)
  then show ?thesis
    using run s'(1,2) by (intro exI [of _ ?s'] exI [of _ "sample_connection\<lparr>mc_sink := sink\<rparr>"] exI [of _ items]) simp
qed

end
