(* ===== verification/Tasks_Races.thy ===== *)
theory Tasks_Races
  imports Tasks_System
begin

text \<open>
  What the lock-free operations of the manager do not promise: two schedules in which a subscription is
  answered although it has no effect. In \<open>apply_request\<close> the filter is loaded and stored in two accesses, and
  between the test for staleness and the swap in \<open>maybe_cleanup_stale_slot\<close> a connection can be refreshed.
\<close>

section \<open>Accesses on given tasks\<close>

lemma run_schedule_simps:
  "run_schedule env [] s = s"
  "run_schedule env (a # accesses) s = run_schedule env accesses (run_access env a s)"
  by (simp_all add: run_schedule_def)

section \<open>A sender with one connection\<close>

text \<open>The first subscription of the sample sender, run to its end, and further tasks started after it.\<close>

definition subscribed :: "(list_queue, nat, bytes list) tasks" where
  "subscribed = run_schedule sample_env (map (\<lambda>i. (i, 1000)) [0, 0, 0, 0, 0])
     (start_tasks [upsert_task sample_request ''/dev/shm'' 256] (tasks_new {}))"

lemma replicate_slots: "replicate 10 x = x # replicate 9 x"
  by (simp add: numeral_eq_Suc)

lemma subscribed_state:
  "subscribed = \<lparr>ts_manager = sample_manager,
     ts_tasks = [Finished (Provided (Ok (Created (slot_token_new 0 1) ''/dev/shm/7-0-1'' 256 0)))], ts_reclaimed = {}\<rparr>"
  unfolding subscribed_def run_schedule_def start_tasks_def tasks_new_def manager_new_def sample_upsert_task
  by (simp add: sample_eval sample_manager_def sample_connection_def replicate_slots)

lemma subscribed_run_reachable:
  assumes "list_all valid_start ts"
  shows "(tasks_step sample_env)\<^sup>*\<^sup>* (tasks_new {}) (run_schedule sample_env accesses (start_tasks ts subscribed))"
proof -
  have "list_all valid_start [upsert_task sample_request ''/dev/shm'' 256 :: (list_queue, nat, bytes list) task]"
    by (simp add: valid_starts)
  then have "(tasks_step sample_env)\<^sup>*\<^sup>* (tasks_new {}) subscribed"
    unfolding subscribed_def by (rule rtranclp_trans [OF start_tasks_steps run_schedule_steps])
  moreover have "(tasks_step sample_env)\<^sup>*\<^sup>* subscribed (run_schedule sample_env accesses (start_tasks ts subscribed))"
    using assms by (rule rtranclp_trans [OF start_tasks_steps run_schedule_steps])
  ultimately show ?thesis
    by (rule rtranclp_trans)
qed

abbreviation again :: "nat \<Rightarrow> subscription_request" where
  "again n \<equiv> (subscription_new [key_of n] [])\<lparr>sr_slot_token := Some (slot_token_new 0 1)\<rparr>"


section \<open>The two schedules\<close>

text \<open>
  C30: a request can be lost. When two re-subscriptions with the token of one connection both load its
  filter before either stores, both are answered with the token, but the connection gets only what it asked
  for before and what the second one asks for.
\<close>

theorem lost_subscription:
  fixes n1 n2 n3 n4 :: u64
  assumes "bloom_ok (se_bloom env)" and "filter_invar (se_bloom env) (mc_filter e)" and "mg_heap (ts_manager s) p = Some e"
    and "i < length (ts_tasks s)" and "j < length (ts_tasks s)" and "i \<noteq> j"
    and "ts_tasks s ! i = Load_Filter first p" and "ts_tasks s ! j = Load_Filter second p"
  defines "s' \<equiv> run_schedule env [(i, n1), (j, n2), (i, n3), (j, n4)] s"
  shows "ts_tasks s' ! i = Finished (Provided (Ok (Existing (connection_token e)))) \<and>
    ts_tasks s' ! j = Finished (Provided (Ok (Existing (connection_token e)))) \<and>
    (\<exists>e'. mg_heap (ts_manager s') p = Some e' \<and> mc_filter e' = filter_with_request (se_bloom env) (mc_filter e) second \<and>
      (\<forall>u. matches_account (se_bloom env) (mc_filter e') u \<longleftrightarrow>
         matches_account (se_bloom env) (mc_filter e) u \<or> wants_account second u))"
proof -
  let ?f = "\<lambda>r. filter_with_request (se_bloom env) (mc_filter e) r"
  let ?done = "Finished (Provided (Ok (Existing (connection_token e))))"
  have tok: "connection_token (e\<lparr>mc_filter := g\<rparr>) = connection_token e" for g
    by (simp add: connection_token_def)
  have nth: "(ts_tasks s)[i := a] ! j = ts_tasks s ! j" "(ts_tasks s)[i := a, j := b] ! i = a" "(ts_tasks s)[i := a, j := b] ! j = b" for a b
    using assms(4-6) by (simp_all add: nth_list_update)
  have "s' = s\<lparr>ts_manager := set_connection (ts_manager s) p (e\<lparr>mc_filter := ?f second\<rparr>),
      ts_tasks := (ts_tasks s)[i := ?done, j := ?done]\<rparr>"
    unfolding s'_def using assms(3-8)
    by (simp add: run_schedule_simps run_access_def deref_def nth_list_update tok list_update_swap [OF assms(6)] set_connection_def)
  moreover have "matches_account (se_bloom env) (?f second) u \<longleftrightarrow> matches_account (se_bloom env) (mc_filter e) u \<or> wants_account second u" for u
    by (rule subscription.extend_account [OF assms(1,2)])
  ultimately show ?thesis
    using nth by simp
qed

text \<open>Two subscriptions with the token of the sample connection, up to the loads of its filter.\<close>

definition two_requests :: "(list_queue, nat, bytes list) tasks" where
  "two_requests = run_schedule sample_env (map (\<lambda>i. (i, 1000)) [1, 2, 1, 2, 1, 2])
     (start_tasks [upsert_task (again 2) ''/dev/shm'' 256, upsert_task (again 3) ''/dev/shm'' 256] subscribed)"

lemma two_requests_reachable: "(tasks_step sample_env)\<^sup>*\<^sup>* (tasks_new {}) two_requests"
  unfolding two_requests_def by (rule subscribed_run_reachable) (simp add: valid_starts)

lemma two_requests_state:
  "mg_heap (ts_manager two_requests) 0 = Some sample_connection \<and> length (ts_tasks two_requests) = 3 \<and>
   ts_tasks two_requests ! 1 = Load_Filter (again 2) 0 \<and> ts_tasks two_requests ! 2 = Load_Filter (again 3) 0"
  unfolding two_requests_def run_schedule_def start_tasks_def subscribed_state
  by (simp add: sample_eval sample_manager_def sample_connection_def upsert_task_def)

theorem lost_subscription_witness:
  "(tasks_step sample_env)\<^sup>*\<^sup>* (tasks_new {}) two_requests \<and>
   (let s' = run_schedule sample_env [(1, 1000), (2, 1000), (1, 1000), (2, 1000)] two_requests
    in ts_tasks s' ! 1 = Finished (Provided (Ok (Existing (slot_token_new 0 1)))) \<and>
       (\<exists>e. mg_heap (ts_manager s') 0 = Some e \<and> \<not> matches_account first_byte_bloom (mc_filter e) (sample_update 2 99)))"
proof -
  have heap: "mg_heap (ts_manager two_requests) 0 = Some sample_connection" and tasks: "1 < length (ts_tasks two_requests)"
      "2 < length (ts_tasks two_requests)" "ts_tasks two_requests ! 1 = Load_Filter (again 2) 0"
      "ts_tasks two_requests ! 2 = Load_Filter (again 3) 0" "(1 :: nat) \<noteq> 2"
    using two_requests_state by simp_all
  have "mg_heap sample_manager 0 = Some sample_connection"
    by (simp add: sample_manager_def)
  from mgr_inv_heap(1) [OF sample_inv this]
  have inv: "filter_invar (se_bloom sample_env) (mc_filter sample_connection)" "bloom_ok (se_bloom sample_env)"
    using sample_env_ok by (simp_all add: conn_ok_def sender_env_ok_def)
  have no: "\<not> matches_account first_byte_bloom (mc_filter sample_connection) (sample_update 2 99)"
      "\<not> wants_account (again 3) (sample_update 2 99)"
    by (simp_all add: sample_connection_def subscription.first_account [OF first_byte_bloom_ok] wants_account_def sample_request_def
        subscription_new_def sample_update_def key_of_def)
  have token: "connection_token sample_connection = slot_token_new 0 1"
    by (simp add: connection_token_def sample_connection_def)
  show ?thesis
    using lost_subscription [OF inv(2,1) heap tasks(1,2,5,3,4), of 1000 1000 1000 1000] no two_requests_reachable
    unfolding Let_def sample_env_fields token by blast
qed

text \<open>
  C31: a refresh can come too late. When a dispatch pass finds a connection stale and a re-subscription,
  which found it alive just before, refreshes it before the pass closes and removes it, the subscription is
  answered with the token of a connection that is closed and in no slot.
\<close>

theorem refreshed_but_removed:
  fixes env :: "('q, 'k, 'b) sender_env" and n3 n4 n5 n6 n7 :: u64
  assumes "mg_heap (ts_manager s) p = Some e" and "load_full (ts_manager s) idx = Some p"
    and "i < length (ts_tasks s)" and "j < length (ts_tasks s)" and "i \<noteq> j"
    and "ts_tasks s ! i = Lookup_Stale (Subscribing request dir cap) idx p" and "ts_tasks s ! j = Visit_Stale job idx p"
    and "\<not> is_stale now1 e" and "is_stale now2 e"
  defines "s' \<equiv> run_schedule env [(i, now1), (j, now2), (i, n3), (i, n4), (i, n5), (j, n6), (j, n7)] s"
  shows "ts_tasks s' ! i = Finished (Provided (Ok (Existing (connection_token e)))) \<and>
    load_full (ts_manager s') idx = None \<and>
    mg_heap (ts_manager s') p = Some (close_connection env (apply_request (se_bloom env) (e\<lparr>mc_last_seen_ms := n3\<rparr>) request))"
proof -
  let ?ts = "ts_tasks s" and ?m = "ts_manager s"
  let ?done = "Finished (Provided (Ok (Existing (connection_token e))))"
  let ?e = "apply_request (se_bloom env) (e\<lparr>mc_last_seen_ms := n3\<rparr>) request"
  have swap: "xs[j := a, i := b] = xs[i := b, j := a]" for xs :: "('q, 'k, 'b) task list" and a b
    using assms(5) by (rule list_update_swap [OF not_sym])
  let ?s1 = "run_schedule env [(i, now1), (j, now2)] s"
  have s1: "?s1 = s\<lparr>ts_tasks := ?ts[i := Touch (Subscribing request dir cap) p, j := Close_Sink (Then_Visit job (Suc idx)) idx p]\<rparr>"
    using assms(1,3-9) by (simp add: run_schedule_simps run_access_def deref_def nth_list_update)
  let ?s2 = "run_schedule env [(i, n3), (i, n4), (i, n5)] ?s1"
  have s2: "?s2 = s\<lparr>ts_manager := set_connection ?m p ?e, ts_tasks := ?ts[i := ?done, j := Close_Sink (Then_Visit job (Suc idx)) idx p]\<rparr>"
    unfolding s1 using assms(3-5)
    by (simp add: run_schedule_simps run_access_def deref_def nth_list_update swap set_connection_def apply_request_def connection_token_def assms(1))
  have "s' = run_schedule env [(j, n6), (j, n7)] ?s2"
    by (simp add: s'_def run_schedule_def)
  also have "\<dots> = s\<lparr>ts_manager := snd (compare_and_swap (set_connection ?m p (close_connection env ?e)) idx (Some p) None),
      ts_tasks := ?ts[i := ?done, j := Visit job (Suc idx)]\<rparr>"
    unfolding s2 using assms(3-5)
    by (simp add: run_schedule_simps run_access_def deref_def nth_list_update set_connection_def)
  finally show ?thesis
    using assms(2-5) by (simp add: load_swap nth_list_update)
qed

text \<open>A re-subscription and a dispatch pass that have both loaded slot 0.\<close>

definition late_refresh :: "(list_queue, nat, bytes list) tasks" where
  "late_refresh = run_schedule sample_env [(1, 31000), (2, 31000)]
     (start_tasks [upsert_task (again 2) ''/dev/shm'' 256, dispatch_task (\<lambda>_. True) (Err ShmFull)] subscribed)"

lemma late_refresh_reachable: "(tasks_step sample_env)\<^sup>*\<^sup>* (tasks_new {}) late_refresh"
  unfolding late_refresh_def by (rule subscribed_run_reachable) (simp add: valid_starts(1), rule valid_starts(3), simp)

lemma late_refresh_state:
  "mg_heap (ts_manager late_refresh) 0 = Some sample_connection \<and> load_full (ts_manager late_refresh) 0 = Some 0 \<and>
   length (ts_tasks late_refresh) = 3 \<and>
   ts_tasks late_refresh ! 1 = Lookup_Stale (Subscribing (again 2) ''/dev/shm'' 256) 0 0 \<and>
   ts_tasks late_refresh ! 2 = Visit_Stale \<lparr>jb_matches = \<lambda>_. True, jb_encode = Err ShmFull, jb_shared_frame = None\<rparr> 0 0"
  unfolding late_refresh_def run_schedule_def start_tasks_def subscribed_state
  by (simp add: sample_eval sample_manager_def sample_connection_def upsert_task_def dispatch_task_def)

theorem refreshed_but_removed_witness:
  "(tasks_step sample_env)\<^sup>*\<^sup>* (tasks_new {}) late_refresh \<and>
   (let s' = run_schedule sample_env [(1, 31000), (2, 31001), (1, 31002), (1, 31002), (1, 31002), (2, 31002), (2, 31002)] late_refresh
    in ts_tasks s' ! 1 = Finished (Provided (Ok (Existing (slot_token_new 0 1)))) \<and> load_full (ts_manager s') 0 = None)"
proof -
  have state: "mg_heap (ts_manager late_refresh) 0 = Some sample_connection" "load_full (ts_manager late_refresh) 0 = Some 0"
      "1 < length (ts_tasks late_refresh)" "2 < length (ts_tasks late_refresh)" "(1 :: nat) \<noteq> 2"
      "ts_tasks late_refresh ! 1 = Lookup_Stale (Subscribing (again 2) ''/dev/shm'' 256) 0 0"
      "ts_tasks late_refresh ! 2 = Visit_Stale \<lparr>jb_matches = \<lambda>_. True, jb_encode = Err ShmFull, jb_shared_frame = None\<rparr> 0 0"
    using late_refresh_state by simp_all
  have stale: "\<not> is_stale 31000 sample_connection" "is_stale 31001 sample_connection"
    by (simp_all add: is_stale_def sat_sub_def sample_connection_def const_defs)
  have token: "connection_token sample_connection = slot_token_new 0 1"
    by (simp add: connection_token_def sample_connection_def)
  show ?thesis
    using refreshed_but_removed [OF state stale, of sample_env 31002 31002 31002 31002 31002] late_refresh_reachable
    unfolding Let_def token by blast
qed

end
