(* ===== verification/Spec2Isabelle.thy ===== *)
theory Spec2Isabelle
  imports Codec_Properties Handshake Sender_Setup Delivery Tasks_Termination Tasks_Files Tasks_Atomic
    Tasks_Delivery Tasks_Races
begin

text \<open>
  qlaster streams Solana account, transaction and slot updates from one sender process to up to ten
  consumer processes on the same host. This library models the crate and proves that what a
  consumer gets is what it asked for.

  \<^bold>\<open>The program.\<close> A consumer connects to the sender's Unix socket and sends a subscription. The sender
  (\<open>src/sender/shm.rs\<close>) gives it one of ten slots, creates a ring file in shared memory and a wakeup
  descriptor, and answers with the ring's path, a slot token and the descriptor. From then on the
  dispatcher tasks (\<open>src/sender/mod.rs\<close>) match every update against the slot's filter, encode it once
  and push the frame into the rings of the matching slots (\<open>src/transport.rs\<close>, \<open>src/shm/ring.rs\<close>), with a
  wakeup for each (\<open>src/shm/eventfd.rs\<close>). The reader task of the consumer (\<open>src/consumer/shm.rs\<close>) decodes
  the frames (\<open>src/types.rs\<close>) and puts the updates into three bounded queues. Pings keep a slot
  alive for thirty seconds; a slot that is stale, or whose ring is full, is closed and freed.

  \<^bold>\<open>The theories.\<close>
  \<^item> \<open>Prelude\<close>, \<open>Errors\<close>: results with errors and panics, little-endian integers, and \<open>src/error.rs\<close>.
  \<^item> \<open>Cursor\<close>, \<open>Wire_Common\<close>, \<open>Account_Update\<close>, \<open>Stream_Updates\<close>, \<open>Control_Messages\<close>, \<open>Frames\<close>: \<open>src/types.rs\<close>, in the
    order of the file: bounds-checked readers, tags and limits, the three update kinds with encoders,
    parsers and both decoders, the control messages, and the four frame routers. The locale
    \<open>field_reader\<close> is the contract of a reader, \<open>update_codec\<close> that of an update kind; both are
    interpreted for every instance. \<open>Codec_Properties\<close> has the theorems: round trips, canonical frames,
    what the decoders accept, agreement of the routers, size limits, absence of panics.
  \<^item> \<open>Framing\<close>: \<open>src/wire.rs\<close>, length-prefixed frames on a byte stream.
  \<^item> \<open>Metrics\<close>: \<open>src/metrics.rs\<close>, the latency and counter aggregators with their 64-bit wrap-around.
  \<^item> \<open>Shm_Ring\<close>: \<open>src/shm/ring.rs\<close>. The locale \<open>frame_channel\<close> is a bounded FIFO channel of whole frames
    and close marks; the ring over the byte queue is shown to be one for every sequence of operations.
  \<^item> \<open>Event_Fd\<close>, \<open>Pipe_Fd\<close>: \<open>src/shm/eventfd.rs\<close>, the eventfd and the pipe behind the wakeup, and the
    asynchronous wait. The locales \<open>wakeup_source\<close> and \<open>counting_wakeup\<close> are what ring users rely on;
    both descriptors provide it.
  \<^item> \<open>Uds\<close>: \<open>src/shm/uds.rs\<close>, passing a descriptor with a frame.
  \<^item> \<open>Transport\<close>: \<open>src/transport.rs\<close>, the sink of a slot: a ring and its wakeup.
  \<^item> \<open>Subscription_Filter\<close>, \<open>Connection_Manager\<close>: the filter and the connection manager of
    \<open>src/sender/mod.rs\<close>. Slots hold pointers into a heap of connections, so that a connection outlives its
    removal for the task that still holds it. \<open>Manager_Invariant\<close> and \<open>Manager_Upsert\<close> have the
    invariant, the frame conditions and the installation loop; \<open>Sender_Steps\<close> the step relation of the
    sender and the theorems on its runs; \<open>Dispatch\<close> what one pass does to every connection.
  \<^item> \<open>Sender_Control\<close>, \<open>Sender_Setup\<close>: \<open>src/sender/shm.rs\<close> and the entry points of \<open>src/sender/mod.rs\<close>: binding the
    socket, the accept loop, the handler of a control connection, the dispatcher tasks.
  \<^item> \<open>Reader\<close>, \<open>Consumer\<close>: \<open>src/consumer/shm.rs\<close>, the reader task and the client operations.
  \<^item> \<open>Handshake\<close>: the two ends of the control socket together: the first subscription, a later one, and
    one whose slot is gone.
  \<^item> \<open>Delivery\<close>: sender and reader together, as two step relations over one state.
  \<^item> \<open>Manager_Tasks\<close>: the operations of the connection manager once more, as programs of single atomic
    accesses (\<open>task_step\<close>, one equation per access of \<open>src/sender/mod.rs\<close>) that any number of tasks interleave.
    \<open>Tasks_Invariant\<close> and \<open>Tasks_System\<close> have its invariant, \<open>Tasks_Termination\<close> the bound on the number of accesses,
    \<open>Tasks_Files\<close> the ring files, \<open>Tasks_Atomic\<close> the agreement with \<open>Connection_Manager\<close>, \<open>Tasks_Delivery\<close> the
    path from the dispatchers over the reader to the application, \<open>Tasks_Races\<close> what the accesses do not promise.

  \<^bold>\<open>What is shown.\<close> In \<open>Delivery\<close>: in every interleaving, the updates due to a connection arrive complete and in
  order, and at most one is lost, by the eviction it causes; a reader never sleeps while its ring
  holds something; and the one race in which an evicted reader does not notice. In \<open>Dispatch\<close> and
  \<open>Sender_Steps\<close>: the exact effect of a pass on each connection, its counters, the invariant of all
  reachable states, the outcomes of a subscription, uniqueness of tokens. In \<open>Sender_Control\<close>, \<open>Sender_Setup\<close>
  and \<open>Handshake\<close>: handlers and dispatchers refine the step relation and never panic, and the two
  ends of a handshake agree on ring, token and filter. In the \<open>Tasks\<close> theories, for all interleavings of single
  accesses: the invariant holds and no task follows a dangling pointer; every operation ends, after at most
  \<open>71 n + 55 n\<^sup>2\<close> accesses of \<open>n\<close> operations, in particular the retry loop of \<open>upsert_shm\<close>; ring files belong to
  one connection each and none is left behind; nothing is delivered twice, out of order or made up, and a
  sleeping reader has its wakeup; and two schedules in which a subscription is answered without effect.
  The other theories have the contracts of their components.

  \<^bold>\<open>Conventions.\<close> Fixed-width integers are words; \<open>usize\<close> is a natural number, with the overflow checks of the
  source written out. Errors are values of \<open>result\<close>, where \<open>Panic\<close> stands for a panic. Times are
  arguments: every reading of a clock is a separate one. Code outside the crate is a parameter with
  its documented behaviour as a named hypothesis, and a concrete instance for the witnesses: LZ4
  (\<open>lz4_lossless\<close>), wincode (\<open>wincode_ok\<close>), the byte queue of shaq (\<open>shaq_ok\<close>), the Bloom filter (\<open>bloom_ok\<close>), the
  crossbeam queue (\<open>array_queue_ok\<close>), eventfd and pipe (\<open>efd_ok\<close>, \<open>pipe_ok\<close>), and the answers of the
  socket and file system calls.

  \<^bold>\<open>Loops.\<close> No fuel is used. Loops over given lists are primitive recursive, the handler of a control connection
  terminates because every round consumes input, and the loops that may not end (the installation
  of a connection, draining a ring or pipe, waiting, the reader) are partial functions, each with a theorem
  that says when it returns. The installation loop returns after one round where an operation of the manager
  is one atomic step, and \<open>Tasks_Termination\<close> shows that it returns under every interleaving.

  \<^bold>\<open>Concurrency.\<close> The manager is modelled at two grains. In \<open>Sender_Steps\<close> and the theories on top of it an operation is
  one atomic step, the tasks interleave the steps in any order, and at a suspension point the other tasks act
  through an explicit argument (\<open>others\<close>, \<open>readable\<close>) or the step relation; the two halves of an eviction are
  separated in \<open>Delivery\<close>. In \<open>Manager_Tasks\<close> each load, store, swap, push and close is a step of its own, a push
  with its wakeup being one. Every run at the first grain is a run at the second (\<open>Tasks_Atomic\<close>).

  \<^bold>\<open>Not modelled.\<close> Log output; \<open>Debug\<close> and \<open>Display\<close> renderings beyond the error messages that are
  values; accessors that only copy a field; the memory orderings of the atomics, whose accesses are
  taken to be sequentially consistent; interleavings inside the byte queue of shaq and between a push and its
  wakeup; ownership of descriptors beyond what is received with a message. The metrics of the manager are in
  \<open>Connection_Manager\<close> only. \<open>src/lib.rs\<close>, \<open>src/shm/mod.rs\<close> and \<open>src/consumer/mod.rs\<close> only declare modules.
\<close>

end
